(* ===== verification/Prelude.thy ===== *)
theory Prelude
  imports Main "HOL-Library.Word" "HOL-Library.Signed_Division"
begin

text \<open>
  Shared vocabulary of the development: the machine integer types of the Rust sources,
  little-endian byte encodings with their round trips, bounds-checked slices, lower-case
  hexadecimal text, and generic list and association-list lemmas.
  A Rust \<open>Vec<u8>\<close> or \<open>&[u8]\<close> is a list of 8-bit words; a Rust \<open>String\<close> is a HOL string,
  one \<open>char\<close> per UTF-8 byte, so that \<open>length\<close> is Rust's \<open>len\<close>.
\<close>

unbundle bit_operations_syntax

section \<open>Machine integers\<close>

type_synonym u8 = "8 word"
type_synonym u16 = "16 word"
type_synonym u32 = "32 word"
type_synonym u64 = "64 word"
type_synonym u128 = "128 word"
type_synonym bytes = "u8 list"

text \<open>A 32-byte digest (\<open>[u8; 32]\<close>).\<close>

type_synonym digest = "u8 list"

text \<open>
  \<open>checked_add\<close> on \<open>u64\<close> and on \<open>usize\<close> (64 bits): \<open>None\<close> on overflow.
\<close>

definition checked_add :: "u64 \<Rightarrow> u64 \<Rightarrow> u64 option" where
  "checked_add a b = (if unat a + unat b < 2 ^ 64 then Some (a + b) else None)"

definition checked_mul :: "u64 \<Rightarrow> u64 \<Rightarrow> u64 option" where
  "checked_mul a b = (if unat a * unat b < 2 ^ 64 then Some (a * b) else None)"

text \<open>
  \<open>checked_add\<close> with a buffer length: in Rust a length is below \<open>2^63\<close>, so its cast to \<open>u64\<close>
  is exact and the sum is taken on naturals.
\<close>

definition checked_add_len :: "u64 \<Rightarrow> nat \<Rightarrow> u64 option" where
  "checked_add_len a n = (if unat a + n < 2 ^ 64 then Some (a + of_nat n) else None)"

named_theorems codec \<open>round trips and lengths of the byte encodings\<close>
named_theorems bound \<open>numeric bounds of machine integers\<close>

lemma checked_add_Some:
  "checked_add a b = Some c \<longleftrightarrow> unat a + unat b < 2 ^ 64 \<and> c = a + b"
  by (auto simp: checked_add_def)

lemma checked_add_None: "checked_add a b = None \<longleftrightarrow> 2 ^ 64 \<le> unat a + unat b"
  by (auto simp: checked_add_def)

lemma unat_checked_add: "checked_add a b = Some c \<Longrightarrow> unat c = unat a + unat b"
  by (auto simp: checked_add_def unat_word_ariths split: if_splits)

lemma unat_checked_mul: "checked_mul a b = Some c \<Longrightarrow> unat c = unat a * unat b"
  by (auto simp: checked_mul_def unat_word_ariths split: if_splits)

lemma unat_add_u64:
  fixes a b :: u64
  shows "unat a + unat b < 2 ^ 64 \<Longrightarrow> unat (a + b) = unat a + unat b"
  by (simp add: unat_word_ariths)

lemma unat_add_of_nat:
  fixes a :: u64
  assumes "unat a + n < 2 ^ 64"
  shows "unat (a + of_nat n) = unat a + n"
  using assms by (simp add: unat_word_ariths unat_of_nat)

lemma unat_u8_lt [bound]: "unat (b :: u8) < 256"
  using unsigned_less [of b] by simp

lemma unat_u32_lt [bound]: "unat (w :: u32) < 2 ^ 32"
  using unsigned_less [of w] by simp

lemma unat_u64_lt [bound]: "unat (w :: u64) < 2 ^ 64"
  using unsigned_less [of w] by simp

lemma unat_inc: "unat (x :: u64) < unat (y :: u64) \<Longrightarrow> unat (x + 1) = Suc (unat x)"
  using unat_u64_lt [of y] by (simp add: unat_word_ariths)

lemma word_inc_less:
  assumes "(x :: u64) < y" and "x + 1 \<noteq> y"
  shows "x + 1 < y"
proof -
  have "unat (x + 1) = Suc (unat x)" using assms(1) unat_inc by (simp add: word_less_nat_alt)
  moreover have "unat (x + 1) \<noteq> unat y" using assms(2) by (metis unsigned_word_eqI)
  ultimately show ?thesis using assms(1) by (simp add: word_less_nat_alt)
qed

section \<open>Little-endian encodings\<close>

text \<open>\<open>to_le_bytes\<close>: the \<open>n\<close> low bytes of a word, least significant first.\<close>

fun le_bytes :: "nat \<Rightarrow> 'a::len word \<Rightarrow> bytes" where
  "le_bytes 0 w = []"
| "le_bytes (Suc n) w = ucast w # le_bytes n (drop_bit 8 w)"

text \<open>\<open>from_le_bytes\<close>: the word whose low bytes are given, least significant first.\<close>

fun from_le :: "bytes \<Rightarrow> 'a::len word" where
  "from_le [] = 0"
| "from_le (b # bs) = ucast b OR push_bit 8 (from_le bs)"

lemma length_le_bytes [simp, codec]: "length (le_bytes n w) = n"
  by (induction n arbitrary: w) auto

lemma nth_le_bytes: "i < n \<Longrightarrow> le_bytes n w ! i = ucast (drop_bit (8 * i) w)"
proof (induction n arbitrary: w i)
  case (Suc n)
  then show ?case by (cases i) (simp_all add: drop_bit_drop_bit ac_simps)
qed simp

lemma bit_from_le:
  "bit (from_le bs :: 'a::len word) k \<longleftrightarrow>
     k < LENGTH('a) \<and> k div 8 < length bs \<and> bit (bs ! (k div 8)) (k mod 8)"
proof (induction bs arbitrary: k)
  case Nil
  then show ?case by simp
next
  case (Cons b bs)
  show ?case
  proof (cases "k < 8")
    case True
    then show ?thesis by (auto simp: bit_or_iff bit_push_bit_iff bit_ucast_iff)
  next
    case False
    then have d: "k div 8 = Suc ((k - 8) div 8)" and m: "k mod 8 = (k - 8) mod 8"
      by (simp_all add: le_div_geq le_mod_geq)
    have nb: "\<not> bit b k" using False by (auto dest: bit_imp_le_length)
    show ?thesis using False nb Cons.IH [of "k - 8"]
      by (auto simp: bit_or_iff bit_push_bit_iff bit_ucast_iff d m)
  qed
qed

lemma from_le_le_bytes:
  fixes w :: "'a::len word"
  assumes "LENGTH('a) \<le> 8 * n"
  shows "from_le (le_bytes n w) = w"
proof (rule bit_word_eqI)
  fix k assume k: "k < LENGTH('a)"
  then have kn: "k div 8 < n" using assms by linarith
  have "8 * (k div 8) + k mod 8 = k" by simp
  then show "bit (from_le (le_bytes n w) :: 'a word) k = bit w k"
    using k kn by (simp add: bit_from_le nth_le_bytes bit_ucast_iff bit_drop_bit_eq)
qed

lemma from_le_u16 [simp, codec]: "from_le (le_bytes 2 (w :: u16)) = w"
  by (rule from_le_le_bytes) simp

lemma from_le_u32 [simp, codec]: "from_le (le_bytes 4 (w :: u32)) = w"
  by (rule from_le_le_bytes) simp

lemma from_le_u64 [simp, codec]: "from_le (le_bytes 8 (w :: u64)) = w"
  by (rule from_le_le_bytes) simp

lemma le_bytes_from_le:
  assumes "length bs = n" and "8 * n \<le> LENGTH('a)"
  shows "le_bytes n (from_le bs :: 'a::len word) = bs"
proof (rule nth_equalityI)
  show "length (le_bytes n (from_le bs :: 'a word)) = length bs" using assms by simp
  fix i assume "i < length (le_bytes n (from_le bs :: 'a word))"
  then have i: "i < n" by simp
  show "le_bytes n (from_le bs :: 'a word) ! i = bs ! i"
  proof (rule bit_word_eqI)
    fix k assume "k < LENGTH(8)"
    then have k: "k < 8" by simp
    have "8 * i + k < LENGTH('a)" using i k assms(2) by linarith
    then show "bit (le_bytes n (from_le bs :: 'a word) ! i) k = bit (bs ! i) k"
      using i k assms(1)
      by (simp add: nth_le_bytes bit_ucast_iff bit_drop_bit_eq bit_from_le ac_simps)
  qed
qed

lemma le_bytes_inject:
  fixes v w :: "'a::len word"
  assumes "LENGTH('a) \<le> 8 * n"
  shows "le_bytes n v = le_bytes n w \<longleftrightarrow> v = w"
  by (metis assms from_le_le_bytes)

lemma le_bytes_u32_inject [simp]: "le_bytes 4 (v :: u32) = le_bytes 4 w \<longleftrightarrow> v = w"
  by (rule le_bytes_inject) simp

lemma le_bytes_u64_inject [simp]: "le_bytes 8 (v :: u64) = le_bytes 8 w \<longleftrightarrow> v = w"
  by (rule le_bytes_inject) simp

section \<open>Slices\<close>

text \<open>\<open>&bs[o..o + n]\<close>: the slice, or \<open>None\<close> where Rust panics (or \<open>get\<close> gives \<open>None\<close>).\<close>

definition slice :: "'a list \<Rightarrow> nat \<Rightarrow> nat \<Rightarrow> 'a list option" where
  "slice bs off n = (if off + n \<le> length bs then Some (take n (drop off bs)) else None)"

lemma slice_SomeD: "slice bs off n = Some s \<Longrightarrow> length s = n \<and> off + n \<le> length bs"
  by (auto simp: slice_def split: if_splits)

lemma slice_in_range [simp]: "off + n \<le> length bs \<Longrightarrow> slice bs off n = Some (take n (drop off bs))"
  by (simp add: slice_def)

lemma slice_None_iff: "slice bs off n = None \<longleftrightarrow> length bs < off + n"
  by (auto simp: slice_def)

lemma slice_append_left [simp]: "length a = off \<Longrightarrow> slice (a @ b) off n = slice b 0 n"
  by (simp add: slice_def)

section \<open>Association lists kept in key order (\<open>BTreeMap\<close>)\<close>

text \<open>\<open>BTreeMap::insert\<close>: keys stay sorted, an existing key is overwritten.\<close>

fun bt_insert :: "'k::linorder \<Rightarrow> 'v \<Rightarrow> ('k \<times> 'v) list \<Rightarrow> ('k \<times> 'v) list" where
  "bt_insert k v [] = [(k, v)]"
| "bt_insert k v ((k', v') # m) =
     (if k < k' then (k, v) # (k', v') # m
      else if k = k' then (k, v) # m
      else (k', v') # bt_insert k v m)"

definition bt_sorted :: "('k::linorder \<times> 'v) list \<Rightarrow> bool" where
  "bt_sorted m = sorted_wrt (<) (map fst m)"

lemma bt_sorted_Nil [simp]: "bt_sorted []"
  by (simp add: bt_sorted_def)

lemma bt_sorted_Cons [simp]:
  "bt_sorted ((k, v) # m) \<longleftrightarrow> (\<forall>x \<in> fst ` set m. k < x) \<and> bt_sorted m"
  by (auto simp: bt_sorted_def)

lemma keys_bt_insert [simp]: "fst ` set (bt_insert k v m) = insert k (fst ` set m)"
  by (induction k v m rule: bt_insert.induct) auto

lemma bt_sorted_insert [simp]: "bt_sorted m \<Longrightarrow> bt_sorted (bt_insert k v m)"
  by (induction k v m rule: bt_insert.induct) auto

lemma map_of_bt_insert [simp]:
  "bt_sorted m \<Longrightarrow> map_of (bt_insert k v m) = (map_of m)(k \<mapsto> v)"
proof (induction k v m rule: bt_insert.induct)
  case (2 k v k' v' m)
  then show ?case by (auto simp: fun_eq_iff)
qed auto

lemma bt_sorted_distinct: "bt_sorted m \<Longrightarrow> distinct (map fst m)"
  by (simp add: bt_sorted_def strict_sorted_iff)

lemma bt_sorted_map_snd [simp]: "bt_sorted (map (\<lambda>(k, v). (k, f k v)) m) = bt_sorted m"
  by (simp add: bt_sorted_def case_prod_unfold comp_def)

lemma length_bt_insert_new:
  "k \<notin> fst ` set m \<Longrightarrow> length (bt_insert k v m) = Suc (length m)"
  by (induction k v m rule: bt_insert.induct) auto

text \<open>A key-ordered list is determined by the map it represents.\<close>

lemma bt_sorted_unique:
  assumes "bt_sorted m1" and "bt_sorted m2" and "map_of m1 = map_of m2"
  shows "m1 = m2"
proof -
  have "set (map fst m1) = set (map fst m2)"
    using arg_cong [OF assms(3), of dom] by (simp add: dom_map_of_conv_image_fst)
  then have k: "map fst m1 = map fst m2"
    using assms(1,2) by (intro strict_sorted_equal) (simp_all add: bt_sorted_def)
  show ?thesis
  proof (rule nth_equalityI)
    show l: "length m1 = length m2" using arg_cong [OF k, of length] by simp
    fix i assume i: "i < length m1"
    have f: "fst (m1 ! i) = fst (m2 ! i)" using arg_cong [OF k, of "\<lambda>x. x ! i"] i l by simp
    have "map_of m1 (fst (m1 ! i)) = Some (snd (m1 ! i))"
      by (rule map_of_is_SomeI [OF bt_sorted_distinct [OF assms(1)]]) (simp add: i)
    moreover have "map_of m2 (fst (m2 ! i)) = Some (snd (m2 ! i))"
      by (rule map_of_is_SomeI [OF bt_sorted_distinct [OF assms(2)]]) (simp add: i l [symmetric])
    ultimately show "m1 ! i = m2 ! i" using f assms(3) by (simp add: prod_eq_iff)
  qed
qed

section \<open>Lists\<close>

lemma nth_list_update_if:
  "j < length xs \<Longrightarrow> (xs[i := x]) ! j = (if i = j then x else xs ! j)"
  by (cases "i = j") auto

lemma append_eq_sameD: "a @ b = c @ d \<Longrightarrow> length a = length c \<Longrightarrow> a = c \<and> b = d"
  by simp

lemma concat_map_inj_fixed:
  assumes "\<And>x. length (f x) = n" and "0 < n" and "inj f"
    and "concat (map f xs) = concat (map f ys)"
  shows "xs = ys"
  using assms(4)
proof (induction xs arbitrary: ys)
  case Nil
  then show ?case using assms(1,2) by (cases ys) (auto dest: arg_cong [where f = length])
next
  case (Cons x xs)
  then obtain y ys' where ys: "ys = y # ys'"
    using assms(1,2) by (cases ys) (auto dest: arg_cong [where f = length])
  have "f x = f y \<and> concat (map f xs) = concat (map f ys')"
    using Cons.prems ys assms(1) by (simp add: append_eq_append_conv)
  then show ?case using Cons.IH ys assms(3) by (auto dest: injD)
qed

text \<open>\<open>slice::get\<close>.\<close>

definition lget :: "'a list \<Rightarrow> nat \<Rightarrow> 'a option" where
  "lget xs i = (if i < length xs then Some (xs ! i) else None)"

lemma lget_eq_Some: "lget xs i = Some x \<longleftrightarrow> i < length xs \<and> xs ! i = x"
  by (auto simp: lget_def)

lemma lget_eq_None: "lget xs i = None \<longleftrightarrow> length xs \<le> i"
  by (simp add: lget_def)

lemma lget_ext:
  assumes "\<And>j. lget xs j = lget ys j"
  shows "xs = ys"
proof (rule nth_equalityI)
  show "length xs = length ys" using assms by (metis lget_eq_None le_refl le_antisym)
  show "xs ! i = ys ! i" if "i < length xs" for i
    using assms [of i] that by (simp add: lget_def split: if_splits)
qed

section \<open>Printing and hashing\<close>

text \<open>Decimal printing of a natural number.\<close>

fun dec_nat :: "nat \<Rightarrow> string" where
  "dec_nat n = (if n < 10 then [char_of (48 + n)] else dec_nat (n div 10) @ [char_of (48 + n mod 10)])"

declare dec_nat.simps [simp del]

text \<open>Two byte strings that differ but hash alike.\<close>

definition collision :: "(bytes \<Rightarrow> digest) \<Rightarrow> bytes \<Rightarrow> bytes \<Rightarrow> bool" where
  "collision hash a b \<longleftrightarrow> a \<noteq> b \<and> hash a = hash b"

end
