(* ===== verification/Memory.thy ===== *)
theory Memory
  imports Prelude
begin

text \<open>
  The sparse paged memory of the emulator (\<open>crates/rvcore/src/mem.rs\<close>): pages of 4096 bytes in
  an append-only slot vector, a key-ordered directory from page number to slot, and a
  direct-mapped lookaside cache over the directory.
  The first section has the data and the operations, in the order of the source; the second the
  representation invariant \<open>mem_ok\<close>; the third the abstract memory (a partial map from page
  numbers to pages) and the proof that the operations refine it, stated as an interpretation of
  the interface \<open>paged_memory\<close> that the interpreter's lemmas use.
\<close>

section \<open>Data and operations\<close>

definition PAGE_SIZE :: nat where
  "PAGE_SIZE = 4096"

definition ADDR_SPACE :: u64 where
  "ADDR_SPACE = push_bit 32 1"

definition LOOKASIDE_SLOTS :: nat where
  "LOOKASIDE_SLOTS = 2048"

definition NO_SLOT :: u32 where
  "NO_SLOT = - 1"

definition NO_PAGE :: u32 where
  "NO_PAGE = - 1"

datatype mem_error = OutOfRange

record mem =
  page_slots :: "bytes list"
  page_dir :: "(u32 \<times> nat) list"
  lookaside :: "(u32 \<times> u32) list"
  syscall_log :: bytes

definition mem_new :: mem where
  "mem_new =
     \<lparr>page_slots = [], page_dir = [],
      lookaside = replicate LOOKASIDE_SLOTS (NO_PAGE, NO_SLOT), syscall_log = []\<rparr>"

definition slot_of :: "mem \<Rightarrow> u32 \<Rightarrow> nat option \<times> mem" where
  "slot_of m page =
     (let idx = unat page mod LOOKASIDE_SLOTS;
          (tag, slot) = lookaside m ! idx
      in if tag = page then (if slot = NO_SLOT then None else Some (unat slot), m)
         else (case map_of (page_dir m) page of
                 None \<Rightarrow> (None, m)
               | Some slot \<Rightarrow>
                   (Some slot, m\<lparr>lookaside := (lookaside m)[idx := (page, of_nat slot)]\<rparr>)))"

definition slot_of_ro :: "mem \<Rightarrow> u32 \<Rightarrow> nat option" where
  "slot_of_ro m page =
     (let idx = unat page mod LOOKASIDE_SLOTS;
          (tag, slot) = lookaside m ! idx
      in if tag = page then (if slot = NO_SLOT then None else Some (unat slot))
         else map_of (page_dir m) page)"

definition slot_mut_or_alloc :: "mem \<Rightarrow> u32 \<Rightarrow> nat \<times> mem" where
  "slot_mut_or_alloc m page =
     (let idx = unat page mod LOOKASIDE_SLOTS;
          (tag, slot) = lookaside m ! idx
      in if tag = page \<and> slot \<noteq> NO_SLOT then (unat slot, m)
         else
           (let (slot, m) =
                  (case map_of (page_dir m) page of
                     Some s \<Rightarrow> (s, m)
                   | None \<Rightarrow>
                       (let s = length (page_slots m)
                        in (s, m\<lparr>page_slots := page_slots m @ [replicate PAGE_SIZE 0],
                                 page_dir := bt_insert page s (page_dir m)\<rparr>)))
            in (slot, m\<lparr>lookaside := (lookaside m)[idx := (page, of_nat slot)]\<rparr>)))"

text \<open>The byte loop of \<open>read\<close>: \<open>i\<close> counts up, the last argument is the number of bytes left.\<close>

fun read_loop :: "mem \<Rightarrow> u64 \<Rightarrow> nat \<Rightarrow> u64 \<Rightarrow> nat \<Rightarrow> u64 \<times> mem" where
  "read_loop m addr i val 0 = (val, m)"
| "read_loop m addr i val (Suc k) =
     (let a = addr + of_nat i;
          (slot, m) = slot_of m (ucast (a div of_nat PAGE_SIZE));
          b = (case slot of
                 Some s \<Rightarrow> page_slots m ! s ! unat (a mod of_nat PAGE_SIZE)
               | None \<Rightarrow> 0)
      in read_loop m addr (Suc i) (val OR push_bit (8 * i) (ucast b)) k)"

definition mem_read :: "mem \<Rightarrow> u64 \<Rightarrow> nat \<Rightarrow> (mem_error + u64) \<times> mem" where
  "mem_read m addr len =
     (if len \<noteq> 1 \<and> len \<noteq> 2 \<and> len \<noteq> 4 \<and> len \<noteq> 8 then (Inl OutOfRange, m)
      else (case checked_add_len addr len of
              None \<Rightarrow> (Inl OutOfRange, m)
            | Some end_addr \<Rightarrow>
                if end_addr > ADDR_SPACE then (Inl OutOfRange, m)
                else (let (val, m) = read_loop m addr 0 0 len in (Inr val, m))))"

fun write_loop :: "mem \<Rightarrow> u64 \<Rightarrow> nat \<Rightarrow> bytes \<Rightarrow> mem" where
  "write_loop m addr i [] = m"
| "write_loop m addr i (b # bs) =
     (let a = addr + of_nat i;
          (slot, m) = slot_mut_or_alloc m (ucast (a div of_nat PAGE_SIZE));
          m = m\<lparr>page_slots :=
                 (page_slots m)[slot := (page_slots m ! slot)[unat (a mod of_nat PAGE_SIZE) := b]]\<rparr>
      in write_loop m addr (Suc i) bs)"

definition mem_write :: "mem \<Rightarrow> u64 \<Rightarrow> bytes \<Rightarrow> (mem_error + unit) \<times> mem" where
  "mem_write m addr bs =
     (case checked_add_len addr (length bs) of
        None \<Rightarrow> (Inl OutOfRange, m)
      | Some end_addr \<Rightarrow>
          if end_addr > ADDR_SPACE then (Inl OutOfRange, m)
          else (Inr (), write_loop m addr 0 bs))"

definition load_image :: "mem \<Rightarrow> u64 \<Rightarrow> bytes \<Rightarrow> (mem_error + unit) \<times> mem" where
  "load_image m base bs = mem_write m base bs"

definition read_region :: "mem \<Rightarrow> u64 \<Rightarrow> nat \<Rightarrow> mem_error + bytes" where
  "read_region m addr len =
     (case checked_add_len addr len of
        None \<Rightarrow> Inl OutOfRange
      | Some end_addr \<Rightarrow>
          if end_addr > ADDR_SPACE then Inl OutOfRange
          else Inr (map (\<lambda>i. let a = addr + of_nat i
                             in (case slot_of_ro m (ucast (a div of_nat PAGE_SIZE)) of
                                   Some s \<Rightarrow> page_slots m ! s ! unat (a mod of_nat PAGE_SIZE)
                                 | None \<Rightarrow> 0))
                        [0..<len]))"

text \<open>
  \<open>blake3\<close> is a parameter: hashing a sequence of updates is hashing their concatenation.
\<close>

definition merkle_root :: "(bytes \<Rightarrow> digest) \<Rightarrow> mem \<Rightarrow> digest" where
  "merkle_root blake3 m =
     blake3 (concat (map (\<lambda>(idx, s). le_bytes 4 idx @ page_slots m ! s) (page_dir m)))"

definition allocated_pages :: "mem \<Rightarrow> nat" where
  "allocated_pages m = length (page_dir m)"

definition page_iter :: "mem \<Rightarrow> (u32 \<times> bytes) list" where
  "page_iter m = map (\<lambda>(i, s). (i, page_slots m ! s)) (page_dir m)"

definition insert_page :: "mem \<Rightarrow> u32 \<Rightarrow> bytes \<Rightarrow> mem" where
  "insert_page m idx page =
     (let m = (case map_of (page_dir m) idx of
                 Some s \<Rightarrow> m\<lparr>page_slots := (page_slots m)[s := page]\<rparr>
               | None \<Rightarrow>
                   (let s = length (page_slots m)
                    in m\<lparr>page_slots := page_slots m @ [page],
                         page_dir := bt_insert idx s (page_dir m)\<rparr>))
      in m\<lparr>lookaside := (lookaside m)[unat idx mod LOOKASIDE_SLOTS := (NO_PAGE, NO_SLOT)]\<rparr>)"


section \<open>Representation invariant\<close>

text \<open>
  \<open>mem_ok\<close>: the directory is key-ordered and maps pages to distinct, existing slots, one per
  slot; every page has 4096 bytes; every lookaside entry is empty or agrees with the directory.
  Page numbers at or above \<open>2^20\<close> lie outside the address space and only a snapshot can bring
  them in; fewer than \<open>2^31\<close> of them keeps every slot number below \<open>NO_SLOT\<close>.
\<close>

definition lookaside_ok :: "(u32 \<times> nat) list \<Rightarrow> nat \<Rightarrow> u32 \<times> u32 \<Rightarrow> bool" where
  "lookaside_ok dir idx e =
     (case e of (tag, slot) \<Rightarrow>
        (tag = NO_PAGE \<and> slot = NO_SLOT) \<or>
        (unat tag mod LOOKASIDE_SLOTS = idx \<and> slot \<noteq> NO_SLOT \<and> map_of dir tag = Some (unat slot)))"

definition high_pages :: "(u32 \<times> nat) list \<Rightarrow> nat" where
  "high_pages dir = length (filter (\<lambda>k. 2 ^ 20 \<le> unat k) (map fst dir))"

definition mem_ok :: "mem \<Rightarrow> bool" where
  "mem_ok m \<longleftrightarrow>
     bt_sorted (page_dir m) \<and>
     distinct (map snd (page_dir m)) \<and>
     (\<forall>s \<in> snd ` set (page_dir m). s < length (page_slots m)) \<and>
     length (page_slots m) = length (page_dir m) \<and>
     (\<forall>p \<in> set (page_slots m). length p = PAGE_SIZE) \<and>
     length (lookaside m) = LOOKASIDE_SLOTS \<and>
     (\<forall>idx < LOOKASIDE_SLOTS. lookaside_ok (page_dir m) idx (lookaside m ! idx)) \<and>
     high_pages (page_dir m) < 2 ^ 31"

text \<open>The abstract memory: the allocated pages by number.\<close>

type_synonym pmem = "u32 \<Rightarrow> bytes option"

definition pages :: "mem \<Rightarrow> pmem" where
  "pages m p = map_option (\<lambda>s. page_slots m ! s) (map_of (page_dir m) p)"

definition pbyte :: "pmem \<Rightarrow> u64 \<Rightarrow> u8" where
  "pbyte P a = (case P (ucast (a div 4096)) of None \<Rightarrow> 0 | Some p \<Rightarrow> p ! unat (a mod 4096))"

definition pwrite :: "pmem \<Rightarrow> u64 \<Rightarrow> u8 \<Rightarrow> pmem" where
  "pwrite P a b =
     P(ucast (a div 4096) \<mapsto>
         (case P (ucast (a div 4096)) of None \<Rightarrow> replicate 4096 0 | Some p \<Rightarrow> p)[unat (a mod 4096) := b])"

fun pwrites :: "pmem \<Rightarrow> u64 \<Rightarrow> bytes \<Rightarrow> pmem" where
  "pwrites P a [] = P"
| "pwrites P a (b # bs) = pwrites (pwrite P a b) (a + 1) bs"

fun preads :: "pmem \<Rightarrow> u64 \<Rightarrow> nat \<Rightarrow> bytes" where
  "preads P a 0 = []"
| "preads P a (Suc n) = pbyte P a # preads P (a + 1) n"

definition pmem_ok :: "pmem \<Rightarrow> bool" where
  "pmem_ok P \<longleftrightarrow> (\<forall>p \<in> ran P. length p = 4096)"

lemmas mem_consts = PAGE_SIZE_def LOOKASIDE_SLOTS_def

lemma ADDR_SPACE_unat [simp]: "unat ADDR_SPACE = 2 ^ 32"
  by (simp add: ADDR_SPACE_def)

lemma ADDR_SPACE_less_iff: "ADDR_SPACE < e \<longleftrightarrow> 2 ^ 32 < unat e"
  by (simp add: word_less_nat_alt)

lemma unat_NO_SLOT [simp]: "unat NO_SLOT = 2 ^ 32 - 1"
  by (simp add: NO_SLOT_def unsigned_minus_1_eq_mask mask_eq_exp_minus_1)

lemma unat_NO_PAGE [simp]: "unat NO_PAGE = 2 ^ 32 - 1"
  by (simp add: NO_PAGE_def unsigned_minus_1_eq_mask mask_eq_exp_minus_1)

subsection \<open>Addresses below the space bound\<close>

lemma unat_page_no:
  fixes a :: u64
  assumes "unat a < 2 ^ 32"
  shows "unat (ucast (a div 4096) :: u32) = unat a div 4096"
proof -
  have "unat (a div 4096) = unat a div 4096" by (simp add: unat_div)
  moreover have "unat a div 4096 < 2 ^ 32" using assms by simp
  ultimately show ?thesis by (simp add: unsigned_ucast_eq take_bit_nat_eq_self)
qed

lemma page_no_low:
  fixes a :: u64
  assumes "unat a < 2 ^ 32"
  shows "unat (ucast (a div 4096) :: u32) < 2 ^ 20"
  using assms by (simp add: unat_page_no)

lemma page_no_neq_NO_PAGE:
  fixes a :: u64
  assumes "unat a < 2 ^ 32"
  shows "(ucast (a div 4096) :: u32) \<noteq> NO_PAGE"
  using page_no_low [OF assms] by (intro notI) simp

lemma unat_offset: "unat ((a :: u64) mod 4096) = unat a mod 4096"
  by (simp add: unat_mod)

lemma unat_offset_less [simp]: "unat ((a :: u64) mod 4096) < 4096"
  by (simp add: unat_offset)

lemma page_offset_inject:
  fixes a b :: u64
  assumes "unat a < 2 ^ 32" and "unat b < 2 ^ 32"
    and "(ucast (a div 4096) :: u32) = ucast (b div 4096)"
    and "unat (a mod 4096) = unat (b mod 4096)"
  shows "a = b"
proof -
  have "unat a div 4096 = unat b div 4096"
    using assms(1-3) by (metis unat_page_no)
  moreover have "unat a mod 4096 = unat b mod 4096" using assms(4) by (simp add: unat_offset)
  ultimately have "unat a = unat b" by (metis div_mult_mod_eq)
  then show ?thesis by (rule unsigned_word_eqI)
qed

subsection \<open>Slot numbers fit the lookaside\<close>

lemma mem_okD:
  assumes "mem_ok m"
  shows "bt_sorted (page_dir m)" and "distinct (map snd (page_dir m))"
    and "s \<in> snd ` set (page_dir m) \<Longrightarrow> s < length (page_slots m)"
    and "length (page_slots m) = length (page_dir m)"
    and "p \<in> set (page_slots m) \<Longrightarrow> length p = PAGE_SIZE"
    and "length (lookaside m) = LOOKASIDE_SLOTS"
    and "idx < LOOKASIDE_SLOTS \<Longrightarrow> lookaside_ok (page_dir m) idx (lookaside m ! idx)"
    and "high_pages (page_dir m) < 2 ^ 31"
  using assms by (auto simp: mem_ok_def)

lemma mem_ok_slotD: "mem_ok m \<Longrightarrow> map_of (page_dir m) p = Some s \<Longrightarrow> s < length (page_slots m)"
  by (rule mem_okD(3)) (auto dest: map_of_SomeD intro: rev_image_eqI)

lemma mem_ok_page_length:
  "mem_ok m \<Longrightarrow> map_of (page_dir m) p = Some s \<Longrightarrow> length (page_slots m ! s) = PAGE_SIZE"
  by (rule mem_okD(5)) (auto dest: mem_ok_slotD)

lemma mem_ok_slot_inject:
  assumes "mem_ok m" and "map_of (page_dir m) p = Some s" and "map_of (page_dir m) q = Some s"
  shows "p = q"
proof -
  have "(p, s) \<in> set (page_dir m)" "(q, s) \<in> set (page_dir m)"
    using assms(2,3) by (auto dest: map_of_SomeD)
  then show ?thesis using mem_okD(2) [OF assms(1)]
    by (force simp: distinct_map inj_on_def)
qed

lemma low_keys_card:
  fixes dir :: "(u32 \<times> nat) list"
  assumes "bt_sorted dir"
  shows "length (filter (\<lambda>k. unat k < 2 ^ 20) (map fst dir)) \<le> 2 ^ 20"
proof -
  let ?ks = "filter (\<lambda>k. unat k < 2 ^ 20) (map fst dir)"
  have "distinct (map unat ?ks)"
    using bt_sorted_distinct [OF assms] by (auto simp: distinct_map inj_on_def word_unat_eq_iff)
  then have "length ?ks = card (set (map unat ?ks))" by (metis distinct_card length_map)
  also have "\<dots> \<le> card {..<(2 ^ 20 :: nat)}" by (rule card_mono) auto
  finally show ?thesis by simp
qed

lemma length_dir_bound:
  assumes "bt_sorted dir"
  shows "length dir \<le> 2 ^ 20 + high_pages dir"
proof -
  have "length dir = length (map fst dir)" by simp
  also have "\<dots> = length (filter (\<lambda>k. unat k < 2 ^ 20) (map fst dir)) + high_pages dir"
    unfolding high_pages_def
    using sum_length_filter_compl [of "\<lambda>k. unat k < 2 ^ 20" "map fst dir"] by (simp add: not_less)
  finally show ?thesis using low_keys_card [OF assms] by simp
qed

lemma mem_ok_length: "mem_ok m \<Longrightarrow> length (page_slots m) < 2 ^ 31 + 2 ^ 20"
  using length_dir_bound [of "page_dir m"] by (simp add: mem_ok_def)

lemma mem_ok_slot_u32:
  assumes "mem_ok m" and "s \<le> length (page_slots m)"
  shows "unat (of_nat s :: u32) = s" and "(of_nat s :: u32) \<noteq> NO_SLOT"
proof -
  have s: "s < 2 ^ 32 - 1" using mem_ok_length [OF assms(1)] assms(2) by simp
  then show u: "unat (of_nat s :: u32) = s" by (simp add: unat_of_nat)
  show "(of_nat s :: u32) \<noteq> NO_SLOT"
  proof
    assume "(of_nat s :: u32) = NO_SLOT"
    then have "unat (of_nat s :: u32) = 2 ^ 32 - 1" by simp
    with u s show False by simp
  qed
qed

lemma map_fst_bt_insert:
  "map fst (bt_insert k v m) = map fst (bt_insert k () (map (\<lambda>(k, _). (k, ())) m))"
  by (induction k v m rule: bt_insert.induct) auto

lemma high_pages_insert:
  "high_pages (bt_insert k v dir) \<le> Suc (high_pages dir)"
  unfolding high_pages_def by (induction k v dir rule: bt_insert.induct) auto

lemma high_pages_insert_low:
  "unat k < 2 ^ 20 \<Longrightarrow> high_pages (bt_insert k v dir) = high_pages dir"
  unfolding high_pages_def by (induction k v dir rule: bt_insert.induct) auto

lemma snd_bt_insert_new:
  "k \<notin> fst ` set m \<Longrightarrow> snd ` set (bt_insert k v m) = insert v (snd ` set m)"
  by (induction k v m rule: bt_insert.induct) auto

lemma distinct_snd_bt_insert:
  "k \<notin> fst ` set m \<Longrightarrow> v \<notin> snd ` set m \<Longrightarrow> distinct (map snd m) \<Longrightarrow>
     distinct (map snd (bt_insert k v m))"
proof (induction k v m rule: bt_insert.induct)
  case (2 k v k' v' m)
  then have "snd ` set (bt_insert k v m) = insert v (snd ` set m)"
    by (intro snd_bt_insert_new) auto
  then show ?case using 2 by auto
qed simp

subsection \<open>Every operation keeps the invariant\<close>

lemma lookaside_ok_empty [simp]: "lookaside_ok dir idx (NO_PAGE, NO_SLOT)"
  by (simp add: lookaside_ok_def)

lemma mem_ok_new: "mem_ok mem_new"
  by (simp add: mem_ok_def mem_new_def high_pages_def)

lemma lookaside_ok_lookup:
  assumes "mem_ok m" and "page \<noteq> NO_PAGE"
    and "lookaside m ! (unat page mod LOOKASIDE_SLOTS) = (page, slot)"
  shows "slot \<noteq> NO_SLOT" and "map_of (page_dir m) page = Some (unat slot)"
proof -
  have "lookaside_ok (page_dir m) (unat page mod LOOKASIDE_SLOTS) (page, slot)"
    using mem_okD(7) [OF assms(1), of "unat page mod LOOKASIDE_SLOTS"] assms(3)
    by (simp add: mem_consts)
  then show "slot \<noteq> NO_SLOT" and "map_of (page_dir m) page = Some (unat slot)"
    using assms(2) by (auto simp: lookaside_ok_def)
qed

lemma mem_ok_lookaside_update:
  assumes "mem_ok m" and "lookaside_ok (page_dir m) idx e"
  shows "mem_ok (m\<lparr>lookaside := (lookaside m)[idx := e]\<rparr>)"
  using assms by (auto simp: mem_ok_def nth_list_update_if)

lemma lookaside_fill_ok:
  assumes "mem_ok m" and "map_of (page_dir m) page = Some s"
  shows "lookaside_ok (page_dir m) (unat page mod LOOKASIDE_SLOTS) (page, of_nat s)"
proof -
  have "s \<le> length (page_slots m)" using mem_ok_slotD [OF assms] by simp
  from mem_ok_slot_u32 [OF assms(1) this] assms(2) show ?thesis
    by (simp add: lookaside_ok_def)
qed

lemma slot_of_correct:
  assumes "mem_ok m" and "page \<noteq> NO_PAGE" and "slot_of m page = (so, m')"
  shows "so = map_of (page_dir m) page" and "mem_ok m'"
    and "page_slots m' = page_slots m" and "page_dir m' = page_dir m"
    and "syscall_log m' = syscall_log m"
proof -
  obtain tag slot where e: "lookaside m ! (unat page mod LOOKASIDE_SLOTS) = (tag, slot)"
    by (cases "lookaside m ! (unat page mod LOOKASIDE_SLOTS)")
  have hit: "tag = page \<Longrightarrow> slot \<noteq> NO_SLOT \<and> map_of (page_dir m) page = Some (unat slot)"
    using lookaside_ok_lookup [OF assms(1,2)] e by auto
  have fill: "map_of (page_dir m) page = Some s \<Longrightarrow>
      mem_ok (m\<lparr>lookaside := (lookaside m)[unat page mod LOOKASIDE_SLOTS := (page, of_nat s)]\<rparr>)" for s
    by (intro mem_ok_lookaside_update assms(1) lookaside_fill_ok)
  show "so = map_of (page_dir m) page" and "mem_ok m'" and "page_slots m' = page_slots m"
    and "page_dir m' = page_dir m" and "syscall_log m' = syscall_log m"
    using assms(1,3) hit fill
    by (auto simp: slot_of_def e Let_def split: if_splits option.splits)
qed

lemma slot_of_ro_correct:
  assumes "mem_ok m" and "page \<noteq> NO_PAGE"
  shows "slot_of_ro m page = map_of (page_dir m) page"
  using lookaside_ok_lookup [OF assms]
  by (auto simp: slot_of_ro_def Let_def split: prod.split)

lemma lookaside_ok_insert_new:
  assumes "lookaside_ok dir idx e" and "bt_sorted dir" and "map_of dir page = None"
  shows "lookaside_ok (bt_insert page s dir) idx e"
  using assms by (auto simp: lookaside_ok_def split: prod.splits)

lemma mem_ok_alloc:
  assumes "mem_ok m" and "map_of (page_dir m) page = None" and "length p = PAGE_SIZE"
    and "high_pages (bt_insert page (length (page_slots m)) (page_dir m)) < 2 ^ 31"
  shows "mem_ok (m\<lparr>page_slots := page_slots m @ [p],
                   page_dir := bt_insert page (length (page_slots m)) (page_dir m)\<rparr>)"
proof -
  have new: "page \<notin> fst ` set (page_dir m)"
    using assms(2) by (metis dom_map_of_conv_image_fst domIff)
  have "length (page_slots m) \<notin> snd ` set (page_dir m)"
    using mem_okD(3) [OF assms(1)] by blast
  then show ?thesis
    using assms new mem_okD [OF assms(1)]
    by (auto simp: mem_ok_def snd_bt_insert_new length_bt_insert_new less_Suc_eq
        intro!: distinct_snd_bt_insert lookaside_ok_insert_new)
qed

lemma mem_ok_page_update:
  assumes "mem_ok m" and "length p = PAGE_SIZE"
  shows "mem_ok (m\<lparr>page_slots := (page_slots m)[s := p]\<rparr>)"
  using assms by (auto simp: mem_ok_def dest!: set_update_subset_insert [THEN subsetD])

text \<open>Allocation on a write: the slot of the page, after an empty page was added if there was none.\<close>

definition page_or_zero :: "pmem \<Rightarrow> u32 \<Rightarrow> bytes" where
  "page_or_zero P page = (case P page of None \<Rightarrow> replicate 4096 0 | Some p \<Rightarrow> p)"

lemma pages_alloc:
  assumes "mem_ok m" and "map_of (page_dir m) page = None"
  shows "pages (m\<lparr>page_slots := page_slots m @ [p],
                  page_dir := bt_insert page (length (page_slots m)) (page_dir m)\<rparr>)
         = (pages m)(page \<mapsto> p)"
proof
  fix q
  show "pages (m\<lparr>page_slots := page_slots m @ [p],
                 page_dir := bt_insert page (length (page_slots m)) (page_dir m)\<rparr>) q
        = ((pages m)(page \<mapsto> p)) q"
    using assms(2) mem_okD(1) [OF assms(1)] mem_ok_slotD [OF assms(1)]
    by (cases "map_of (page_dir m) q") (auto simp: pages_def nth_append)
qed

lemma pages_page_update:
  assumes "mem_ok m" and "map_of (page_dir m) page = Some s"
  shows "pages (m\<lparr>page_slots := (page_slots m)[s := p]\<rparr>) = (pages m)(page \<mapsto> p)"
proof
  fix q
  show "pages (m\<lparr>page_slots := (page_slots m)[s := p]\<rparr>) q = ((pages m)(page \<mapsto> p)) q"
  proof (cases "map_of (page_dir m) q")
    case None
    then show ?thesis using assms(2) by (auto simp: pages_def)
  next
    case (Some t)
    show ?thesis
    proof (cases "q = page")
      case True
      then show ?thesis using assms mem_ok_slotD [OF assms] by (simp add: pages_def)
    next
      case False
      then have "t \<noteq> s" using mem_ok_slot_inject [OF assms(1)] assms(2) Some by blast
      then show ?thesis using Some False by (simp add: pages_def)
    qed
  qed
qed

lemma pages_lookaside [simp]: "pages (m\<lparr>lookaside := l\<rparr>) = pages m"
  by (simp add: pages_def fun_eq_iff)

lemma slot_mut_or_alloc_correct:
  assumes ok: "mem_ok m" and low: "unat page < 2 ^ 20" and eq: "slot_mut_or_alloc m page = (s, m')"
  shows "mem_ok m'" and "map_of (page_dir m') page = Some s"
    and "pages m' = (pages m)(page \<mapsto> page_or_zero (pages m) page)"
    and "page_slots m' ! s = page_or_zero (pages m) page"
    and "syscall_log m' = syscall_log m"
proof -
  have np: "page \<noteq> NO_PAGE" using low by (intro notI) simp
  obtain tag slot where e: "lookaside m ! (unat page mod LOOKASIDE_SLOTS) = (tag, slot)"
    by (cases "lookaside m ! (unat page mod LOOKASIDE_SLOTS)")
  have hit: "tag = page \<Longrightarrow> slot \<noteq> NO_SLOT \<and> map_of (page_dir m) page = Some (unat slot)"
    using lookaside_ok_lookup [OF ok np] e by auto
  let ?idx = "unat page mod LOOKASIDE_SLOTS"
  let ?m1 = "m\<lparr>page_slots := page_slots m @ [replicate PAGE_SIZE 0],
               page_dir := bt_insert page (length (page_slots m)) (page_dir m)\<rparr>"
  have "mem_ok m' \<and> map_of (page_dir m') page = Some s \<and>
        pages m' = (pages m)(page \<mapsto> page_or_zero (pages m) page) \<and>
        page_slots m' ! s = page_or_zero (pages m) page \<and> syscall_log m' = syscall_log m"
  proof (cases "map_of (page_dir m) page")
    case (Some t)
    then have z: "page_or_zero (pages m) page = page_slots m ! t"
      by (simp add: page_or_zero_def pages_def)
    have u: "(pages m)(page \<mapsto> page_slots m ! t) = pages m"
      using Some by (auto simp: pages_def)
    have st: "s = t" "m' = m \<or> m' = m\<lparr>lookaside := (lookaside m)[?idx := (page, of_nat t)]\<rparr>"
      using eq e hit Some by (auto simp: slot_mut_or_alloc_def Let_def split: if_splits)
    moreover have "mem_ok (m\<lparr>lookaside := (lookaside m)[?idx := (page, of_nat t)]\<rparr>)"
      by (intro mem_ok_lookaside_update ok lookaside_fill_ok Some)
    ultimately show ?thesis using ok Some z u by auto
  next
    case None
    then have z: "page_or_zero (pages m) page = replicate PAGE_SIZE 0"
      by (simp add: page_or_zero_def pages_def mem_consts)
    have ok1: "mem_ok ?m1"
      using None low mem_okD(8) [OF ok]
      by (intro mem_ok_alloc ok) (simp_all add: high_pages_insert_low)
    have d1: "map_of (page_dir ?m1) page = Some (length (page_slots m))"
      using mem_okD(1) [OF ok] by simp
    have "s = length (page_slots m)"
      and "m' = ?m1\<lparr>lookaside := (lookaside ?m1)[?idx := (page, of_nat s)]\<rparr>"
      using eq e hit None by (auto simp: slot_mut_or_alloc_def Let_def split: if_splits)
    moreover have "mem_ok (?m1\<lparr>lookaside := (lookaside ?m1)[?idx := (page, of_nat (length (page_slots m)))]\<rparr>)"
      by (intro mem_ok_lookaside_update ok1 lookaside_fill_ok d1)
    ultimately show ?thesis
      using d1 pages_alloc [OF ok None, of "replicate PAGE_SIZE 0"] z by simp
  qed
  then show "mem_ok m'" and "map_of (page_dir m') page = Some s"
    and "pages m' = (pages m)(page \<mapsto> page_or_zero (pages m) page)"
    and "page_slots m' ! s = page_or_zero (pages m) page"
    and "syscall_log m' = syscall_log m" by auto
qed

section \<open>Refinement of the abstract memory\<close>

lemma pwrite_page_or_zero:
  "pwrite P a b = P(ucast (a div 4096) \<mapsto> (page_or_zero P (ucast (a div 4096)))[unat (a mod 4096) := b])"
  by (simp add: pwrite_def page_or_zero_def)

lemma pmem_ok_page_or_zero: "pmem_ok P \<Longrightarrow> length (page_or_zero P p) = 4096"
  by (auto simp: page_or_zero_def pmem_ok_def ran_def split: option.splits)

lemma pmem_ok_pwrite [simp]: "pmem_ok P \<Longrightarrow> pmem_ok (pwrite P a b)"
  using pmem_ok_page_or_zero [of P "ucast (a div 4096)"]
  by (auto simp: pwrite_page_or_zero pmem_ok_def ran_def)

lemma pmem_ok_pwrites [simp]: "pmem_ok P \<Longrightarrow> pmem_ok (pwrites P a bs)"
  by (induction P a bs rule: pwrites.induct) auto

lemma pmem_ok_pages: "mem_ok m \<Longrightarrow> pmem_ok (pages m)"
  by (auto simp: pmem_ok_def ran_def pages_def mem_ok_page_length mem_consts)

lemma pbyte_pwrite:
  assumes "pmem_ok P" and "unat a < 2 ^ 32" and "unat c < 2 ^ 32"
  shows "pbyte (pwrite P a b) c = (if c = a then b else pbyte P c)"
proof (cases "(ucast (c div 4096) :: u32) = ucast (a div 4096)")
  case False
  then show ?thesis by (auto simp: pbyte_def pwrite_def)
next
  case True
  have len: "length (page_or_zero P (ucast (a div 4096))) = 4096"
    using assms(1) by (rule pmem_ok_page_or_zero)
  have "pbyte P c = page_or_zero P (ucast (a div 4096)) ! unat (c mod 4096)"
    using True by (simp add: pbyte_def page_or_zero_def split: option.split)
  moreover have "unat (a mod 4096) = unat (c mod 4096) \<longleftrightarrow> c = a"
    using page_offset_inject [OF assms(3,2) True] by auto
  ultimately show ?thesis
    using True len by (simp add: pbyte_def pwrite_page_or_zero nth_list_update_if)
qed

lemma unat_Suc_addr:
  fixes a :: u64
  shows "unat a + Suc n \<le> 2 ^ 32 \<Longrightarrow> unat (a + 1) = unat a + 1"
  by (subst unat_add_u64) simp_all

lemma pbyte_pwrites_outside:
  assumes "pmem_ok P" and "unat a + length bs \<le> 2 ^ 32" and "unat c < 2 ^ 32"
    and "unat c < unat a \<or> unat a + length bs \<le> unat c"
  shows "pbyte (pwrites P a bs) c = pbyte P c"
  using assms
proof (induction P a bs rule: pwrites.induct)
  case (2 P a b bs)
  have u: "unat (a + 1) = unat a + 1" using "2.prems"(2) by (intro unat_Suc_addr [of _ "length bs"]) simp
  have "c \<noteq> a" using "2.prems"(4) by auto
  then show ?case using 2 u by (auto simp: pbyte_pwrite)
qed simp

lemma pbyte_pwrites_inside:
  assumes "pmem_ok P" and "unat a + length bs \<le> 2 ^ 32" and "i < length bs"
  shows "pbyte (pwrites P a bs) (a + of_nat i) = bs ! i"
  using assms
proof (induction P a bs arbitrary: i rule: pwrites.induct)
  case (2 P a b bs)
  have u: "unat (a + 1) = unat a + 1" using "2.prems"(2) by (intro unat_Suc_addr [of _ "length bs"]) simp
  show ?case
  proof (cases i)
    case 0
    have "pbyte (pwrites (pwrite P a b) (a + 1) bs) a = pbyte (pwrite P a b) a"
      using "2.prems" u by (intro pbyte_pwrites_outside) auto
    then show ?thesis using 0 "2.prems" by (simp add: pbyte_pwrite)
  next
    case (Suc j)
    have "a + of_nat i = (a + 1) + of_nat j" using Suc by simp
    then show ?thesis using Suc "2.prems" u "2.IH" [of j] by (simp add: add.assoc)
  qed
qed simp

lemma length_preads [simp]: "length (preads P a n) = n"
  by (induction P a n rule: preads.induct) auto

lemma nth_preads: "i < n \<Longrightarrow> preads P a n ! i = pbyte P (a + of_nat i)"
proof (induction P a n arbitrary: i rule: preads.induct)
  case (2 P a n)
  then show ?case by (cases i) (simp_all add: add.assoc)
qed simp

lemma preads_map: "preads P a n = map (\<lambda>i. pbyte P (a + of_nat i)) [0..<n]"
  by (rule nth_equalityI) (simp_all add: nth_preads)

lemma preads_pwrites:
  assumes "pmem_ok P" and "unat a + length bs \<le> 2 ^ 32"
  shows "preads (pwrites P a bs) a (length bs) = bs"
  by (rule nth_equalityI) (simp_all add: nth_preads pbyte_pwrites_inside [OF assms])

lemma preads_pwrites_frame:
  assumes "pmem_ok P" and "unat a + length bs \<le> 2 ^ 32" and "unat c + n \<le> 2 ^ 32"
    and "unat c + n \<le> unat a \<or> unat a + length bs \<le> unat c"
  shows "preads (pwrites P a bs) c n = preads P c n"
proof (rule nth_equalityI)
  fix i assume "i < length (preads (pwrites P a bs) c n)"
  then have i: "i < n" by simp
  have u: "unat (c + of_nat i) = unat c + i" using assms(3) i by (intro unat_add_of_nat) simp
  have "pbyte (pwrites P a bs) (c + of_nat i) = pbyte P (c + of_nat i)"
    using assms i u by (intro pbyte_pwrites_outside) auto
  then show "preads (pwrites P a bs) c n ! i = preads P c n ! i"
    using i by (simp add: nth_preads)
qed simp

subsection \<open>The byte loops\<close>

lemma from_le_push_Cons:
  "push_bit (8 * i) (from_le (b # bs) :: u64) =
     push_bit (8 * i) (ucast b) OR push_bit (8 * Suc i) (from_le bs)"
  by (simp add: push_bit_or push_bit_push_bit add.commute)

lemma addr_step_bound:
  fixes addr :: u64
  assumes "unat addr + (i + Suc k) \<le> 2 ^ 32"
  shows "unat (addr + of_nat i) < 2 ^ 32"
  using assms by (subst unat_add_of_nat) simp_all

lemma read_loop_correct:
  assumes "mem_ok m" and "unat addr + (i + k) \<le> 2 ^ 32"
    and "read_loop m addr i val k = (v, m')"
  shows "v = (val OR push_bit (8 * i) (from_le (preads (pages m) (addr + of_nat i) k))) \<and>
         mem_ok m' \<and> page_slots m' = page_slots m \<and> page_dir m' = page_dir m \<and>
         syscall_log m' = syscall_log m"
  using assms
proof (induction k arbitrary: m i val)
  case 0
  then show ?case by auto
next
  case (Suc k)
  let ?a = "addr + of_nat i" and ?p = "ucast ((addr + of_nat i) div of_nat PAGE_SIZE) :: u32"
  have a: "unat ?a < 2 ^ 32" using Suc.prems(2) by (rule addr_step_bound)
  have np: "?p \<noteq> NO_PAGE" using page_no_neq_NO_PAGE [OF a] by (simp add: mem_consts)
  obtain so m1 where s: "slot_of m ?p = (so, m1)" by (cases "slot_of m ?p")
  note c = slot_of_correct [OF Suc.prems(1) np s]
  define b where
    "b = (case so of Some s \<Rightarrow> page_slots m1 ! s ! unat (?a mod of_nat PAGE_SIZE) | None \<Rightarrow> 0)"
  have b: "b = pbyte (pages m) ?a"
    using c by (auto simp: b_def pbyte_def pages_def mem_consts split: option.split)
  have r: "read_loop m1 addr (Suc i) (val OR push_bit (8 * i) (ucast b)) k = (v, m')"
    using Suc.prems(3) s by (simp add: b_def Let_def)
  have pg: "pages m1 = pages m" using c by (simp add: pages_def fun_eq_iff)
  have n: "addr + of_nat (Suc i) = ?a + 1" by simp
  have "v = ((val OR push_bit (8 * i) (ucast b)) OR
             push_bit (8 * Suc i) (from_le (preads (pages m) (?a + 1) k))) \<and>
         mem_ok m' \<and> page_slots m' = page_slots m1 \<and> page_dir m' = page_dir m1 \<and>
         syscall_log m' = syscall_log m1"
    using Suc.IH [OF c(2) _ r] Suc.prems(2) unfolding pg n by simp
  then show ?case
    using c b by (simp only: preads.simps from_le_push_Cons) (simp add: or.assoc)
qed

lemma write_loop_correct:
  assumes "mem_ok m" and "unat addr + (i + length bs) \<le> 2 ^ 32"
  shows "mem_ok (write_loop m addr i bs) \<and>
         pages (write_loop m addr i bs) = pwrites (pages m) (addr + of_nat i) bs \<and>
         syscall_log (write_loop m addr i bs) = syscall_log m"
  using assms
proof (induction bs arbitrary: m i)
  case Nil
  then show ?case by simp
next
  case (Cons b bs)
  let ?a = "addr + of_nat i" and ?p = "ucast ((addr + of_nat i) div of_nat PAGE_SIZE) :: u32"
  have a: "unat ?a < 2 ^ 32" using Cons.prems(2) by (intro addr_step_bound) simp
  have low: "unat ?p < 2 ^ 20" using page_no_low [OF a] by (simp add: mem_consts)
  obtain s m1 where s: "slot_mut_or_alloc m ?p = (s, m1)" by (cases "slot_mut_or_alloc m ?p")
  note c = slot_mut_or_alloc_correct [OF Cons.prems(1) low s]
  let ?pg = "(page_slots m1 ! s)[unat (?a mod of_nat PAGE_SIZE) := b]"
  let ?m2 = "m1\<lparr>page_slots := (page_slots m1)[s := ?pg]\<rparr>"
  have ok2: "mem_ok ?m2"
    using c(1,2) by (intro mem_ok_page_update) (simp_all add: mem_ok_page_length)
  have pg2: "pages ?m2 = pwrite (pages m) ?a b"
    using pages_page_update [OF c(1,2), of ?pg] c(3,4)
    by (simp add: pwrite_page_or_zero mem_consts)
  have n: "addr + of_nat (Suc i) = ?a + 1" by simp
  have "write_loop m addr i (b # bs) = write_loop ?m2 addr (Suc i) bs"
    using s by (simp add: Let_def)
  then show ?case
    using Cons.IH [OF ok2, of "Suc i"] Cons.prems(2) c(5) unfolding pg2 n by simp
qed

declare read_loop.simps [simp del] write_loop.simps [simp del]

subsection \<open>The interface of the memory\<close>

text \<open>
  What the interpreter relies on: an invariant, an abstract view, and that reading and writing
  are determined by the view and keep the invariant.
\<close>

locale paged_memory =
  fixes ok :: "'m \<Rightarrow> bool"
    and view :: "'m \<Rightarrow> pmem"
    and log :: "'m \<Rightarrow> bytes"
    and rd :: "'m \<Rightarrow> u64 \<Rightarrow> nat \<Rightarrow> (mem_error + u64) \<times> 'm"
    and wr :: "'m \<Rightarrow> u64 \<Rightarrow> bytes \<Rightarrow> (mem_error + unit) \<times> 'm"
    and region :: "'m \<Rightarrow> u64 \<Rightarrow> nat \<Rightarrow> mem_error + bytes"
  assumes view_ok: "ok m \<Longrightarrow> pmem_ok (view m)"
    and rd_result: "ok m \<Longrightarrow>
      fst (rd m a n) =
        (if n \<in> {1, 2, 4, 8} \<and> unat a + n \<le> 2 ^ 32 then Inr (from_le (preads (view m) a n))
         else Inl OutOfRange)"
    and rd_state: "ok m \<Longrightarrow>
      ok (snd (rd m a n)) \<and> view (snd (rd m a n)) = view m \<and> log (snd (rd m a n)) = log m"
    and wr_result: "ok m \<Longrightarrow>
      fst (wr m a bs) = (if unat a + length bs \<le> 2 ^ 32 then Inr () else Inl OutOfRange)"
    and wr_state: "ok m \<Longrightarrow>
      ok (snd (wr m a bs)) \<and> log (snd (wr m a bs)) = log m \<and>
      view (snd (wr m a bs)) = (if unat a + length bs \<le> 2 ^ 32 then pwrites (view m) a bs else view m)"
    and region_result: "ok m \<Longrightarrow>
      region m a n = (if unat a + n \<le> 2 ^ 32 then Inr (preads (view m) a n) else Inl OutOfRange)"
begin

text \<open>Two memories with the same contents and log are interchangeable for every client.\<close>

definition same :: "'m \<Rightarrow> 'm \<Rightarrow> bool" where
  "same m1 m2 \<longleftrightarrow> ok m1 \<and> ok m2 \<and> view m1 = view m2 \<and> log m1 = log m2"

lemma rd_same:
  "same m1 m2 \<Longrightarrow> fst (rd m1 a n) = fst (rd m2 a n) \<and> same (snd (rd m1 a n)) (snd (rd m2 a n))"
  by (simp add: same_def rd_result rd_state)

lemma wr_same:
  "same m1 m2 \<Longrightarrow> fst (wr m1 a bs) = fst (wr m2 a bs) \<and> same (snd (wr m1 a bs)) (snd (wr m2 a bs))"
  by (simp add: same_def wr_result wr_state)

lemma region_same: "same m1 m2 \<Longrightarrow> region m1 a n = region m2 a n"
  by (simp add: same_def region_result)

lemma read_after_write:
  assumes "ok m" and "fst (wr m a bs) = Inr ()"
  shows "region (snd (wr m a bs)) a (length bs) = Inr bs"
proof -
  have "unat a + length bs \<le> 2 ^ 32"
    using assms by (simp add: wr_result split: if_splits)
  then show ?thesis
    using assms(1) by (simp add: region_result wr_state preads_pwrites view_ok)
qed

lemma read_word_after_write:
  assumes "ok m" and "fst (wr m a bs) = Inr ()" and "length bs \<in> {1, 2, 4, 8}"
  shows "fst (rd (snd (wr m a bs)) a (length bs)) = Inr (from_le bs)"
proof -
  have "unat a + length bs \<le> 2 ^ 32"
    using assms by (simp add: wr_result split: if_splits)
  then show ?thesis
    using assms(1,3) by (simp add: rd_result wr_state preads_pwrites view_ok)
qed

lemma write_frame:
  assumes "ok m" and "unat c + n \<le> unat a \<or> unat a + length bs \<le> unat c"
  shows "region (snd (wr m a bs)) c n = region m c n"
  using assms by (auto simp: region_result wr_state preads_pwrites_frame view_ok)

end

lemma checked_add_len_le:
  "(case checked_add_len a n of None \<Rightarrow> x | Some e \<Rightarrow> if ADDR_SPACE < e then x else y) =
     (if unat a + n \<le> 2 ^ 32 then y else x)"
  by (auto simp: checked_add_len_def ADDR_SPACE_less_iff unat_add_of_nat)

lemma mem_read_unfold:
  "mem_read m a n =
     (if n \<in> {1, 2, 4, 8} \<and> unat a + n \<le> 2 ^ 32
      then (Inr (fst (read_loop m a 0 0 n)), snd (read_loop m a 0 0 n)) else (Inl OutOfRange, m))"
  by (simp add: mem_read_def checked_add_len_le case_prod_unfold Let_def)

lemma read_loop_fst_snd:
  assumes "mem_ok m" and "unat a + n \<le> 2 ^ 32"
  shows "fst (read_loop m a 0 0 n) = from_le (preads (pages m) a n)"
    and "mem_ok (snd (read_loop m a 0 0 n))"
    and "pages (snd (read_loop m a 0 0 n)) = pages m"
    and "syscall_log (snd (read_loop m a 0 0 n)) = syscall_log m"
  using read_loop_correct [OF assms(1) _ surjective_pairing, of a 0 n 0] assms(2)
  by (simp_all add: pages_def fun_eq_iff)

interpretation rv_mem: paged_memory mem_ok pages syscall_log mem_read mem_write read_region
proof (unfold_locales, goal_cases)
  case (1 m)
  then show ?case by (rule pmem_ok_pages)
next
  case (2 m a n)
  then show ?case by (simp add: mem_read_unfold read_loop_fst_snd)
next
  case (3 m a n)
  then show ?case by (simp add: mem_read_unfold read_loop_fst_snd)
next
  case (4 m a bs)
  then show ?case by (auto simp: mem_write_def checked_add_len_le)
next
  case (5 m a bs)
  then show ?case using write_loop_correct [of m a 0 bs]
    by (auto simp: mem_write_def checked_add_len_le)
next
  case (6 m a n)
  have "unat a + n \<le> 2 ^ 32 \<Longrightarrow> i < n \<Longrightarrow>
    (case slot_of_ro m (ucast ((a + of_nat i) div of_nat PAGE_SIZE)) of
       Some s \<Rightarrow> page_slots m ! s ! unat ((a + of_nat i) mod of_nat PAGE_SIZE) | None \<Rightarrow> 0)
     = pbyte (pages m) (a + of_nat i)" for i
    using page_no_neq_NO_PAGE [of "a + of_nat i"]
    by (simp add: mem_consts unat_add_of_nat slot_of_ro_correct [OF 6] pbyte_def pages_def
        split: option.split)
  then show ?case
    by (auto simp: read_region_def checked_add_len_le preads_map Let_def)
qed

section \<open>Snapshots, canonical order and the memory root\<close>

lemma map_of_page_iter: "map_of (page_iter m) = pages m"
  by (simp add: page_iter_def pages_def fun_eq_iff map_of_map)

lemma bt_sorted_page_iter: "mem_ok m \<Longrightarrow> bt_sorted (page_iter m)"
  using mem_okD(1) [of m] by (simp add: page_iter_def)

lemma page_iter_eq_iff:
  assumes "mem_ok m1" and "mem_ok m2"
  shows "page_iter m1 = page_iter m2 \<longleftrightarrow> pages m1 = pages m2"
  using bt_sorted_unique [OF bt_sorted_page_iter [OF assms(1)] bt_sorted_page_iter [OF assms(2)]]
  by (metis map_of_page_iter)

lemma page_iter_length:
  assumes "mem_ok m" and "(i, p) \<in> set (page_iter m)"
  shows "length p = 4096"
proof -
  obtain s where s: "(i, s) \<in> set (page_dir m)" "p = page_slots m ! s"
    using assms(2) by (auto simp: page_iter_def)
  have "s < length (page_slots m)"
    by (rule mem_okD(3) [OF assms(1)]) (use s(1) in force)
  then have "length p = PAGE_SIZE" using s(2) by (intro mem_okD(5) [OF assms(1)]) simp
  then show ?thesis by (simp add: mem_consts)
qed

text \<open>Equal contents and equal log, whatever the slots, the directory's slots and the lookaside.\<close>

definition mem_eq :: "mem \<Rightarrow> mem \<Rightarrow> bool" where
  "mem_eq m1 m2 \<longleftrightarrow>
     mem_ok m1 \<and> mem_ok m2 \<and> page_iter m1 = page_iter m2 \<and> syscall_log m1 = syscall_log m2"

lemma mem_eq_same: "mem_eq m1 m2 \<longleftrightarrow> rv_mem.same m1 m2"
  by (auto simp: mem_eq_def rv_mem.same_def page_iter_eq_iff)

lemma mem_eq_refl: "mem_ok m \<Longrightarrow> mem_eq m m"
  by (simp add: mem_eq_def)

lemma mem_eq_sym: "mem_eq m1 m2 \<Longrightarrow> mem_eq m2 m1"
  by (simp add: mem_eq_def)

lemma mem_eq_trans: "mem_eq m1 m2 \<Longrightarrow> mem_eq m2 m3 \<Longrightarrow> mem_eq m1 m3"
  by (simp add: mem_eq_def)

lemma insert_page_correct:
  assumes "mem_ok m" and "length page = 4096" and "Suc (high_pages (page_dir m)) < 2 ^ 31"
  shows "mem_ok (insert_page m idx page)"
    and "pages (insert_page m idx page) = (pages m)(idx \<mapsto> page)"
    and "syscall_log (insert_page m idx page) = syscall_log m"
    and "high_pages (page_dir (insert_page m idx page)) \<le> Suc (high_pages (page_dir m))"
proof -
  let ?i = "unat idx mod LOOKASIDE_SLOTS" and ?e = "(NO_PAGE, NO_SLOT)"
  have "mem_ok (insert_page m idx page) \<and>
        pages (insert_page m idx page) = (pages m)(idx \<mapsto> page) \<and>
        syscall_log (insert_page m idx page) = syscall_log m \<and>
        high_pages (page_dir (insert_page m idx page)) \<le> Suc (high_pages (page_dir m))"
  proof (cases "map_of (page_dir m) idx")
    case (Some s)
    let ?m1 = "m\<lparr>page_slots := (page_slots m)[s := page]\<rparr>"
    have ok1: "mem_ok ?m1" using assms by (intro mem_ok_page_update) (simp_all add: mem_consts)
    have eq: "insert_page m idx page = ?m1\<lparr>lookaside := (lookaside ?m1)[?i := ?e]\<rparr>"
      using Some by (simp add: insert_page_def)
    show ?thesis unfolding eq
      using mem_ok_lookaside_update [OF ok1 lookaside_ok_empty] pages_page_update [OF assms(1) Some]
      by simp
  next
    case None
    let ?m1 = "m\<lparr>page_slots := page_slots m @ [page],
                 page_dir := bt_insert idx (length (page_slots m)) (page_dir m)\<rparr>"
    have hp: "high_pages (page_dir ?m1) \<le> Suc (high_pages (page_dir m))"
      by (simp add: high_pages_insert)
    have ok1: "mem_ok ?m1"
      using assms None hp by (intro mem_ok_alloc) (simp_all add: mem_consts)
    have eq: "insert_page m idx page = ?m1\<lparr>lookaside := (lookaside ?m1)[?i := ?e]\<rparr>"
      using None by (simp add: insert_page_def Let_def)
    show ?thesis unfolding eq
      using mem_ok_lookaside_update [OF ok1 lookaside_ok_empty] pages_alloc [OF assms(1) None] hp
      by simp
  qed
  then show "mem_ok (insert_page m idx page)"
    and "pages (insert_page m idx page) = (pages m)(idx \<mapsto> page)"
    and "syscall_log (insert_page m idx page) = syscall_log m"
    and "high_pages (page_dir (insert_page m idx page)) \<le> Suc (high_pages (page_dir m))" by auto
qed

text \<open>The bytes hashed into the memory root, over the canonical page sequence.\<close>

definition merkle_bytes :: "(u32 \<times> bytes) list \<Rightarrow> bytes" where
  "merkle_bytes ps = concat (map (\<lambda>(idx, p). le_bytes 4 idx @ p) ps)"

lemma merkle_root_page_iter: "merkle_root blake3 m = blake3 (merkle_bytes (page_iter m))"
  by (simp add: merkle_root_def merkle_bytes_def page_iter_def case_prod_unfold comp_def)

lemma merkle_bytes_inject:
  assumes "\<forall>(i, p) \<in> set ps. length p = 4096" and "\<forall>(i, p) \<in> set qs. length p = 4096"
    and "merkle_bytes ps = merkle_bytes qs"
  shows "ps = qs"
  using assms
proof (induction ps arbitrary: qs)
  case Nil
  then show ?case by (cases qs) (auto simp: merkle_bytes_def)
next
  case (Cons x ps)
  obtain i p where x: "x = (i, p)" by (cases x)
  from Cons.prems obtain j q qs' where qs: "qs = (j, q) # qs'"
    by (cases qs) (auto simp: merkle_bytes_def x)
  have l: "length p = 4096" "length q = 4096" using Cons.prems x qs by auto
  have "le_bytes 4 i @ p @ merkle_bytes ps = le_bytes 4 j @ q @ merkle_bytes qs'"
    using Cons.prems(3) x qs by (simp add: merkle_bytes_def)
  then have "le_bytes 4 i = le_bytes 4 j \<and> p @ merkle_bytes ps = q @ merkle_bytes qs'"
    by (subst (asm) append_eq_append_conv) simp_all
  then have "i = j \<and> p = q \<and> merkle_bytes ps = merkle_bytes qs'"
    using l by (auto simp: append_eq_append_conv)
  then show ?case using Cons.IH [of qs'] Cons.prems x qs by auto
qed

lemma merkle_root_same: "mem_eq m1 m2 \<Longrightarrow> merkle_root blake3 m1 = merkle_root blake3 m2"
  by (simp add: mem_eq_def merkle_root_page_iter)

lemma mem_ok_log [simp]: "mem_ok (m\<lparr>syscall_log := l\<rparr>) = mem_ok m"
  by (simp add: mem_ok_def)

lemma page_iter_log [simp]: "page_iter (m\<lparr>syscall_log := l\<rparr>) = page_iter m"
  by (simp add: page_iter_def)

section \<open>Properties\<close>

text \<open>
  C6: memory behaves as one flat array of bytes below \<open>2^32\<close>. A write succeeds exactly when its
  range lies inside the address space; afterwards the range holds the bytes written, every
  region that does not overlap it is unchanged, and the representation invariant holds, whatever
  pages were allocated and whatever the lookaside cached.
\<close>

theorem memory_is_flat:
  assumes "mem_ok m" and "mem_write m a bs = (r, m')"
  shows "(r = Inr () \<longleftrightarrow> unat a + length bs \<le> 2 ^ 32) \<and> mem_ok m' \<and>
         (r = Inr () \<longrightarrow> read_region m' a (length bs) = Inr bs) \<and>
         (\<forall>c n. unat c + n \<le> unat a \<or> unat a + length bs \<le> unat c \<longrightarrow>
                read_region m' c n = read_region m c n)"
proof -
  have r: "r = fst (mem_write m a bs)" and m': "m' = snd (mem_write m a bs)" using assms(2) by simp_all
  show ?thesis
    unfolding r m'
    using rv_mem.wr_result [OF assms(1)] rv_mem.wr_state [OF assms(1)]
      rv_mem.read_after_write [OF assms(1)] rv_mem.write_frame [OF assms(1)]
    by (auto split: if_splits)
qed

theorem memory_is_flat_witness:
  "\<exists>m'. mem_write mem_new 4094 [1, 2, 3, 4] = (Inr (), m') \<and> read_region m' 4094 (length [1, 2, 3, 4 :: u8]) = Inr [1, 2, 3, 4]"
proof -
  obtain r m' where w: "mem_write mem_new 4094 [1, 2, 3, 4] = (r, m')" by fastforce
  show ?thesis using memory_is_flat [OF mem_ok_new w] w by simp
qed

end
