(* ===== verification/Machine.thy ===== *)
theory Machine
  imports Memory
begin

text \<open>
  The architectural state outside memory (\<open>crates/rvcore/src/cpu.rs\<close>), the job memory map
  (\<open>crates/abi/src/lib.rs\<close>) and the canonical state hash (\<open>crates/rvcore/src/hash.rs\<close>).
  The hash function BLAKE3 is a parameter of the definitions that use it.
\<close>

section \<open>The job ABI\<close>

definition INPUT_LEN_ADDR :: u64 where
  "INPUT_LEN_ADDR = 0x10000000"

definition INPUT_DATA_ADDR :: u64 where
  "INPUT_DATA_ADDR = 0x10000008"

definition OUTPUT_LEN_ADDR :: u64 where
  "OUTPUT_LEN_ADDR = 0x20000000"

definition OUTPUT_DATA_ADDR :: u64 where
  "OUTPUT_DATA_ADDR = 0x20000008"

definition OUTPUT_MAX :: u64 where
  "OUTPUT_MAX = push_bit 20 1"

definition STACK_TOP :: u64 where
  "STACK_TOP = 0x83F00000"

definition abi_ISA :: string where
  "abi_ISA = ''rv64imc''"

section \<open>Registers\<close>

record cpu =
  cpu_x :: "u64 list"
  cpu_pc :: u64
  mtvec :: u64
  mepc :: u64
  mcause :: u64
  mstatus :: u64
  tohost :: "u64 option"

definition cpu_new :: "u64 \<Rightarrow> u64 \<Rightarrow> cpu" where
  "cpu_new pc sp =
     \<lparr>cpu_x = (replicate 32 0)[2 := sp], cpu_pc = pc, mtvec = 0, mepc = 0, mcause = 0,
      mstatus = 0, tohost = None\<rparr>"

definition cpu_set :: "cpu \<Rightarrow> u32 \<Rightarrow> u64 \<Rightarrow> cpu" where
  "cpu_set c reg val = (if reg \<noteq> 0 then c\<lparr>cpu_x := (cpu_x c)[unat reg := val]\<rparr> else c)"

definition cpu_get :: "cpu \<Rightarrow> u32 \<Rightarrow> u64" where
  "cpu_get c reg = cpu_x c ! unat reg"

text \<open>Thirty-two registers, the first of them hard-wired to zero.\<close>

definition cpu_ok :: "cpu \<Rightarrow> bool" where
  "cpu_ok c \<longleftrightarrow> length (cpu_x c) = 32 \<and> cpu_x c ! 0 = 0"

section \<open>The canonical state hash\<close>

definition GENESIS :: digest where
  "GENESIS = replicate 32 0"

definition state_hash :: "(bytes \<Rightarrow> digest) \<Rightarrow> digest \<Rightarrow> cpu \<Rightarrow> mem \<Rightarrow> digest" where
  "state_hash blake3 prev c m =
     blake3
       (prev @
        concat (map (le_bytes 8) (cpu_x c)) @
        le_bytes 8 (cpu_pc c) @
        concat (map (le_bytes 8) [mtvec c, mepc c, mcause c, mstatus c]) @
        merkle_root blake3 m)"

section \<open>Lemmas\<close>

lemma cpu_ok_new: "cpu_ok (cpu_new pc sp)"
  by (simp add: cpu_ok_def cpu_new_def)

lemma cpu_ok_set [simp]: "cpu_ok c \<Longrightarrow> cpu_ok (cpu_set c reg val)"
  by (cases "unat reg = 0") (auto simp: cpu_ok_def cpu_set_def nth_list_update_if unat_eq_0)

lemma cpu_ok_pc [simp]: "cpu_ok (c\<lparr>cpu_pc := p\<rparr>) = cpu_ok c"
  by (simp add: cpu_ok_def)

lemma cpu_ok_csr [simp]:
  "cpu_ok (c\<lparr>mtvec := v\<rparr>) = cpu_ok c" "cpu_ok (c\<lparr>mepc := v\<rparr>) = cpu_ok c"
  "cpu_ok (c\<lparr>mcause := v\<rparr>) = cpu_ok c" "cpu_ok (c\<lparr>mstatus := v\<rparr>) = cpu_ok c"
  "cpu_ok (c\<lparr>tohost := h\<rparr>) = cpu_ok c"
  by (simp_all add: cpu_ok_def)

lemma cpu_get_set:
  assumes "cpu_ok c" and "unat r < 32"
  shows "cpu_get (cpu_set c q v) r = (if r = q \<and> q \<noteq> 0 then v else cpu_get c r)"
  using assms by (auto simp: cpu_get_def cpu_set_def cpu_ok_def nth_list_update_if word_unat_eq_iff)

lemma cpu_get_zero: "cpu_ok c \<Longrightarrow> cpu_get c 0 = 0"
  by (simp add: cpu_get_def cpu_ok_def)

text \<open>Everything the hash binds: the machine without the device latch.\<close>

definition arch_eq :: "cpu \<Rightarrow> cpu \<Rightarrow> bool" where
  "arch_eq c1 c2 \<longleftrightarrow>
     cpu_x c1 = cpu_x c2 \<and> cpu_pc c1 = cpu_pc c2 \<and> mtvec c1 = mtvec c2 \<and> mepc c1 = mepc c2 \<and>
     mcause c1 = mcause c2 \<and> mstatus c1 = mstatus c2"

lemma arch_eq_refl [simp]: "arch_eq c c"
  by (simp add: arch_eq_def)

lemma state_hash_cong:
  "arch_eq c1 c2 \<Longrightarrow> mem_eq m1 m2 \<Longrightarrow> state_hash blake3 prev c1 m1 = state_hash blake3 prev c2 m2"
  by (simp add: state_hash_def arch_eq_def merkle_root_same)

definition state_bytes :: "(bytes \<Rightarrow> digest) \<Rightarrow> digest \<Rightarrow> cpu \<Rightarrow> mem \<Rightarrow> bytes" where
  "state_bytes blake3 prev c m =
     prev @ concat (map (le_bytes 8) (cpu_x c @ [cpu_pc c, mtvec c, mepc c, mcause c, mstatus c])) @
     merkle_root blake3 m"

lemma state_hash_bytes: "state_hash blake3 prev c m = blake3 (state_bytes blake3 prev c m)"
  by (simp add: state_hash_def state_bytes_def)

lemma concat_le_bytes_inject:
  "concat (map (le_bytes 8) xs) = concat (map (le_bytes 8) ys) \<Longrightarrow> xs = (ys :: u64 list)"
  by (rule concat_map_inj_fixed [where f = "le_bytes 8" and n = 8]) (auto intro: injI)

lemma length_concat_le_bytes [simp]: "length (concat (map (le_bytes n) ws)) = n * length ws"
  by (induction ws) auto

lemma state_hash_inject:
  assumes "length prev1 = 32" and "length prev2 = 32" and "length (cpu_x c1) = 32" and "length (cpu_x c2) = 32"
    and "mem_ok m1" and "mem_ok m2"
    and "state_hash blake3 prev1 c1 m1 = state_hash blake3 prev2 c2 m2"
  shows "(prev1 = prev2 \<and> arch_eq c1 c2 \<and> page_iter m1 = page_iter m2) \<or>
         collision blake3 (state_bytes blake3 prev1 c1 m1) (state_bytes blake3 prev2 c2 m2) \<or>
         collision blake3 (merkle_bytes (page_iter m1)) (merkle_bytes (page_iter m2))"
proof (cases "state_bytes blake3 prev1 c1 m1 = state_bytes blake3 prev2 c2 m2")
  case False
  then show ?thesis using assms(7) by (simp add: state_hash_bytes collision_def)
next
  case True
  let ?w = "\<lambda>c. cpu_x c @ [cpu_pc c, mtvec c, mepc c, mcause c, mstatus c]"
  have 1: "prev1 = prev2 \<and>
    concat (map (le_bytes 8) (?w c1)) @ merkle_root blake3 m1 =
    concat (map (le_bytes 8) (?w c2)) @ merkle_root blake3 m2"
    using True assms(1,2) unfolding state_bytes_def by (intro append_eq_sameD) simp_all
  have l: "length (concat (map (le_bytes 8) (?w c1))) = length (concat (map (le_bytes 8) (?w c2)))"
    using assms(3,4) by (simp only: length_concat_le_bytes) simp
  have p: "prev1 = prev2" using 1 by blast
  have w: "concat (map (le_bytes 8) (?w c1)) = concat (map (le_bytes 8) (?w c2))"
    and r: "merkle_root blake3 m1 = merkle_root blake3 m2"
    using append_eq_sameD [OF conjunct2 [OF 1] l] by blast+
  have a: "arch_eq c1 c2"
    using concat_le_bytes_inject [OF w] assms(3,4) by (simp add: arch_eq_def)
  show ?thesis
  proof (cases "merkle_bytes (page_iter m1) = merkle_bytes (page_iter m2)")
    case True
    have "page_iter m1 = page_iter m2"
      by (rule merkle_bytes_inject [OF _ _ True]) (auto dest: page_iter_length [OF assms(5)]
          page_iter_length [OF assms(6)])
    then show ?thesis using p a by simp
  next
    case False
    then show ?thesis using r by (simp add: merkle_root_page_iter collision_def)
  qed
qed

text \<open>
  C19: the state hash binds the previous hash, every register, the program counter, the four
  machine CSRs and every allocated page. If two states hash alike, they are the same state, or
  the two hashed byte strings, or the two memory images, are an explicit BLAKE3 collision.
\<close>

theorem state_hash_binds:
  assumes "length prev1 = 32" and "length prev2 = 32" and "cpu_ok c1" and "cpu_ok c2"
    and "mem_ok m1" and "mem_ok m2"
    and "state_hash blake3 prev1 c1 m1 = state_hash blake3 prev2 c2 m2"
  shows "(prev1 = prev2 \<and> arch_eq c1 c2 \<and> page_iter m1 = page_iter m2) \<or>
         collision blake3 (state_bytes blake3 prev1 c1 m1) (state_bytes blake3 prev2 c2 m2) \<or>
         collision blake3 (merkle_bytes (page_iter m1)) (merkle_bytes (page_iter m2))"
  using state_hash_inject [OF assms(1,2) _ _ assms(5-7)] assms(3,4) by (simp add: cpu_ok_def)

theorem state_hash_binds_witness:
  "state_hash (take 32) GENESIS (cpu_new 0 0) mem_new = state_hash (take 32) GENESIS (cpu_new 4 0) mem_new \<and>
   state_bytes (take 32) GENESIS (cpu_new 0 0) mem_new \<noteq> state_bytes (take 32) GENESIS (cpu_new 4 0) mem_new"
proof -
  have e: "state_hash (take 32) GENESIS (cpu_new 0 0) mem_new = state_hash (take 32) GENESIS (cpu_new 4 0) mem_new"
    by (simp add: state_hash_def GENESIS_def)
  have "\<not> arch_eq (cpu_new 0 0) (cpu_new 4 0)" by (simp add: arch_eq_def cpu_new_def)
  then show ?thesis
    using state_hash_binds [OF _ _ cpu_ok_new cpu_ok_new mem_ok_new mem_ok_new e] e
    by (simp add: GENESIS_def collision_def)
qed

end
