(* ===== verification/Interp.thy ===== *)
theory Interp
  imports Machine
begin

text \<open>
  One instruction of the pinned RV64IMC machine (\<open>crates/rvcore/src/interp.rs\<close>, \<open>step_mode\<close>,
  \<open>step_c\<close> and \<open>do_syscall\<close>). Each arm of the decoder's \<open>match\<close> is one definition. A step gives
  the Rust result (\<open>Ok(halted)\<close> or \<open>Err(trap)\<close>), or \<open>StepPanic\<close> where the Rust code panics,
  together with the machine and the memory it leaves behind.
\<close>

datatype trap =
    FetchUnaligned
  | FetchOutOfRange
  | IllegalInstruction u64 u32
  | LoadOutOfRange u64
  | StoreOutOfRange u64
  | Ecall
  | OutputTooLarge

datatype step_res = StepOk bool | StepErr trap | StepPanic

type_synonym step_out = "step_res \<times> cpu \<times> mem"

section \<open>Instruction fields and immediates\<close>

definition f_opcode :: "u32 \<Rightarrow> u32" where
  "f_opcode inst = inst AND 0x7f"

definition f_rd :: "u32 \<Rightarrow> u32" where
  "f_rd inst = drop_bit 7 inst AND 0x1f"

definition f_f3 :: "u32 \<Rightarrow> u32" where
  "f_f3 inst = drop_bit 12 inst AND 0x7"

definition f_rs1 :: "u32 \<Rightarrow> u32" where
  "f_rs1 inst = drop_bit 15 inst AND 0x1f"

definition f_rs2 :: "u32 \<Rightarrow> u32" where
  "f_rs2 inst = drop_bit 20 inst AND 0x1f"

definition f_f7 :: "u32 \<Rightarrow> u32" where
  "f_f7 inst = drop_bit 25 inst AND 0x7f"

definition imm_i :: "u32 \<Rightarrow> u64" where
  "imm_i inst = scast (signed_drop_bit 20 inst)"

definition imm_s :: "u32 \<Rightarrow> u64" where
  "imm_s inst = scast (signed_drop_bit 20 inst AND NOT 0x1f) OR ucast (drop_bit 7 inst AND 0x1f)"

definition imm_b :: "u32 \<Rightarrow> u64" where
  "imm_b inst =
     (let v = push_bit 12 (drop_bit 31 inst AND 1)
              OR push_bit 11 (drop_bit 7 inst AND 1)
              OR push_bit 5 (drop_bit 25 inst AND 0x3f)
              OR push_bit 1 (drop_bit 8 inst AND 0xf)
      in scast (signed_drop_bit 19 (push_bit 19 v)))"

definition imm_u :: "u32 \<Rightarrow> u64" where
  "imm_u inst = scast (inst AND 0xfffff000)"

definition imm_j :: "u32 \<Rightarrow> u64" where
  "imm_j inst =
     (let v = push_bit 20 (drop_bit 31 inst AND 1)
              OR push_bit 12 (drop_bit 12 inst AND 0xff)
              OR push_bit 11 (drop_bit 20 inst AND 1)
              OR push_bit 1 (drop_bit 21 inst AND 0x3ff)
      in scast (signed_drop_bit 11 (push_bit 11 v)))"

section \<open>Results of the arithmetic arms\<close>

definition illegal :: "u64 \<Rightarrow> u32 \<Rightarrow> trap" where
  "illegal pc inst = IllegalInstruction pc inst"

definition trap_load :: "mem_error \<Rightarrow> u64 \<Rightarrow> trap" where
  "trap_load e addr = (case e of OutOfRange \<Rightarrow> LoadOutOfRange addr)"

definition trap_store :: "mem_error \<Rightarrow> u64 \<Rightarrow> trap" where
  "trap_store e addr = (case e of OutOfRange \<Rightarrow> StoreOutOfRange addr)"

text \<open>
  What an arithmetic arm yields: a value for \<open>rd\<close>, the illegal-instruction return, or a panic
  (integer division by zero, \<open>unreachable!\<close>).
\<close>

datatype alu_res = AVal u64 | AIllegal | APanic

definition finish_alu :: "cpu \<Rightarrow> mem \<Rightarrow> u64 \<Rightarrow> u32 \<Rightarrow> alu_res \<Rightarrow> step_out" where
  "finish_alu c m pc inst r =
     (case r of
        AVal val \<Rightarrow> (StepOk False, (cpu_set c (f_rd inst) val)\<lparr>cpu_pc := pc + 4\<rparr>, m)
      | AIllegal \<Rightarrow> (StepErr (illegal pc inst), c, m)
      | APanic \<Rightarrow> (StepPanic, c, m))"

text \<open>\<open>checked_div\<close> and \<open>checked_rem\<close> of the signed types: \<open>None\<close> on zero and on \<open>MIN / -1\<close>.\<close>

definition checked_sdiv :: "'a::len word \<Rightarrow> 'a word \<Rightarrow> 'a word option" where
  "checked_sdiv a b =
     (if b = 0 \<or> (sint a = - (2 ^ (LENGTH('a) - 1)) \<and> sint b = - 1) then None
      else Some (word_of_int (sint a sdiv sint b)))"

definition checked_srem :: "'a::len word \<Rightarrow> 'a word \<Rightarrow> 'a word option" where
  "checked_srem a b =
     (if b = 0 \<or> (sint a = - (2 ^ (LENGTH('a) - 1)) \<and> sint b = - 1) then None
      else Some (word_of_int (sint a smod sint b)))"

section \<open>The arms of the 32-bit decoder\<close>

definition exec_lui :: "cpu \<Rightarrow> mem \<Rightarrow> u64 \<Rightarrow> u32 \<Rightarrow> step_out" where
  "exec_lui c m pc inst = (StepOk False, (cpu_set c (f_rd inst) (imm_u inst))\<lparr>cpu_pc := pc + 4\<rparr>, m)"

definition exec_auipc :: "cpu \<Rightarrow> mem \<Rightarrow> u64 \<Rightarrow> u32 \<Rightarrow> step_out" where
  "exec_auipc c m pc inst =
     (StepOk False, (cpu_set c (f_rd inst) (pc + imm_u inst))\<lparr>cpu_pc := pc + 4\<rparr>, m)"

definition exec_jal :: "cpu \<Rightarrow> mem \<Rightarrow> u64 \<Rightarrow> u32 \<Rightarrow> step_out" where
  "exec_jal c m pc inst =
     (StepOk False, (cpu_set c (f_rd inst) (pc + 4))\<lparr>cpu_pc := pc + imm_j inst\<rparr>, m)"

definition exec_jalr :: "cpu \<Rightarrow> mem \<Rightarrow> u64 \<Rightarrow> u32 \<Rightarrow> step_out" where
  "exec_jalr c m pc inst =
     (if f_f3 inst \<noteq> 0 then (StepErr (illegal pc inst), c, m)
      else
        (let target = (cpu_get c (f_rs1 inst) + imm_i inst) AND NOT 1
         in (StepOk False, (cpu_set c (f_rd inst) (pc + 4))\<lparr>cpu_pc := target\<rparr>, m)))"

definition branch_taken :: "u32 \<Rightarrow> u64 \<Rightarrow> u64 \<Rightarrow> bool option" where
  "branch_taken f3 a b =
     (if f3 = 0 then Some (a = b)
      else if f3 = 1 then Some (a \<noteq> b)
      else if f3 = 4 then Some (sint a < sint b)
      else if f3 = 5 then Some (sint a \<ge> sint b)
      else if f3 = 6 then Some (a < b)
      else if f3 = 7 then Some (a \<ge> b)
      else None)"

definition exec_branch :: "cpu \<Rightarrow> mem \<Rightarrow> u64 \<Rightarrow> u32 \<Rightarrow> step_out" where
  "exec_branch c m pc inst =
     (case branch_taken (f_f3 inst) (cpu_get c (f_rs1 inst)) (cpu_get c (f_rs2 inst)) of
        None \<Rightarrow> (StepErr (illegal pc inst), c, m)
      | Some taken \<Rightarrow>
          (StepOk False, c\<lparr>cpu_pc := (if taken then pc + imm_b inst else pc + 4)\<rparr>, m))"

text \<open>Width and sign extension selected by \<open>funct3\<close> of a load.\<close>

definition load_kind :: "u32 \<Rightarrow> (nat \<times> bool) option" where
  "load_kind f3 =
     (if f3 = 0 then Some (1, True)
      else if f3 = 1 then Some (2, True)
      else if f3 = 2 then Some (4, True)
      else if f3 = 3 then Some (8, False)
      else if f3 = 4 then Some (1, False)
      else if f3 = 5 then Some (2, False)
      else if f3 = 6 then Some (4, False)
      else None)"

definition extend_load :: "nat \<Rightarrow> bool \<Rightarrow> u64 \<Rightarrow> u64" where
  "extend_load len sign_ext val =
     (if sign_ext then
        (if len = 1 then scast (ucast val :: u8)
         else if len = 2 then scast (ucast val :: u16)
         else scast (ucast val :: u32))
      else val)"

definition exec_load :: "cpu \<Rightarrow> mem \<Rightarrow> u64 \<Rightarrow> u32 \<Rightarrow> step_out" where
  "exec_load c m pc inst =
     (let addr = cpu_get c (f_rs1 inst) + imm_i inst
      in (case load_kind (f_f3 inst) of
            None \<Rightarrow> (StepErr (illegal pc inst), c, m)
          | Some (len, sign_ext) \<Rightarrow>
              (let (r, m) = mem_read m addr len
               in (case r of
                     Inl e \<Rightarrow> (StepErr (trap_load e addr), c, m)
                   | Inr val \<Rightarrow>
                       (StepOk False,
                        (cpu_set c (f_rd inst) (extend_load len sign_ext val))\<lparr>cpu_pc := pc + 4\<rparr>,
                        m)))))"

definition store_len :: "u32 \<Rightarrow> nat option" where
  "store_len f3 =
     (if f3 = 0 then Some 1 else if f3 = 1 then Some 2 else if f3 = 2 then Some 4
      else if f3 = 3 then Some 8 else None)"

definition exec_store :: "cpu \<Rightarrow> mem \<Rightarrow> u64 option \<Rightarrow> u64 \<Rightarrow> u32 \<Rightarrow> step_out" where
  "exec_store c m tohost_addr pc inst =
     (let addr = cpu_get c (f_rs1 inst) + imm_s inst; b = cpu_get c (f_rs2 inst)
      in (case store_len (f_f3 inst) of
            None \<Rightarrow> (StepErr (illegal pc inst), c, m)
          | Some len \<Rightarrow>
              (let c = (if Some addr = tohost_addr \<and> (len = 8 \<or> len = 4)
                        then c\<lparr>tohost := Some (if len = 8 then b else b AND 0xffffffff)\<rparr> else c);
                   (r, m) = mem_write m addr (take len (le_bytes 8 b))
               in (case r of
                     Inl e \<Rightarrow> (StepErr (trap_store e addr), c, m)
                   | Inr _ \<Rightarrow> (StepOk False, c\<lparr>cpu_pc := pc + 4\<rparr>, m)))))"

definition alu_op_imm :: "u32 \<Rightarrow> u64 \<Rightarrow> alu_res" where
  "alu_op_imm inst a =
     (let f3 = f_f3 inst; imm = imm_i inst; shamt = unat (drop_bit 20 inst AND 63);
          funct = drop_bit 26 inst AND 0x3f
      in if f3 = 0 then AVal (a + imm)
         else if f3 = 2 then AVal (if sint a < sint imm then 1 else 0)
         else if f3 = 3 then AVal (if a < imm then 1 else 0)
         else if f3 = 4 then AVal (a XOR imm)
         else if f3 = 6 then AVal (a OR imm)
         else if f3 = 7 then AVal (a AND imm)
         else if f3 = 1 then (if funct \<noteq> 0 then AIllegal else AVal (push_bit shamt a))
         else if f3 = 5 then
           (if funct = 0 then AVal (drop_bit shamt a)
            else if funct = 0x10 then AVal (signed_drop_bit shamt a)
            else AIllegal)
         else APanic)"

definition exec_op_imm :: "cpu \<Rightarrow> mem \<Rightarrow> u64 \<Rightarrow> u32 \<Rightarrow> step_out" where
  "exec_op_imm c m pc inst = finish_alu c m pc inst (alu_op_imm inst (cpu_get c (f_rs1 inst)))"

definition alu_op_imm_32 :: "u32 \<Rightarrow> u64 \<Rightarrow> alu_res" where
  "alu_op_imm_32 inst a =
     (let f3 = f_f3 inst; f7 = f_f7 inst; shamt = unat (drop_bit 20 inst AND 31)
      in if f3 = 0 then AVal (scast ((ucast a :: u32) + ucast (imm_i inst)))
         else if f3 = 1 then
           (if f7 \<noteq> 0 then AIllegal else AVal (scast (push_bit shamt (ucast a :: u32))))
         else if f3 = 5 then
           (if f7 = 0 then AVal (scast (drop_bit shamt (ucast a :: u32)))
            else if f7 = 0x20 then AVal (scast (signed_drop_bit shamt (ucast a :: u32)))
            else AIllegal)
         else AIllegal)"

definition exec_op_imm_32 :: "cpu \<Rightarrow> mem \<Rightarrow> u64 \<Rightarrow> u32 \<Rightarrow> step_out" where
  "exec_op_imm_32 c m pc inst = finish_alu c m pc inst (alu_op_imm_32 inst (cpu_get c (f_rs1 inst)))"

definition alu_op :: "u32 \<Rightarrow> u32 \<Rightarrow> u64 \<Rightarrow> u64 \<Rightarrow> alu_res" where
  "alu_op f7 f3 a b =
     (if f7 = 0 \<and> f3 = 0 then AVal (a + b)
      else if f7 = 0x20 \<and> f3 = 0 then AVal (a - b)
      else if f7 = 0 \<and> f3 = 1 then AVal (push_bit (unat (b AND 63)) a)
      else if f7 = 0 \<and> f3 = 2 then AVal (if sint a < sint b then 1 else 0)
      else if f7 = 0 \<and> f3 = 3 then AVal (if a < b then 1 else 0)
      else if f7 = 0 \<and> f3 = 4 then AVal (a XOR b)
      else if f7 = 0 \<and> f3 = 5 then AVal (drop_bit (unat (b AND 63)) a)
      else if f7 = 0x20 \<and> f3 = 5 then AVal (signed_drop_bit (unat (b AND 63)) a)
      else if f7 = 0 \<and> f3 = 6 then AVal (a OR b)
      else if f7 = 0 \<and> f3 = 7 then AVal (a AND b)
      else if f7 = 1 \<and> f3 = 0 then AVal (a * b)
      else if f7 = 1 \<and> f3 = 1 then
        AVal (ucast (signed_drop_bit 64 ((scast a :: u128) * scast b)))
      else if f7 = 1 \<and> f3 = 2 then
        AVal (ucast (signed_drop_bit 64 ((scast a :: u128) * ucast b)))
      else if f7 = 1 \<and> f3 = 3 then AVal (ucast (drop_bit 64 ((ucast a :: u128) * ucast b)))
      else if f7 = 1 \<and> f3 = 4 then
        (case checked_sdiv a b of
           Some q \<Rightarrow> AVal q
         | None \<Rightarrow> if b = 0 then AVal (- 1) else AVal 0x8000000000000000)
      else if f7 = 1 \<and> f3 = 5 then (if b = 0 then AVal (- 1) else AVal (a div b))
      else if f7 = 1 \<and> f3 = 6 then
        (case checked_srem a b of
           Some r \<Rightarrow> AVal r
         | None \<Rightarrow> if b = 0 then AVal a else AVal 0)
      else if f7 = 1 \<and> f3 = 7 then (if b = 0 then AVal a else AVal (a mod b))
      else AIllegal)"

definition exec_op :: "cpu \<Rightarrow> mem \<Rightarrow> u64 \<Rightarrow> u32 \<Rightarrow> step_out" where
  "exec_op c m pc inst =
     finish_alu c m pc inst
       (alu_op (f_f7 inst) (f_f3 inst) (cpu_get c (f_rs1 inst)) (cpu_get c (f_rs2 inst)))"

definition alu_op_32 :: "u32 \<Rightarrow> u32 \<Rightarrow> u64 \<Rightarrow> u64 \<Rightarrow> alu_res" where
  "alu_op_32 f7 f3 a b =
     (let aw = ucast a :: u32; bw = ucast b :: u32
      in if f7 = 0 \<and> f3 = 0 then AVal (scast (aw + bw))
         else if f7 = 0x20 \<and> f3 = 0 then AVal (scast (aw - bw))
         else if f7 = 0 \<and> f3 = 1 then AVal (scast (push_bit (unat (b AND 31)) aw))
         else if f7 = 0 \<and> f3 = 5 then AVal (scast (drop_bit (unat (b AND 31)) aw))
         else if f7 = 0x20 \<and> f3 = 5 then AVal (scast (signed_drop_bit (unat (b AND 31)) aw))
         else if f7 = 1 \<and> f3 = 0 then AVal (scast (aw * bw))
         else if f7 = 1 \<and> f3 = 4 then
           (case checked_sdiv aw bw of
              Some q \<Rightarrow> AVal (scast q)
            | None \<Rightarrow> if b = 0 then AVal (- 1) else AVal (scast (0x80000000 :: u32)))
         else if f7 = 1 \<and> f3 = 5 then
           (if b = 0 then AVal (- 1)
            else if bw = 0 then APanic
            else AVal (scast (aw div bw)))
         else if f7 = 1 \<and> f3 = 6 then
           (case checked_srem aw bw of
              Some r \<Rightarrow> AVal (scast r)
            | None \<Rightarrow> if b = 0 then AVal (scast aw) else AVal 0)
         else if f7 = 1 \<and> f3 = 7 then
           (if b = 0 then AVal (scast aw)
            else if bw = 0 then APanic
            else AVal (scast (aw mod bw)))
         else AIllegal)"

definition exec_op_32 :: "cpu \<Rightarrow> mem \<Rightarrow> u64 \<Rightarrow> u32 \<Rightarrow> step_out" where
  "exec_op_32 c m pc inst =
     finish_alu c m pc inst
       (alu_op_32 (f_f7 inst) (f_f3 inst) (cpu_get c (f_rs1 inst)) (cpu_get c (f_rs2 inst)))"

definition exec_fence :: "cpu \<Rightarrow> mem \<Rightarrow> u64 \<Rightarrow> u32 \<Rightarrow> step_out" where
  "exec_fence c m pc inst =
     (if f_f3 inst = 0 \<or> f_f3 inst = 1 then (StepOk False, c\<lparr>cpu_pc := pc + 4\<rparr>, m)
      else (StepErr (illegal pc inst), c, m))"

section \<open>System instructions\<close>

text \<open>The QEMU-compatible syscalls: write (64) and exit (93).\<close>

definition do_syscall :: "cpu \<Rightarrow> mem \<Rightarrow> step_out" where
  "do_syscall c m =
     (if cpu_get c 17 = 64 then
        (let fd = cpu_get c 10; buf = cpu_get c 11; len = cpu_get c 12
         in if fd \<noteq> 1 \<or> len > push_bit 20 1 then (StepErr Ecall, c, m)
            else (case read_region m buf (unat len) of
                    Inl _ \<Rightarrow> (StepErr Ecall, c, m)
                  | Inr bs \<Rightarrow>
                      (let c = cpu_set c 10 len
                       in (StepOk False, c\<lparr>cpu_pc := cpu_pc c + 4\<rparr>,
                           m\<lparr>syscall_log := syscall_log m @ bs\<rparr>))))
      else if cpu_get c 17 = 93 then (StepOk True, c, m)
      else (StepErr Ecall, c, m))"

definition csr_read :: "cpu \<Rightarrow> u32 \<Rightarrow> u64" where
  "csr_read c num =
     (if num = 0x300 then mstatus c else if num = 0x305 then mtvec c
      else if num = 0x341 then mepc c else if num = 0x342 then mcause c else 0)"

definition csr_write :: "cpu \<Rightarrow> u32 \<Rightarrow> u64 \<Rightarrow> cpu" where
  "csr_write c num v =
     (if num = 0x300 then c\<lparr>mstatus := v\<rparr>
      else if num = 0x305 then c\<lparr>mtvec := v AND NOT 0x3\<rparr>
      else if num = 0x341 then c\<lparr>mepc := v\<rparr>
      else if num = 0x342 then c\<lparr>mcause := v\<rparr> else c)"

definition csr_src :: "u32 \<Rightarrow> u64 \<Rightarrow> u64" where
  "csr_src inst a =
     (if f_f3 inst = 1 \<or> f_f3 inst = 2 \<or> f_f3 inst = 3 then a
      else
        (let z = drop_bit 15 inst AND 0x1f
         in if z AND 0x10 \<noteq> 0 then ucast z - 0x10 else ucast z))"

definition exec_csr :: "cpu \<Rightarrow> mem \<Rightarrow> u64 \<Rightarrow> u32 \<Rightarrow> step_out" where
  "exec_csr c m pc inst =
     (let csr_num = drop_bit 20 inst; f3 = f_f3 inst;
          src = csr_src inst (cpu_get c (f_rs1 inst));
          old = csr_read c csr_num;
          new = (if f3 = 1 \<or> f3 = 5 then src
                 else if f3 = 2 \<or> f3 = 6 then old OR src else old AND NOT src);
          c = csr_write c csr_num new;
          c = (if f_rd inst \<noteq> 0 then cpu_set c (f_rd inst) old else c)
      in (StepOk False, c\<lparr>cpu_pc := pc + 4\<rparr>, m))"

definition exec_system :: "cpu \<Rightarrow> mem \<Rightarrow> bool \<Rightarrow> u64 \<Rightarrow> u32 \<Rightarrow> step_out" where
  "exec_system c m syscalls pc inst =
     (let f3 = f_f3 inst; imm = drop_bit 20 inst
      in if f3 = 0 \<and> imm = 0 then
           (if syscalls then do_syscall c m else (StepErr Ecall, c, m))
         else if f3 = 0 \<and> imm = 1 then (StepOk True, c, m)
         else if f3 = 0 \<and> imm = 0x302 then
           (StepOk False, c\<lparr>cpu_pc := mepc c, mstatus := mstatus c AND NOT 0x1800\<rparr>, m)
         else if f3 = 1 \<or> f3 = 2 \<or> f3 = 3 \<or> f3 = 5 \<or> f3 = 6 \<or> f3 = 7 then exec_csr c m pc inst
         else (StepErr (illegal pc inst), c, m))"

text \<open>The \<open>match opcode\<close> of \<open>step_mode\<close>.\<close>

definition exec32 :: "cpu \<Rightarrow> mem \<Rightarrow> bool \<Rightarrow> u64 option \<Rightarrow> u64 \<Rightarrow> u32 \<Rightarrow> step_out" where
  "exec32 c m syscalls tohost_addr pc inst =
     (let opcode = f_opcode inst
      in if opcode = 0x37 then exec_lui c m pc inst
         else if opcode = 0x17 then exec_auipc c m pc inst
         else if opcode = 0x6f then exec_jal c m pc inst
         else if opcode = 0x67 then exec_jalr c m pc inst
         else if opcode = 0x63 then exec_branch c m pc inst
         else if opcode = 0x03 then exec_load c m pc inst
         else if opcode = 0x23 then exec_store c m tohost_addr pc inst
         else if opcode = 0x13 then exec_op_imm c m pc inst
         else if opcode = 0x1b then exec_op_imm_32 c m pc inst
         else if opcode = 0x33 then exec_op c m pc inst
         else if opcode = 0x3b then exec_op_32 c m pc inst
         else if opcode = 0x0f then exec_fence c m pc inst
         else if opcode = 0x73 then exec_system c m syscalls pc inst
         else (StepErr (illegal pc inst), c, m))"

section \<open>Compressed instructions\<close>

definition cj_imm :: "u16 \<Rightarrow> u64" where
  "cj_imm hw =
     (let v = push_bit 11 (ucast (drop_bit 12 hw AND 0x1))
              OR push_bit 10 (ucast (drop_bit 8 hw AND 0x1))
              OR push_bit 8 (ucast (drop_bit 9 hw AND 0x3))
              OR push_bit 7 (ucast (drop_bit 6 hw AND 0x1))
              OR push_bit 6 (ucast (drop_bit 7 hw AND 0x1))
              OR push_bit 5 (ucast (drop_bit 2 hw AND 0x1))
              OR push_bit 4 (ucast (drop_bit 11 hw AND 0x1))
              OR push_bit 1 (ucast (drop_bit 3 hw AND 0x7))
      in signed_drop_bit 52 (push_bit 52 v))"

definition cb_imm :: "u16 \<Rightarrow> u64" where
  "cb_imm hw =
     (let v = push_bit 8 (ucast (drop_bit 12 hw AND 0x1))
              OR push_bit 6 (ucast (drop_bit 5 hw AND 0x3))
              OR push_bit 5 (ucast (drop_bit 2 hw AND 0x1))
              OR push_bit 3 (ucast (drop_bit 10 hw AND 0x3))
              OR push_bit 1 (ucast (drop_bit 3 hw AND 0x3))
      in signed_drop_bit 55 (push_bit 55 v))"

definition creg :: "u16 \<Rightarrow> u32" where
  "creg i = 8 + ucast i"

definition c_rd' :: "u16 \<Rightarrow> u32" where
  "c_rd' hw = creg (drop_bit 2 hw AND 7)"

definition c_rs1' :: "u16 \<Rightarrow> u32" where
  "c_rs1' hw = creg (drop_bit 7 hw AND 7)"

definition c_f3 :: "u16 \<Rightarrow> u16" where
  "c_f3 hw = drop_bit 13 hw AND 7"

definition c_rd :: "u16 \<Rightarrow> u32" where
  "c_rd hw = ucast (drop_bit 7 hw AND 0x1f)"

definition c_rs2 :: "u16 \<Rightarrow> u32" where
  "c_rs2 hw = ucast (drop_bit 2 hw AND 0x1f)"

definition c_imm6 :: "u16 \<Rightarrow> u64" where
  "c_imm6 hw = ucast (drop_bit 12 hw AND 0x1) * - 32 + ucast (drop_bit 2 hw AND 0x1f)"

definition c_shamt :: "u16 \<Rightarrow> u16" where
  "c_shamt hw = push_bit 5 (drop_bit 12 hw AND 0x1) OR (drop_bit 2 hw AND 0x1f)"

definition bad :: "u64 \<Rightarrow> u16 \<Rightarrow> trap" where
  "bad pc hw = IllegalInstruction pc (ucast hw)"

text \<open>The common endings of \<open>step_c\<close>: advance, load into a register, store.\<close>

definition c_next :: "cpu \<Rightarrow> mem \<Rightarrow> u64 \<Rightarrow> step_out" where
  "c_next c m pc = (StepOk False, c\<lparr>cpu_pc := pc + 2\<rparr>, m)"

definition c_load :: "cpu \<Rightarrow> mem \<Rightarrow> u64 \<Rightarrow> u32 \<Rightarrow> u64 \<Rightarrow> nat \<Rightarrow> step_out" where
  "c_load c m pc rd addr len =
     (let (r, m) = mem_read m addr len
      in (case r of
            Inl e \<Rightarrow> (StepErr (trap_load e addr), c, m)
          | Inr v \<Rightarrow> c_next (cpu_set c rd (extend_load len (len = 4) v)) m pc))"

definition c_store :: "cpu \<Rightarrow> mem \<Rightarrow> u64 \<Rightarrow> u64 \<Rightarrow> u64 \<Rightarrow> nat \<Rightarrow> step_out" where
  "c_store c m pc addr val len =
     (let (r, m) = mem_write m addr (take len (le_bytes 8 val))
      in (case r of
            Inl e \<Rightarrow> (StepErr (trap_store e addr), c, m)
          | Inr _ \<Rightarrow> c_next c m pc))"

definition c_imm_w :: "u16 \<Rightarrow> u16" where
  "c_imm_w hw =
     push_bit 3 (drop_bit 10 hw AND 0x7) OR push_bit 2 (drop_bit 6 hw AND 0x1)
     OR push_bit 6 (drop_bit 5 hw AND 0x1)"

definition c_imm_d :: "u16 \<Rightarrow> u16" where
  "c_imm_d hw = push_bit 3 (drop_bit 10 hw AND 0x7) OR push_bit 6 (drop_bit 5 hw AND 0x3)"

definition c_imm_4spn :: "u16 \<Rightarrow> u16" where
  "c_imm_4spn hw =
     push_bit 4 (drop_bit 11 hw AND 0x3) OR push_bit 6 (drop_bit 7 hw AND 0xf)
     OR push_bit 2 (drop_bit 6 hw AND 0x1) OR push_bit 3 (drop_bit 5 hw AND 0x1)"

definition step_c_q0 :: "cpu \<Rightarrow> mem \<Rightarrow> u64 \<Rightarrow> u16 \<Rightarrow> step_out" where
  "step_c_q0 c m pc hw =
     (let f3 = c_f3 hw; sp = cpu_get c 2
      in if f3 = 0 then
           (let imm = c_imm_4spn hw
            in if imm = 0 then (StepErr (bad pc hw), c, m)
               else c_next (cpu_set c (c_rd' hw) (sp + ucast imm)) m pc)
         else if f3 = 1 \<or> f3 = 5 then (StepErr (bad pc hw), c, m)
         else if f3 = 2 then
           c_load c m pc (c_rd' hw) (cpu_get c (c_rs1' hw) + ucast (c_imm_w hw)) 4
         else if f3 = 3 then
           c_load c m pc (c_rd' hw) (cpu_get c (c_rs1' hw) + ucast (c_imm_d hw)) 8
         else if f3 = 6 then
           c_store c m pc (cpu_get c (c_rs1' hw) + ucast (c_imm_w hw)) (cpu_get c (c_rd' hw)) 4
         else if f3 = 7 then
           c_store c m pc (cpu_get c (c_rs1' hw) + ucast (c_imm_d hw)) (cpu_get c (c_rd' hw)) 8
         else (StepErr (bad pc hw), c, m))"

definition c_imm_16sp :: "u16 \<Rightarrow> u64" where
  "c_imm_16sp hw =
     (let imm = push_bit 9 (ucast (drop_bit 12 hw AND 0x1))
                OR push_bit 4 (ucast (drop_bit 6 hw AND 0x1))
                OR push_bit 6 (ucast (drop_bit 5 hw AND 0x1))
                OR push_bit 7 (ucast (drop_bit 3 hw AND 0x3))
                OR push_bit 5 (ucast (drop_bit 2 hw AND 0x1))
      in signed_drop_bit 54 (push_bit 54 imm))"

definition c_imm_lui :: "u16 \<Rightarrow> u64" where
  "c_imm_lui hw =
     (let imm = push_bit 17 (ucast (drop_bit 12 hw AND 0x1))
                OR push_bit 12 (ucast (drop_bit 2 hw AND 0x1f))
      in signed_drop_bit 46 (push_bit 46 imm))"

text \<open>\<open>c.addi16sp\<close> and \<open>c.lui\<close> (quadrant 1, \<open>funct3 = 011\<close>).\<close>

definition step_c_lui :: "cpu \<Rightarrow> mem \<Rightarrow> u64 \<Rightarrow> u16 \<Rightarrow> step_out" where
  "step_c_lui c m pc hw =
     (let rd = c_rd hw
      in if rd = 2 then
           (if c_imm_16sp hw = 0 then (StepErr (bad pc hw), c, m)
            else c_next (cpu_set c 2 (cpu_get c 2 + c_imm_16sp hw)) m pc)
         else if rd = 0 then c_next c m pc
         else if c_imm_lui hw = 0 then (StepErr (bad pc hw), c, m)
         else c_next (cpu_set c rd (c_imm_lui hw)) m pc)"

text \<open>Arithmetic on compressed registers (quadrant 1, \<open>funct3 = 100\<close>).\<close>

definition step_c_arith :: "cpu \<Rightarrow> mem \<Rightarrow> u64 \<Rightarrow> u16 \<Rightarrow> step_out" where
  "step_c_arith c m pc hw =
     (let dest = c_rs1' hw; sel = drop_bit 10 hw AND 3; a = cpu_get c dest;
          b = cpu_get c (c_rd' hw); fn = drop_bit 5 hw AND 3
      in if sel = 0 \<or> sel = 1 then
           (let shamt = c_shamt hw
            in if shamt = 0 then (StepErr (bad pc hw), c, m)
               else c_next (cpu_set c dest
                      (if sel = 0 then drop_bit (unat shamt) a else signed_drop_bit (unat shamt) a)) m pc)
         else if sel = 2 then c_next (cpu_set c dest (a AND c_imm6 hw)) m pc
         else if drop_bit 12 hw AND 0x1 = 0 then
           c_next (cpu_set c dest
             (if fn = 0 then a - b else if fn = 1 then a XOR b else if fn = 2 then a OR b else a AND b)) m pc
         else if fn = 0 then c_next (cpu_set c dest (scast ((ucast a :: u32) - ucast b))) m pc
         else if fn = 1 then c_next (cpu_set c dest (scast ((ucast a :: u32) + ucast b))) m pc
         else (StepErr (bad pc hw), c, m))"

definition step_c_q1 :: "cpu \<Rightarrow> mem \<Rightarrow> u64 \<Rightarrow> u16 \<Rightarrow> step_out" where
  "step_c_q1 c m pc hw =
     (let f3 = c_f3 hw; rd = c_rd hw; imm6 = c_imm6 hw
      in if f3 = 1 then
           (if rd = 0 then c_next c m pc
            else c_next (cpu_set c rd (scast ((ucast (cpu_get c rd) :: u32) + ucast imm6))) m pc)
         else if f3 = 2 then c_next (cpu_set c rd imm6) m pc
         else if f3 = 3 then step_c_lui c m pc hw
         else if f3 = 4 then step_c_arith c m pc hw
         else if f3 = 5 then (StepOk False, c\<lparr>cpu_pc := pc + cj_imm hw\<rparr>, m)
         else if f3 = 6 \<or> f3 = 7 then
           (let v = cpu_get c (c_rs1' hw); taken = (if f3 = 6 then v = 0 else v \<noteq> 0)
            in if taken then (StepOk False, c\<lparr>cpu_pc := pc + cb_imm hw\<rparr>, m) else c_next c m pc)
         else if rd \<noteq> 0 then c_next (cpu_set c rd (cpu_get c rd + imm6)) m pc
         else c_next c m pc)"

text \<open>Register moves, jumps and \<open>c.ebreak\<close> (quadrant 2, \<open>funct3 = 100\<close>).\<close>

definition step_c_jr_mv_add :: "cpu \<Rightarrow> mem \<Rightarrow> u64 \<Rightarrow> u16 \<Rightarrow> step_out" where
  "step_c_jr_mv_add c m pc hw =
     (let rd = c_rd hw; rs2 = c_rs2 hw; bit12 = drop_bit 12 hw AND 0x1
      in if bit12 = 0 then
           (if rs2 = 0 then
              (if rd = 0 then (StepErr (bad pc hw), c, m)
               else (StepOk False, c\<lparr>cpu_pc := cpu_get c rd AND NOT 1\<rparr>, m))
            else c_next (if rd \<noteq> 0 then cpu_set c rd (cpu_get c rs2) else c) m pc)
         else if rs2 = 0 then
           (if rd = 0 then (StepOk True, c, m)
            else
              (let target = cpu_get c rd AND NOT 1
               in (StepOk False, (cpu_set c 1 (pc + 2))\<lparr>cpu_pc := target\<rparr>, m)))
         else c_next (if rd \<noteq> 0 then cpu_set c rd (cpu_get c rd + cpu_get c rs2) else c) m pc)"

definition c_imm_lwsp :: "u16 \<Rightarrow> u16" where
  "c_imm_lwsp hw =
     push_bit 5 (drop_bit 12 hw AND 0x1) OR push_bit 2 (drop_bit 4 hw AND 0x7)
     OR push_bit 6 (drop_bit 2 hw AND 0x3)"

definition c_imm_ldsp :: "u16 \<Rightarrow> u16" where
  "c_imm_ldsp hw =
     push_bit 5 (drop_bit 12 hw AND 0x1) OR push_bit 3 (drop_bit 5 hw AND 0x3)
     OR push_bit 6 (drop_bit 2 hw AND 0x7)"

definition c_imm_swsp :: "u16 \<Rightarrow> u16" where
  "c_imm_swsp hw = push_bit 2 (drop_bit 9 hw AND 0xf) OR push_bit 6 (drop_bit 7 hw AND 0x3)"

definition c_imm_sdsp :: "u16 \<Rightarrow> u16" where
  "c_imm_sdsp hw = push_bit 3 (drop_bit 10 hw AND 0x7) OR push_bit 6 (drop_bit 7 hw AND 0x7)"

definition step_c_q2 :: "cpu \<Rightarrow> mem \<Rightarrow> u64 \<Rightarrow> u16 \<Rightarrow> step_out" where
  "step_c_q2 c m pc hw =
     (let f3 = c_f3 hw; rd = c_rd hw; rs2 = c_rs2 hw; sp = cpu_get c 2
      in if f3 = 0 then
           c_next (if rd \<noteq> 0 then cpu_set c rd (push_bit (unat (c_shamt hw)) (cpu_get c rd)) else c) m pc
         else if f3 = 2 then
           (if rd = 0 then (StepErr (bad pc hw), c, m)
            else c_load c m pc rd (sp + ucast (c_imm_lwsp hw)) 4)
         else if f3 = 3 then
           (if rd = 0 then (StepErr (bad pc hw), c, m)
            else c_load c m pc rd (sp + ucast (c_imm_ldsp hw)) 8)
         else if f3 = 4 then step_c_jr_mv_add c m pc hw
         else if f3 = 6 then c_store c m pc (sp + ucast (c_imm_swsp hw)) (cpu_get c rs2) 4
         else if f3 = 7 then c_store c m pc (sp + ucast (c_imm_sdsp hw)) (cpu_get c rs2) 8
         else (StepErr (bad pc hw), c, m))"

definition step_c :: "cpu \<Rightarrow> mem \<Rightarrow> u64 \<Rightarrow> u16 \<Rightarrow> step_out" where
  "step_c c m pc hw =
     (let op = hw AND 3
      in if op = 0 then step_c_q0 c m pc hw
         else if op = 1 then step_c_q1 c m pc hw
         else step_c_q2 c m pc hw)"

section \<open>One step\<close>

definition step_mode :: "cpu \<Rightarrow> mem \<Rightarrow> bool \<Rightarrow> u64 option \<Rightarrow> step_out" where
  "step_mode c m syscalls tohost_addr =
     (let pc = cpu_pc c
      in if pc \<ge> ADDR_SPACE then (StepErr FetchOutOfRange, c, m)
         else if pc mod 2 \<noteq> 0 then (StepErr FetchUnaligned, c, m)
         else
           (let (r, m) = mem_read m pc 2
            in (case r of
                  Inl _ \<Rightarrow> (StepErr FetchOutOfRange, c, m)
                | Inr v \<Rightarrow>
                    (let hw = ucast v :: u16
                     in if hw AND 3 \<noteq> 3 then step_c c m pc hw
                        else
                          (let (r, m) = mem_read m (pc + 2) 2
                           in (case r of
                                 Inl _ \<Rightarrow> (StepErr FetchOutOfRange, c, m)
                               | Inr hi \<Rightarrow>
                                   exec32 c m syscalls tohost_addr pc
                                     (push_bit 16 (ucast hi) OR ucast hw)))))))"

definition step :: "cpu \<Rightarrow> mem \<Rightarrow> step_out" where
  "step c m = step_mode c m False None"

section \<open>What a step depends on and what it keeps\<close>

text \<open>
  Two outcomes agree when they have the same result and the same machine and their memories hold
  the same pages and log; the machine has its 32 registers with \<open>x0 = 0\<close>, and both memories
  satisfy the representation invariant (part of \<open>mem_eq\<close>).
\<close>

definition out_eq :: "step_out \<Rightarrow> step_out \<Rightarrow> bool" where
  "out_eq o1 o2 \<longleftrightarrow>
     fst o1 = fst o2 \<and> fst (snd o1) = fst (snd o2) \<and> cpu_ok (fst (snd o1)) \<and>
     mem_eq (snd (snd o1)) (snd (snd o2))"

text \<open>The device latch and the syscall log are left alone.\<close>

definition out_keeps :: "cpu \<Rightarrow> mem \<Rightarrow> step_out \<Rightarrow> bool" where
  "out_keeps c m o1 \<longleftrightarrow>
     tohost (fst (snd o1)) = tohost c \<and> syscall_log (snd (snd o1)) = syscall_log m"

named_theorems arm_eq and arm_keeps and arm_defs

lemma out_eq_pair [arm_eq]:
  "r1 = r2 \<Longrightarrow> c1 = c2 \<Longrightarrow> cpu_ok c1 \<Longrightarrow> mem_eq m1 m2 \<Longrightarrow> out_eq (r1, c1, m1) (r2, c2, m2)"
  by (simp add: out_eq_def)

lemma out_eq_read [arm_eq]:
  assumes "mem_eq m1 m2"
    and "\<And>e n1 n2. mem_eq n1 n2 \<Longrightarrow> out_eq (g e n1) (g e n2)"
    and "\<And>v n1 n2. mem_eq n1 n2 \<Longrightarrow> out_eq (f v n1) (f v n2)"
  shows "out_eq (case mem_read m1 a n of (r, m) \<Rightarrow> (case r of Inl e \<Rightarrow> g e m | Inr v \<Rightarrow> f v m))
                (case mem_read m2 a n of (r, m) \<Rightarrow> (case r of Inl e \<Rightarrow> g e m | Inr v \<Rightarrow> f v m))"
  using rv_mem.rd_same [of m1 m2 a n] assms
  by (auto simp: mem_eq_same case_prod_unfold split: sum.split)

lemma out_eq_write [arm_eq]:
  assumes "mem_eq m1 m2"
    and "\<And>e n1 n2. mem_eq n1 n2 \<Longrightarrow> out_eq (g e n1) (g e n2)"
    and "\<And>v n1 n2. mem_eq n1 n2 \<Longrightarrow> out_eq (f v n1) (f v n2)"
  shows "out_eq (case mem_write m1 a bs of (r, m) \<Rightarrow> (case r of Inl e \<Rightarrow> g e m | Inr v \<Rightarrow> f v m))
                (case mem_write m2 a bs of (r, m) \<Rightarrow> (case r of Inl e \<Rightarrow> g e m | Inr v \<Rightarrow> f v m))"
  using rv_mem.wr_same [of m1 m2 a bs] assms
  by (auto simp: mem_eq_same case_prod_unfold split: sum.split)

lemma mem_read_log: "syscall_log (snd (mem_read m a n)) = syscall_log m" if "mem_ok m"
  using rv_mem.rd_state that by blast

lemma out_keeps_pair [arm_keeps]:
  "tohost c' = tohost c \<Longrightarrow> syscall_log m' = syscall_log m \<Longrightarrow> out_keeps c m (r, c', m')"
  by (simp add: out_keeps_def)

lemma out_keeps_read [arm_keeps]:
  assumes "mem_ok m1" and "syscall_log m1 = syscall_log m"
    and "\<And>e n. mem_ok n \<Longrightarrow> syscall_log n = syscall_log m \<Longrightarrow> out_keeps c m (g e n)"
    and "\<And>v n. mem_ok n \<Longrightarrow> syscall_log n = syscall_log m \<Longrightarrow> out_keeps c m (f v n)"
  shows "out_keeps c m
           (case mem_read m1 a n of (r, m) \<Rightarrow> (case r of Inl e \<Rightarrow> g e m | Inr v \<Rightarrow> f v m))"
  using rv_mem.rd_state [of m1 a n] assms by (auto simp: case_prod_unfold split: sum.split)

lemma out_keeps_write [arm_keeps]:
  assumes "mem_ok m1" and "syscall_log m1 = syscall_log m"
    and "\<And>e n. mem_ok n \<Longrightarrow> syscall_log n = syscall_log m \<Longrightarrow> out_keeps c m (g e n)"
    and "\<And>v n. mem_ok n \<Longrightarrow> syscall_log n = syscall_log m \<Longrightarrow> out_keeps c m (f v n)"
  shows "out_keeps c m
           (case mem_write m1 a bs of (r, m) \<Rightarrow> (case r of Inl e \<Rightarrow> g e m | Inr v \<Rightarrow> f v m))"
  using rv_mem.wr_state [of m1 a bs] assms by (auto simp: case_prod_unfold split: sum.split)

lemma tohost_set [simp]: "tohost (cpu_set c r v) = tohost c"
  by (simp add: cpu_set_def)

lemma csr_write_keeps [simp]:
  "cpu_ok (csr_write c n v) = cpu_ok c" "tohost (csr_write c n v) = tohost c"
  by (simp_all add: csr_write_def)

lemmas simple_arms = exec_lui_def exec_auipc_def exec_jal_def exec_jalr_def exec_branch_def
  exec_op_imm_def exec_op_imm_32_def exec_op_def exec_op_32_def exec_fence_def finish_alu_def
  exec_csr_def Let_def

lemma exec_simple_eq:
  assumes "cpu_ok c" and "mem_eq m1 m2"
  shows "out_eq (exec_lui c m1 pc inst) (exec_lui c m2 pc inst)"
    and "out_eq (exec_auipc c m1 pc inst) (exec_auipc c m2 pc inst)"
    and "out_eq (exec_jal c m1 pc inst) (exec_jal c m2 pc inst)"
    and "out_eq (exec_jalr c m1 pc inst) (exec_jalr c m2 pc inst)"
    and "out_eq (exec_branch c m1 pc inst) (exec_branch c m2 pc inst)"
    and "out_eq (exec_op_imm c m1 pc inst) (exec_op_imm c m2 pc inst)"
    and "out_eq (exec_op_imm_32 c m1 pc inst) (exec_op_imm_32 c m2 pc inst)"
    and "out_eq (exec_op c m1 pc inst) (exec_op c m2 pc inst)"
    and "out_eq (exec_op_32 c m1 pc inst) (exec_op_32 c m2 pc inst)"
    and "out_eq (exec_fence c m1 pc inst) (exec_fence c m2 pc inst)"
    and "out_eq (exec_csr c m1 pc inst) (exec_csr c m2 pc inst)"
  using assms by (simp_all add: simple_arms out_eq_def split: option.split alu_res.split)

lemma exec_simple_keeps:
  shows "out_keeps c m (exec_lui c m pc inst)"
    and "out_keeps c m (exec_auipc c m pc inst)"
    and "out_keeps c m (exec_jal c m pc inst)"
    and "out_keeps c m (exec_jalr c m pc inst)"
    and "out_keeps c m (exec_branch c m pc inst)"
    and "out_keeps c m (exec_op_imm c m pc inst)"
    and "out_keeps c m (exec_op_imm_32 c m pc inst)"
    and "out_keeps c m (exec_op c m pc inst)"
    and "out_keeps c m (exec_op_32 c m pc inst)"
    and "out_keeps c m (exec_fence c m pc inst)"
    and "out_keeps c m (exec_csr c m pc inst)"
  by (simp_all add: simple_arms out_keeps_def split: option.split alu_res.split)

lemma exec_load_eq:
  "cpu_ok c \<Longrightarrow> mem_eq m1 m2 \<Longrightarrow> out_eq (exec_load c m1 pc inst) (exec_load c m2 pc inst)"
  by (auto simp: exec_load_def Let_def intro!: arm_eq split: option.split)

lemma exec_load_keeps: "mem_ok m \<Longrightarrow> out_keeps c m (exec_load c m pc inst)"
  by (auto simp: exec_load_def Let_def intro!: arm_keeps split: option.split)

lemma exec_store_eq:
  "cpu_ok c \<Longrightarrow> mem_eq m1 m2 \<Longrightarrow>
     out_eq (exec_store c m1 tohost_addr pc inst) (exec_store c m2 tohost_addr pc inst)"
  by (auto simp: exec_store_def Let_def intro!: arm_eq split: option.split)

lemma exec_store_keeps: "mem_ok m \<Longrightarrow> out_keeps c m (exec_store c m None pc inst)"
  by (auto simp: exec_store_def Let_def intro!: arm_keeps split: option.split)

lemma mem_eq_log:
  "mem_eq m1 m2 \<Longrightarrow> mem_eq (m1\<lparr>syscall_log := syscall_log m1 @ bs\<rparr>) (m2\<lparr>syscall_log := syscall_log m2 @ bs\<rparr>)"
  by (simp add: mem_eq_def)

lemma do_syscall_eq:
  assumes "cpu_ok c" and "mem_eq m1 m2"
  shows "out_eq (do_syscall c m1) (do_syscall c m2)"
proof -
  have "read_region m1 a n = read_region m2 a n" for a n
    using assms(2) rv_mem.region_same by (simp add: mem_eq_same)
  then show ?thesis
    using assms mem_eq_log [OF assms(2)]
    by (simp add: do_syscall_def Let_def out_eq_def split: sum.split)
qed

lemma exec_system_eq:
  "cpu_ok c \<Longrightarrow> mem_eq m1 m2 \<Longrightarrow>
     out_eq (exec_system c m1 syscalls pc inst) (exec_system c m2 syscalls pc inst)"
  by (simp add: exec_system_def Let_def do_syscall_eq exec_simple_eq(11) out_eq_pair)

lemma exec_system_keeps: "out_keeps c m (exec_system c m False pc inst)"
  using exec_simple_keeps(11) [of c m] by (simp add: exec_system_def Let_def out_keeps_def)

lemmas exec_arm_eq = exec_simple_eq exec_load_eq exec_store_eq exec_system_eq
lemmas exec_arm_keeps = exec_simple_keeps exec_load_keeps exec_store_keeps exec_system_keeps

lemma exec32_eq:
  assumes "cpu_ok c" and "mem_eq m1 m2"
  shows "out_eq (exec32 c m1 syscalls tohost_addr pc inst) (exec32 c m2 syscalls tohost_addr pc inst)"
  unfolding exec32_def Let_def using assms
  by (simp add: exec_arm_eq out_eq_pair)

lemma exec32_keeps:
  assumes "mem_ok m"
  shows "out_keeps c m (exec32 c m False None pc inst)"
  unfolding exec32_def Let_def using assms by (simp add: exec_arm_keeps out_keeps_pair)

lemma c_next_eq [arm_eq]: "cpu_ok c \<Longrightarrow> mem_eq m1 m2 \<Longrightarrow> out_eq (c_next c m1 pc) (c_next c m2 pc)"
  by (simp add: c_next_def out_eq_def)

lemma c_next_keeps [arm_keeps]:
  "tohost c' = tohost c \<Longrightarrow> syscall_log m' = syscall_log m \<Longrightarrow> out_keeps c m (c_next c' m' pc)"
  by (simp add: c_next_def out_keeps_def)

lemma c_load_eq: "cpu_ok c \<Longrightarrow> mem_eq m1 m2 \<Longrightarrow> out_eq (c_load c m1 pc rd a n) (c_load c m2 pc rd a n)"
  by (auto simp: c_load_def Let_def intro!: arm_eq)

lemma c_load_keeps: "mem_ok m \<Longrightarrow> out_keeps c m (c_load c m pc rd a n)"
  by (auto simp: c_load_def Let_def intro!: arm_keeps)

lemma c_store_eq: "cpu_ok c \<Longrightarrow> mem_eq m1 m2 \<Longrightarrow> out_eq (c_store c m1 pc a v n) (c_store c m2 pc a v n)"
  by (auto simp: c_store_def Let_def intro!: arm_eq)

lemma c_store_keeps: "mem_ok m \<Longrightarrow> out_keeps c m (c_store c m pc a v n)"
  by (auto simp: c_store_def Let_def intro!: arm_keeps)

lemmas step_c_defs = step_c_def step_c_q0_def step_c_q1_def step_c_q2_def step_c_lui_def
  step_c_arith_def step_c_jr_mv_add_def

lemma step_c_eq:
  assumes "cpu_ok c" and "mem_eq m1 m2"
  shows "out_eq (step_c c m1 pc hw) (step_c c m2 pc hw)"
  unfolding step_c_defs Let_def using assms
  by (simp add: c_load_eq c_store_eq c_next_eq out_eq_pair)

lemma step_c_keeps:
  assumes "mem_ok m"
  shows "out_keeps c m (step_c c m pc hw)"
  unfolding step_c_defs Let_def using assms
  by (simp add: c_load_keeps c_store_keeps c_next_keeps out_keeps_pair)

lemma step_mode_eq:
  assumes "cpu_ok c" and "mem_eq m1 m2"
  shows "out_eq (step_mode c m1 syscalls tohost_addr) (step_mode c m2 syscalls tohost_addr)"
  unfolding step_mode_def Let_def using assms
  by (auto intro!: arm_eq step_c_eq exec32_eq)

lemma out_keeps_log: "syscall_log n = syscall_log m \<Longrightarrow> out_keeps c m x = out_keeps c n x"
  by (simp add: out_keeps_def)

lemma step_c_keeps':
  "mem_ok n \<Longrightarrow> syscall_log n = syscall_log m \<Longrightarrow> out_keeps c m (step_c c n pc hw)"
  using step_c_keeps [of n c] out_keeps_log [of n m] by simp

lemma exec32_keeps':
  "mem_ok n \<Longrightarrow> syscall_log n = syscall_log m \<Longrightarrow> out_keeps c m (exec32 c n False None pc inst)"
  using exec32_keeps [of n c] out_keeps_log [of n m] by simp

lemma step_keeps:
  assumes "mem_ok m"
  shows "out_keeps c m (step c m)"
  unfolding step_def step_mode_def Let_def using assms
  by (auto intro!: arm_keeps step_c_keeps' exec32_keeps')

lemma step_mode_ok:
  assumes "cpu_ok c" and "mem_ok m" and "step_mode c m syscalls tohost_addr = (r, c', m')"
  shows "cpu_ok c'" and "mem_ok m'"
  using step_mode_eq [OF assms(1) mem_eq_refl [OF assms(2)], of syscalls tohost_addr] assms(3)
  by (simp_all add: out_eq_def mem_eq_def)

text \<open>A step that halts leaves the machine where it is.\<close>

definition halts_in_place :: "cpu \<Rightarrow> mem \<Rightarrow> step_out \<Rightarrow> bool" where
  "halts_in_place c m o1 \<longleftrightarrow> (fst o1 = StepOk True \<longrightarrow> snd o1 = (c, m))"

lemma halts_in_place_simps [simp]:
  "halts_in_place c m (StepOk False, x)" "halts_in_place c m (StepErr t, x)"
  "halts_in_place c m (StepPanic, x)" "halts_in_place c m (r, c, m)"
  by (simp_all add: halts_in_place_def)

lemma exec_arm_halts:
  shows "halts_in_place c m (exec_lui c m pc inst)"
    and "halts_in_place c m (exec_auipc c m pc inst)"
    and "halts_in_place c m (exec_jal c m pc inst)"
    and "halts_in_place c m (exec_jalr c m pc inst)"
    and "halts_in_place c m (exec_branch c m pc inst)"
    and "halts_in_place c m (exec_op_imm c m pc inst)"
    and "halts_in_place c m (exec_op_imm_32 c m pc inst)"
    and "halts_in_place c m (exec_op c m pc inst)"
    and "halts_in_place c m (exec_op_32 c m pc inst)"
    and "halts_in_place c m (exec_fence c m pc inst)"
    and "halts_in_place c m (exec_csr c m pc inst)"
    and "halts_in_place c m (exec_load c m pc inst)"
    and "halts_in_place c m (exec_store c m tohost_addr pc inst)"
    and "halts_in_place c m (do_syscall c m)"
  by (simp_all add: simple_arms exec_load_def exec_store_def do_syscall_def case_prod_unfold
      split: option.split alu_res.split sum.split)

lemma exec32_halts: "halts_in_place c m (exec32 c m syscalls tohost_addr pc inst)"
  unfolding exec32_def exec_system_def Let_def by (simp add: exec_arm_halts)

lemma c_arm_halts:
  "halts_in_place c m (c_next c' m' pc)" "halts_in_place c m (c_load c m pc rd a n)"
  "halts_in_place c m (c_store c m pc a v n)"
  by (simp_all add: c_next_def c_load_def c_store_def Let_def case_prod_unfold split: sum.split)

lemma step_c_halts: "halts_in_place c m (step_c c m pc hw)"
  unfolding step_c_defs Let_def by (simp add: c_arm_halts)

lemma haltD:
  "step_c c m pc hw = (StepOk True, c', m') \<Longrightarrow> c' = c \<and> m' = m"
  "exec32 c m syscalls tohost_addr pc inst = (StepOk True, c', m') \<Longrightarrow> c' = c \<and> m' = m"
  using step_c_halts [of c m pc hw] exec32_halts [of c m syscalls tohost_addr pc inst]
  by (auto simp: halts_in_place_def)

lemma mem_eq_read: "mem_ok m \<Longrightarrow> mem_eq (snd (mem_read m a n)) m"
  using rv_mem.rd_state [of m a n] by (simp add: mem_eq_same rv_mem.same_def)

lemma step_mode_halt:
  assumes "mem_ok m" and "step_mode c m syscalls tohost_addr = (StepOk True, c', m')"
  shows "c' = c \<and> mem_eq m' m"
proof -
  let ?m1 = "snd (mem_read m (cpu_pc c) 2)"
  let ?m2 = "snd (mem_read ?m1 (cpu_pc c + 2) 2)"
  have 1: "mem_eq ?m1 m" using mem_eq_read assms(1) .
  then have "mem_ok ?m1" by (simp add: mem_eq_def)
  then have 2: "mem_eq ?m2 m" using mem_eq_trans [OF mem_eq_read 1] by blast
  have "c' = c \<and> m' \<in> {?m1, ?m2}"
    using assms(2)
    by (auto simp: step_mode_def Let_def case_prod_unfold split: if_splits sum.splits dest!: haltD)
  then show ?thesis using 1 2 by auto
qed

text \<open>
  C18: One step is a function of the machine and of what memory holds. Its result, the machine it
  leaves and the contents it leaves are the same for every memory with the same pages and log,
  however those pages were allocated and whatever the lookaside caches; \<open>x0\<close> stays zero, and the
  memory's representation invariant is kept.
\<close>

theorem step_mode_determined:
  assumes "cpu_ok c" and "mem_ok m1" and "mem_ok m2" and "page_iter m1 = page_iter m2"
    and "syscall_log m1 = syscall_log m2"
    and "step_mode c m1 syscalls tohost_addr = (r1, c1, m1')"
    and "step_mode c m2 syscalls tohost_addr = (r2, c2, m2')"
  shows "r1 = r2 \<and> c1 = c2 \<and> page_iter m1' = page_iter m2' \<and> syscall_log m1' = syscall_log m2' \<and>
         cpu_ok c1 \<and> mem_ok m1' \<and> mem_ok m2'"
  using step_mode_eq [of c m1 m2 syscalls tohost_addr] assms by (auto simp: out_eq_def mem_eq_def)

theorem step_mode_determined_witness:
  "\<exists>r c m. step_mode (cpu_new 0 64) mem_new False None = (r, c, m) \<and> cpu_ok c \<and> mem_ok m"
proof -
  obtain r c m where s: "step_mode (cpu_new 0 64) mem_new False None = (r, c, m)" by (metis prod_cases3)
  show ?thesis using step_mode_determined [OF cpu_ok_new mem_ok_new mem_ok_new refl refl s s] s by blast
qed

end
