(* ===== verification/Isa.thy ===== *)
theory Isa
  imports Interp
begin

text \<open>
  The interpreter against the RISC-V manual: the immediates of the five instruction formats, and
  the M extension (\<open>MUL\<close> to \<open>REMU\<close> and the W forms) as arithmetic on integers.
  The reference definitions of this theory are the manual's; the subject is \<open>Interp\<close>.
\<close>

section \<open>Immediates\<close>

text \<open>
  Figure "types of immediate produced by RISC-V instructions" of the manual: the instruction bit
  that every bit of the 64-bit immediate comes from (\<open>None\<close>: the bit is zero).
\<close>

definition isa_imm_i :: "nat \<Rightarrow> nat option" where
  "isa_imm_i n = (if n < 11 then Some (n + 20) else Some 31)"

definition isa_imm_s :: "nat \<Rightarrow> nat option" where
  "isa_imm_s n = (if n < 5 then Some (n + 7) else if n < 11 then Some (n + 20) else Some 31)"

definition isa_imm_b :: "nat \<Rightarrow> nat option" where
  "isa_imm_b n =
     (if n = 0 then None else if n < 5 then Some (n + 7) else if n < 11 then Some (n + 20)
      else if n = 11 then Some 7 else Some 31)"

definition isa_imm_u :: "nat \<Rightarrow> nat option" where
  "isa_imm_u n = (if n < 12 then None else if n < 31 then Some n else Some 31)"

definition isa_imm_j :: "nat \<Rightarrow> nat option" where
  "isa_imm_j n =
     (if n = 0 then None else if n < 11 then Some (n + 20) else if n = 11 then Some 20
      else if n < 20 then Some n else Some 31)"

definition imm_matches :: "(nat \<Rightarrow> nat option) \<Rightarrow> u32 \<Rightarrow> u64 \<Rightarrow> bool" where
  "imm_matches tab inst v \<longleftrightarrow>
     (\<forall>n < 64. bit v n = (case tab n of None \<Rightarrow> False | Some k \<Rightarrow> bit inst k))"

lemma imm_matches_list:
  "imm_matches tab inst v \<longleftrightarrow>
     list_all (\<lambda>n. bit v n = (case tab n of None \<Rightarrow> False | Some k \<Rightarrow> bit inst k)) [0..<64]"
  by (auto simp: imm_matches_def list_all_iff)

lemma upt_64: "[0..<64] = [0,1,2,3,4,5,6,7,8,9,10,11,12,13,14,15,16,17,18,19,20,21,22,23,24,25,26,
    27,28,29,30,31,32,33,34,35,36,37,38,39,40,41,42,43,44,45,46,47,48,49,50,51,52,53,54,55,56,57,58,
    59,60,61,62,63]"
  by (simp add: upt_rec)

lemma bit_scast_u32: "bit (scast (w :: u32) :: u64) n \<longleftrightarrow> n < 64 \<and> bit w (if n < 31 then n else 31)"
  by (auto simp: bit_simps min_def)

lemma bit_sdrop:
  "bit (signed_drop_bit k (w :: u32)) n \<longleftrightarrow> n < 32 \<and> bit w (if k + n < 31 then k + n else 31)"
  using bit_imp_le_length [of w "k + n"]
  by (auto simp: bit_signed_drop_bit_iff not_less le_less_Suc_eq dest: le_antisym)

lemmas imm_eval = imm_matches_list upt_64 bit_scast_u32 bit_sdrop bit_and_iff bit_or_iff bit_not_iff
  bit_push_bit_iff bit_drop_bit_eq bit_unsigned_iff

lemma imm_i_table: "imm_matches isa_imm_i inst (imm_i inst)"
  by (simp add: imm_eval isa_imm_i_def imm_i_def)

lemma imm_s_table: "imm_matches isa_imm_s inst (imm_s inst)"
  by (simp add: imm_eval isa_imm_s_def imm_s_def)

lemma imm_b_table: "imm_matches isa_imm_b inst (imm_b inst)"
  by (simp add: imm_eval isa_imm_b_def imm_b_def del: push_bit_Suc)

lemma imm_u_table: "imm_matches isa_imm_u inst (imm_u inst)"
  by (simp add: imm_eval isa_imm_u_def imm_u_def)

lemma imm_j_table: "imm_matches isa_imm_j inst (imm_j inst)"
  by (simp add: imm_eval isa_imm_j_def imm_j_def del: push_bit_Suc)

text \<open>
  For every 32-bit instruction word, the five immediates the interpreter decodes are, bit for
  bit over all 64 bits, the I, S, B, U and J immediates of the RISC-V manual, sign extension
  included.
\<close>

theorem immediates_match_manual:
  "imm_matches isa_imm_i inst (imm_i inst) \<and> imm_matches isa_imm_s inst (imm_s inst) \<and>
   imm_matches isa_imm_b inst (imm_b inst) \<and> imm_matches isa_imm_u inst (imm_u inst) \<and>
   imm_matches isa_imm_j inst (imm_j inst)"
  by (simp add: imm_i_table imm_s_table imm_b_table imm_u_table imm_j_table)

section \<open>The M extension\<close>

text \<open>The manual's results on integers, for words of any width; \<open>f3\<close> selects the operation.\<close>

definition isa_mul_div :: "u32 \<Rightarrow> 'a::len word \<Rightarrow> 'a word \<Rightarrow> 'a word" where
  "isa_mul_div f3 a b =
     (if f3 = 0 then word_of_int (sint a * sint b)
      else if f3 = 1 then word_of_int ((sint a * sint b) div 2 ^ LENGTH('a))
      else if f3 = 2 then word_of_int ((sint a * uint b) div 2 ^ LENGTH('a))
      else if f3 = 3 then word_of_int ((uint a * uint b) div 2 ^ LENGTH('a))
      else if f3 = 4 then (if b = 0 then - 1 else word_of_int (sint a sdiv sint b))
      else if f3 = 5 then (if b = 0 then - 1 else word_of_int (uint a div uint b))
      else if f3 = 6 then (if b = 0 then a else word_of_int (sint a smod sint b))
      else (if b = 0 then a else word_of_int (uint a mod uint b)))"

lemma sint_range_u64: "- (2 ^ 63) \<le> sint (a :: u64)" "sint (a :: u64) < 2 ^ 63"
  using sint_greater_eq [of a] sint_less [of a] by simp_all

lemma uint_range_u64: "0 \<le> uint (a :: u64)" "uint (a :: u64) < 2 ^ 64"
  using uint_bounded [of a] by simp_all

lemma ucast_u128_sint: "(ucast (w :: u128) :: u64) = word_of_int (sint w)"
  by (rule bit_word_eqI) (auto simp: bit_simps min_def)

lemma ucast_u128_uint: "(ucast (w :: u128) :: u64) = word_of_int (uint w)"
  by (rule bit_word_eqI) (auto simp: bit_simps)

lemma sint_u128_of_int: "- (2 ^ 127) \<le> i \<Longrightarrow> i < 2 ^ 127 \<Longrightarrow> sint (word_of_int i :: u128) = i"
  by (simp add: int_word_sint)

lemma high_half_signed:
  assumes "- (2 ^ 127) \<le> i" and "i < 2 ^ 127"
  shows "(ucast (signed_drop_bit 64 (word_of_int i :: u128)) :: u64) = word_of_int (i div 2 ^ 64)"
  unfolding ucast_u128_sint sint_signed_drop_bit_eq sint_u128_of_int [OF assms] drop_bit_eq_div ..

lemma high_half_unsigned:
  assumes "0 \<le> i" and "i < 2 ^ 128"
  shows "(ucast (drop_bit 64 (word_of_int i :: u128)) :: u64) = word_of_int (i div 2 ^ 64)"
proof -
  have "uint (word_of_int i :: u128) = i" using assms by (simp add: uint_word_of_int)
  then have "uint (drop_bit 64 (word_of_int i :: u128)) = i div 2 ^ 64"
    by (simp add: drop_bit_eq_div uint_div)
  then show ?thesis by (simp only: ucast_u128_uint)
qed

lemma prod_range_ss: "- (2 ^ 127) \<le> sint (a :: u64) * sint (b :: u64) \<and> sint a * sint b < 2 ^ 127"
proof -
  have "\<bar>sint a * sint b\<bar> \<le> 2 ^ 63 * 2 ^ 63"
    unfolding abs_mult using sint_range_u64 [of a] sint_range_u64 [of b]
    by (intro mult_mono) auto
  then show ?thesis by (auto simp: abs_le_iff)
qed

lemma prod_range_su: "- (2 ^ 127) \<le> sint (a :: u64) * uint (b :: u64) \<and> sint a * uint b < 2 ^ 127"
proof -
  have "\<bar>sint a * uint b\<bar> \<le> 2 ^ 63 * (2 ^ 64 - 1)"
    unfolding abs_mult using sint_range_u64 [of a] uint_range_u64 [of b]
    by (intro mult_mono) auto
  then show ?thesis by (auto simp: abs_le_iff)
qed

lemma prod_range_uu: "uint (a :: u64) * uint (b :: u64) < 2 ^ 128"
proof -
  have "uint a * uint b \<le> (2 ^ 64 - 1) * (2 ^ 64 - 1)"
    using uint_range_u64 [of a] uint_range_u64 [of b] by (intro mult_mono) auto
  then show ?thesis by simp
qed

lemma alu_op_mul: "alu_op 1 0 a b = AVal (isa_mul_div 0 a b)"
  by (simp add: alu_op_def isa_mul_div_def)

lemma alu_op_mulh: "alu_op 1 1 a b = AVal (isa_mul_div 1 a b)"
proof -
  have "alu_op 1 1 a b = AVal (ucast (signed_drop_bit 64 ((scast a :: u128) * scast b)))"
    by (simp add: alu_op_def)
  also have "(scast a :: u128) * scast b = word_of_int (sint a * sint b)" by simp
  also have "ucast (signed_drop_bit 64 (word_of_int (sint a * sint b) :: u128)) = isa_mul_div 1 a b"
    using prod_range_ss [of a b] by (simp only: high_half_signed) (simp add: isa_mul_div_def)
  finally show ?thesis .
qed

lemma alu_op_mulhsu: "alu_op 1 2 a b = AVal (isa_mul_div 2 a b)"
proof -
  have "alu_op 1 2 a b = AVal (ucast (signed_drop_bit 64 ((scast a :: u128) * ucast b)))"
    by (simp add: alu_op_def)
  also have "(scast a :: u128) * ucast b = word_of_int (sint a * uint b)" by simp
  also have "ucast (signed_drop_bit 64 (word_of_int (sint a * uint b) :: u128)) = isa_mul_div 2 a b"
    using prod_range_su [of a b] by (simp only: high_half_signed) (simp add: isa_mul_div_def)
  finally show ?thesis .
qed

lemma alu_op_mulhu: "alu_op 1 3 a b = AVal (isa_mul_div 3 a b)"
proof -
  have "alu_op 1 3 a b = AVal (ucast (drop_bit 64 ((ucast a :: u128) * ucast b)))"
    by (simp add: alu_op_def)
  also have "(ucast a :: u128) * ucast b = word_of_int (uint a * uint b)" by simp
  also have "ucast (drop_bit 64 (word_of_int (uint a * uint b) :: u128)) = isa_mul_div 3 a b"
    using prod_range_uu [of a b] by (simp only: high_half_unsigned uint_mult_ge0) (simp add: isa_mul_div_def)
  finally show ?thesis .
qed

text \<open>Signed division: the one overflow, \<open>MIN / -1\<close>, wraps to \<open>MIN\<close> with remainder 0.\<close>

lemma checked_sdiv_isa:
  "b \<noteq> 0 \<Longrightarrow> checked_sdiv a b = Some q \<Longrightarrow> word_of_int (sint a sdiv sint b) = q"
  by (simp add: checked_sdiv_def split: if_splits)

lemma checked_srem_isa:
  "b \<noteq> 0 \<Longrightarrow> checked_srem a b = Some q \<Longrightarrow> word_of_int (sint a smod sint b) = q"
  by (simp add: checked_srem_def split: if_splits)

lemma sdiv_overflow_u64:
  fixes a b :: u64
  assumes "b \<noteq> 0" and "checked_sdiv a b = None"
  shows "word_of_int (sint a sdiv sint b) = (0x8000000000000000 :: u64)"
proof -
  have *: "sint a = - (2 ^ 63)" "sint b = - 1" using assms by (simp_all add: checked_sdiv_def split: if_splits)
  show ?thesis unfolding * by (simp add: signed_divide_int_def)
qed

lemma srem_overflow_u64:
  fixes a b :: u64
  assumes "b \<noteq> 0" and "checked_srem a b = None"
  shows "word_of_int (sint a smod sint b) = (0 :: u64)"
proof -
  have *: "sint a = - (2 ^ 63)" "sint b = - 1" using assms by (simp_all add: checked_srem_def split: if_splits)
  show ?thesis unfolding * by (simp add: signed_modulo_int_def)
qed

lemma sdiv_overflow_u32:
  fixes a b :: u32
  assumes "b \<noteq> 0" and "checked_sdiv a b = None"
  shows "word_of_int (sint a sdiv sint b) = (0x80000000 :: u32)"
proof -
  have *: "sint a = - (2 ^ 31)" "sint b = - 1" using assms by (simp_all add: checked_sdiv_def split: if_splits)
  show ?thesis unfolding * by (simp add: signed_divide_int_def)
qed

lemma srem_overflow_u32:
  fixes a b :: u32
  assumes "b \<noteq> 0" and "checked_srem a b = None"
  shows "word_of_int (sint a smod sint b) = (0 :: u32)"
proof -
  have *: "sint a = - (2 ^ 31)" "sint b = - 1" using assms by (simp_all add: checked_srem_def split: if_splits)
  show ?thesis unfolding * by (simp add: signed_modulo_int_def)
qed

lemma div_isa: "word_of_int (uint a div uint b) = (a div b :: 'a::len word)"
  by (simp add: word_div_def)

lemma mod_isa: "word_of_int (uint a mod uint b) = (a mod b :: 'a::len word)"
  by (simp add: word_mod_def)

lemma checked_zero: "checked_sdiv a 0 = None" "checked_srem a 0 = None"
  by (simp_all add: checked_sdiv_def checked_srem_def)

lemma alu_op_div: "alu_op 1 4 a b = AVal (isa_mul_div 4 a b)"
  by (cases "checked_sdiv a b")
    (auto simp: alu_op_def isa_mul_div_def checked_zero checked_sdiv_isa sdiv_overflow_u64)

lemma alu_op_divu: "alu_op 1 5 a b = AVal (isa_mul_div 5 a b)"
  by (simp add: alu_op_def isa_mul_div_def div_isa)

lemma alu_op_rem: "alu_op 1 6 a b = AVal (isa_mul_div 6 a b)"
  by (cases "checked_srem a b")
    (auto simp: alu_op_def isa_mul_div_def checked_zero checked_srem_isa srem_overflow_u64)

lemma alu_op_remu: "alu_op 1 7 a b = AVal (isa_mul_div 7 a b)"
  by (simp add: alu_op_def isa_mul_div_def mod_isa)

lemma f3_cases:
  assumes "(f3 :: u32) < 8"
  shows "f3 \<in> {0, 1, 2, 3, 4, 5, 6, 7}"
proof -
  have "unat f3 < 8" using assms by (simp add: word_less_nat_alt)
  then have "unat f3 \<in> {0, 1, 2, 3, 4, 5, 6, 7}" by auto
  then show ?thesis by (simp add: word_unat_eq_iff)
qed

text \<open>
  C34: The eight 64-bit multiply and divide instructions compute what the RISC-V manual says, for
  all operands: low and high halves of the signed, mixed and unsigned products; truncating
  division; \<open>-1\<close> and the dividend on division by zero; \<open>MIN\<close> and 0 on signed overflow.
\<close>

theorem m_extension_matches_manual:
  assumes "f3 < 8"
  shows "alu_op 1 f3 a b = AVal (isa_mul_div f3 a b)"
  using f3_cases [OF assms]
  by (auto simp: alu_op_mul alu_op_mulh alu_op_mulhsu alu_op_mulhu alu_op_div alu_op_divu
      alu_op_rem alu_op_remu)

theorem m_extension_matches_manual_witness:
  "(5 :: u32) < 8 \<and> alu_op 1 5 7 0 = AVal (isa_mul_div 5 7 0)"
  using m_extension_matches_manual [of 5 7 0] by simp

text \<open>The W forms with an operand \<open>funct3\<close> among \<open>MULW\<close>, \<open>DIVW\<close>, \<open>DIVUW\<close>, \<open>REMW\<close>, \<open>REMUW\<close>.\<close>

lemma alu_op_32_mulw: "alu_op_32 1 0 a b = AVal (scast (isa_mul_div 0 (ucast a :: u32) (ucast b)))"
  by (simp add: alu_op_32_def isa_mul_div_def)

lemma alu_op_32_nz:
  assumes "(ucast b :: u32) \<noteq> 0"
  shows "alu_op_32 1 4 a b = AVal (scast (isa_mul_div 4 (ucast a :: u32) (ucast b)))"
    and "alu_op_32 1 5 a b = AVal (scast (isa_mul_div 5 (ucast a :: u32) (ucast b)))"
    and "alu_op_32 1 6 a b = AVal (scast (isa_mul_div 6 (ucast a :: u32) (ucast b)))"
    and "alu_op_32 1 7 a b = AVal (scast (isa_mul_div 7 (ucast a :: u32) (ucast b)))"
proof -
  have b: "b \<noteq> 0" using assms by auto
  show "alu_op_32 1 4 a b = AVal (scast (isa_mul_div 4 (ucast a :: u32) (ucast b)))"
    using assms b sdiv_overflow_u32 [of "ucast b" "ucast a"]
    by (cases "checked_sdiv (ucast a :: u32) (ucast b)")
      (simp_all add: alu_op_32_def isa_mul_div_def checked_sdiv_isa)
  show "alu_op_32 1 5 a b = AVal (scast (isa_mul_div 5 (ucast a :: u32) (ucast b)))"
    using assms b by (simp add: alu_op_32_def isa_mul_div_def div_isa)
  show "alu_op_32 1 6 a b = AVal (scast (isa_mul_div 6 (ucast a :: u32) (ucast b)))"
    using assms b srem_overflow_u32 [of "ucast b" "ucast a"]
    by (cases "checked_srem (ucast a :: u32) (ucast b)")
      (simp_all add: alu_op_32_def isa_mul_div_def checked_srem_isa)
  show "alu_op_32 1 7 a b = AVal (scast (isa_mul_div 7 (ucast a :: u32) (ucast b)))"
    using assms b by (simp add: alu_op_32_def isa_mul_div_def mod_isa)
qed

lemma alu_op_32_zero:
  "alu_op_32 1 4 a 0 = AVal (scast (isa_mul_div 4 (ucast a :: u32) 0))"
  "alu_op_32 1 5 a 0 = AVal (scast (isa_mul_div 5 (ucast a :: u32) 0))"
  "alu_op_32 1 6 a 0 = AVal (scast (isa_mul_div 6 (ucast a :: u32) 0))"
  "alu_op_32 1 7 a 0 = AVal (scast (isa_mul_div 7 (ucast a :: u32) 0))"
  by (simp_all add: alu_op_32_def isa_mul_div_def checked_zero)

text \<open>
  C16: \<open>MULW\<close>, \<open>DIVW\<close>, \<open>DIVUW\<close>, \<open>REMW\<close> and \<open>REMUW\<close> compute the sign-extended 32-bit results of
  the manual whenever the divisor register is zero as a whole or has a nonzero low word.
\<close>

theorem w_forms_match_manual:
  assumes "f3 = 0 \<or> f3 = 4 \<or> f3 = 5 \<or> f3 = 6 \<or> f3 = 7" and "b = 0 \<or> (ucast b :: u32) \<noteq> 0"
  shows "alu_op_32 1 f3 a b = AVal (scast (isa_mul_div f3 (ucast a :: u32) (ucast b)))"
  using assms by (auto simp: alu_op_32_mulw alu_op_32_nz alu_op_32_zero)

theorem w_forms_match_manual_witness:
  "(4 :: u32) = 4 \<and> (ucast (3 :: u64) :: u32) \<noteq> 0 \<and>
   alu_op_32 1 4 (- 7) 3 = AVal (scast (isa_mul_div 4 (ucast (- 7 :: u64) :: u32) (ucast (3 :: u64))))"
  using w_forms_match_manual [of 4 3 "- 7"] by simp

text \<open>
  C35: Where the divisor register is not zero but its low word is, the guard \<open>b == 0\<close> of the W
  forms looks at the wrong width: \<open>DIVUW\<close> and \<open>REMUW\<close> panic, \<open>DIVW\<close> yields \<open>i32::MIN\<close> where the
  manual has \<open>-1\<close>, and \<open>REMW\<close> yields 0 where the manual has the dividend.
\<close>

theorem w_forms_low_word_zero:
  assumes "b \<noteq> 0" and "(ucast b :: u32) = 0"
  shows "alu_op_32 1 5 a b = APanic \<and> alu_op_32 1 7 a b = APanic \<and>
         alu_op_32 1 4 a b = AVal 0xffffffff80000000 \<and> alu_op_32 1 6 a b = AVal 0 \<and>
         isa_mul_div 4 (ucast a :: u32) (ucast b) = - 1 \<and>
         isa_mul_div 6 (ucast a :: u32) (ucast b) = ucast a"
  using assms by (simp_all add: alu_op_32_def isa_mul_div_def checked_zero)

theorem w_forms_low_word_zero_witness:
  "(0x100000000 :: u64) \<noteq> 0 \<and> alu_op_32 1 5 9 0x100000000 = APanic"
  using w_forms_low_word_zero [of "0x100000000" 9] by simp

end
