(* ===== verification/Os.thy ===== *)
theory Os
  imports Prelude
begin

text \<open>
  The operating system's file operations are parameters of the model, bundled in one record:
  \<open>std::fs::read\<close>, \<open>write\<close>, \<open>create_dir_all\<close>, \<open>Path::exists\<close> and \<open>read_dir\<close>. \<open>os_ok\<close> states what
  the code relies on; \<open>disk\<close> is a concrete file system that satisfies it.
\<close>

record ('fs, 'e) os =
  os_read :: "'fs \<Rightarrow> string \<Rightarrow> 'e + bytes"
  os_write :: "'fs \<Rightarrow> string \<Rightarrow> bytes \<Rightarrow> 'e + 'fs"
  os_mkdir :: "'fs \<Rightarrow> string \<Rightarrow> 'e + 'fs"
  os_exists :: "'fs \<Rightarrow> string \<Rightarrow> bool"
  os_list :: "'fs \<Rightarrow> string \<Rightarrow> 'e + string list"

text \<open>
  A written file reads back and no other file changes; making directories changes no file;
  a readable file exists.
\<close>

definition os_ok :: "('fs, 'e) os \<Rightarrow> bool" where
  "os_ok os \<longleftrightarrow>
     (\<forall>fs p bs fs'. os_write os fs p bs = Inr fs' \<longrightarrow>
        os_read os fs' p = Inr bs \<and> (\<forall>q. q \<noteq> p \<longrightarrow> os_read os fs' q = os_read os fs q)) \<and>
     (\<forall>fs d fs' q. os_mkdir os fs d = Inr fs' \<longrightarrow> os_read os fs' q = os_read os fs q) \<and>
     (\<forall>fs p bs. os_read os fs p = Inr bs \<longrightarrow> os_exists os fs p)"

lemma os_okD:
  assumes "os_ok os"
  shows "os_write os fs p bs = Inr fs' \<Longrightarrow> os_read os fs' p = Inr bs"
    and "os_write os fs p bs = Inr fs' \<Longrightarrow> q \<noteq> p \<Longrightarrow> os_read os fs' q = os_read os fs q"
    and "os_mkdir os fs d = Inr fs' \<Longrightarrow> os_read os fs' q = os_read os fs q"
    and "os_read os fs p = Inr bs \<Longrightarrow> os_exists os fs p"
  using assms unfolding os_ok_def by blast+

text \<open>\<open>dir.join(name)\<close> for a relative name.\<close>

definition join :: "string \<Rightarrow> string \<Rightarrow> string" where
  "join dir name = dir @ ''/'' @ name"

lemma join_inject [simp]: "join dir a = join dir b \<longleftrightarrow> a = b"
  by (simp add: join_def)

definition disk :: "(string \<rightharpoonup> bytes, unit) os" where
  "disk =
     \<lparr>os_read = (\<lambda>fs p. case fs p of None \<Rightarrow> Inl () | Some bs \<Rightarrow> Inr bs),
      os_write = (\<lambda>fs p bs. Inr (fs(p \<mapsto> bs))),
      os_mkdir = (\<lambda>fs d. Inr fs),
      os_exists = (\<lambda>fs p. fs p \<noteq> None),
      os_list = (\<lambda>fs p. Inr [])\<rparr>"

lemma disk_ok: "os_ok disk"
  by (auto simp: os_ok_def disk_def split: option.splits)

end
