(* ===== verification/Jobfmt.thy ===== *)
theory Jobfmt
  imports Machine Os
begin

text \<open>
  Job directories, worker results and the byte strings that are hashed and signed
  (\<open>crates/jobfmt/src/lib.rs\<close>). A Rust \<open>String\<close> is a list of characters, one per UTF-8 byte.
  JSON (serde), SHA-256 and the file system are parameters.
  Main results: file names of a manifest cannot leave the job directory, a saved job loads
  again, hex and journal round trips, and injectivity of the signed encodings.
\<close>

section \<open>Strings, hex\<close>

definition char_byte :: "char \<Rightarrow> u8" where
  "char_byte c = of_nat (of_char c)"

definition str_bytes :: "string \<Rightarrow> bytes" where
  "str_bytes s = map char_byte s"

definition hex_char :: "u8 \<Rightarrow> char" where
  "hex_char d = char_of (if d < 10 then 48 + unat d else 87 + unat d)"

text \<open>\<open>bytes.iter().map(|b| format!("{b:02x}")).collect()\<close>, the \<open>hex\<close> helpers of the crates.\<close>

definition to_hex :: "bytes \<Rightarrow> string" where
  "to_hex bs = concat (map (\<lambda>b. [hex_char (drop_bit 4 b), hex_char (b AND 15)]) bs)"

datatype hex_error = BadLength nat nat | InvalidByte u8

definition hex_digit :: "u8 \<Rightarrow> hex_error + u32" where
  "hex_digit c =
     (if 48 \<le> c \<and> c \<le> 57 then Inr (ucast (c - 48))
      else if 97 \<le> c \<and> c \<le> 102 then Inr (ucast (c - 97 + 10))
      else if 65 \<le> c \<and> c \<le> 70 then Inr (ucast (c - 65 + 10))
      else Inl (InvalidByte c))"

fun hex_pairs :: "bytes \<Rightarrow> hex_error + bytes" where
  "hex_pairs (h # l # bs) =
     (case hex_digit h of
        Inl e \<Rightarrow> Inl e
      | Inr hi \<Rightarrow>
          (case hex_digit l of
             Inl e \<Rightarrow> Inl e
           | Inr lo \<Rightarrow>
               (case hex_pairs bs of
                  Inl e \<Rightarrow> Inl e
                | Inr r \<Rightarrow> Inr (ucast (push_bit 4 hi OR lo) # r))))"
| "hex_pairs _ = Inr []"

definition from_hex :: "string \<Rightarrow> nat \<Rightarrow> hex_error + bytes" where
  "from_hex s expect =
     (if length s \<noteq> expect * 2 then Inl (BadLength (length s) (expect * 2))
      else hex_pairs (str_bytes s))"

section \<open>Manifests and job directories\<close>

record job_manifest =
  jm_schema :: u32
  jm_id :: string
  jm_name :: string
  jm_isa :: string
  jm_format :: "string option"
  jm_toolchain :: string
  jm_chunk_size :: u64
  jm_max_instructions :: u64
  jm_verification_class :: string
  jm_elf :: string
  jm_input :: string

record job =
  job_manifest :: job_manifest
  job_dir :: string
  job_elf :: bytes
  job_input :: bytes

definition SCHEMA :: u32 where
  "SCHEMA = 1"

text \<open>
  \<open>std::path\<close> on Unix: repeated separators, a trailing separator and every \<open>.\<close> that is not the
  first component of a relative path are normalised away.
\<close>

datatype path_component = RootDir | CurDir | ParentDir | NormalComp string

fun split_slash :: "string \<Rightarrow> string list" where
  "split_slash [] = [[]]"
| "split_slash (c # cs) =
     (if c = CHR ''/'' then [] # split_slash cs
      else (case split_slash cs of [] \<Rightarrow> [[c]] | p # ps \<Rightarrow> (c # p) # ps))"

definition piece_component :: "string \<Rightarrow> path_component list" where
  "piece_component p =
     (if p = [] \<or> p = ''.'' then [] else if p = ''..'' then [ParentDir] else [NormalComp p])"

definition is_relative :: "string \<Rightarrow> bool" where
  "is_relative s \<longleftrightarrow> take 1 s \<noteq> ''/''"

definition path_components :: "string \<Rightarrow> path_component list" where
  "path_components s =
     (let ps = split_slash s
      in (if \<not> is_relative s then [RootDir] else if hd ps = ''.'' then [CurDir] else []) @
         concat (map piece_component ps))"

definition confined_name :: "string \<Rightarrow> string + unit" where
  "confined_name name =
     (if CHR 0x5C \<in> set name then Inl name
      else if is_relative name \<and> length (path_components name) = 1 \<and>
              (case path_components name of NormalComp _ # _ \<Rightarrow> True | _ \<Rightarrow> False)
      then Inr () else Inl name)"

datatype 'e job_error =
    JobRead 'e
  | JobParse
  | JobSchema u32
  | JobIsa string
  | JobPath string
  | JobWrite 'e

text \<open>
  \<open>os\<close> has the operating system's file operations; \<open>from_json\<close> and \<open>to_json\<close> are serde's.
\<close>

definition load_dir ::
    "('fs, 'e) os \<Rightarrow> (bytes \<Rightarrow> job_manifest option) \<Rightarrow> 'fs \<Rightarrow> string \<Rightarrow> 'e job_error + job" where
  "load_dir os from_json fs dir =
     (case os_read os fs (join dir ''job.json'') of
        Inl e \<Rightarrow> Inl (JobRead e)
      | Inr raw \<Rightarrow>
          (case from_json raw of
             None \<Rightarrow> Inl JobParse
           | Some manifest \<Rightarrow>
               if jm_schema manifest \<noteq> SCHEMA then Inl (JobSchema (jm_schema manifest))
               else if jm_isa manifest \<noteq> abi_ISA then Inl (JobIsa (jm_isa manifest))
               else (case confined_name (jm_elf manifest) of
                       Inl e \<Rightarrow> Inl (JobPath e)
                     | Inr _ \<Rightarrow>
                         (case confined_name (jm_input manifest) of
                            Inl e \<Rightarrow> Inl (JobPath e)
                          | Inr _ \<Rightarrow>
                              (case os_read os fs (join dir (jm_elf manifest)) of
                                 Inl e \<Rightarrow> Inl (JobRead e)
                               | Inr elf \<Rightarrow>
                                   (case os_read os fs (join dir (jm_input manifest)) of
                                      Inl e \<Rightarrow> Inl (JobRead e)
                                    | Inr input \<Rightarrow>
                                        Inr \<lparr>job_manifest = manifest, job_dir = dir, job_elf = elf,
                                             job_input = input\<rparr>))))))"

definition save_dir ::
    "('fs, 'e) os \<Rightarrow> (job_manifest \<Rightarrow> bytes) \<Rightarrow> 'fs \<Rightarrow> string \<Rightarrow> job_manifest \<Rightarrow> bytes \<Rightarrow> bytes \<Rightarrow>
     'e job_error + 'fs" where
  "save_dir os to_json fs dir manifest elf input =
     (case confined_name (jm_elf manifest) of
        Inl e \<Rightarrow> Inl (JobPath e)
      | Inr _ \<Rightarrow>
          (case confined_name (jm_input manifest) of
             Inl e \<Rightarrow> Inl (JobPath e)
           | Inr _ \<Rightarrow>
               (case os_mkdir os fs dir of
                  Inl e \<Rightarrow> Inl (JobWrite e)
                | Inr fs \<Rightarrow>
                    (case os_write os fs (join dir ''job.json'') (to_json manifest) of
                       Inl e \<Rightarrow> Inl (JobWrite e)
                     | Inr fs \<Rightarrow>
                         (case os_write os fs (join dir (jm_elf manifest)) elf of
                            Inl e \<Rightarrow> Inl (JobWrite e)
                          | Inr fs \<Rightarrow>
                              (case os_write os fs (join dir (jm_input manifest)) input of
                                 Inl e \<Rightarrow> Inl (JobWrite e)
                               | Inr fs \<Rightarrow> Inr fs))))))"

definition is_sp1_v2 :: "job_manifest \<Rightarrow> bool" where
  "is_sp1_v2 manifest \<longleftrightarrow> jm_format manifest = Some ''sp1-v2''"

section \<open>Worker results and signed messages\<close>

record worker_result =
  worker_id :: string
  wr_job_id :: string
  wr_status :: string
  wr_instructions :: u64
  result_hash :: string
  wr_chunk_hashes :: "string list"
  output_hex :: "string option"
  wr_trap :: "string option"
  pubkey_hex :: "string option"
  sig_hex :: "string option"

definition journal :: "u64 \<Rightarrow> bytes \<Rightarrow> bytes" where
  "journal instructions output = le_bytes 8 instructions @ output"

definition journal_output :: "bytes \<Rightarrow> bytes" where
  "journal_output j = drop 8 j"

definition journal_digest :: "(bytes \<Rightarrow> digest) \<Rightarrow> u64 \<Rightarrow> bytes \<Rightarrow> digest" where
  "journal_digest sha256 instructions output = sha256 (journal instructions output)"

definition V2_JOURNAL_COUNT :: u64 where
  "V2_JOURNAL_COUNT = 0"

definition put :: "bytes \<Rightarrow> bytes" where
  "put b = le_bytes 4 (of_nat (length b) :: u32) @ b"

definition put_opt :: "string option \<Rightarrow> bytes" where
  "put_opt s = (case s of Some t \<Rightarrow> put (str_bytes t) | None \<Rightarrow> le_bytes 4 (0 :: u32))"

definition signing_message :: "worker_result \<Rightarrow> bytes" where
  "signing_message r =
     put (str_bytes (worker_id r)) @ put (str_bytes (wr_job_id r)) @ put (str_bytes (wr_status r)) @
     le_bytes 8 (wr_instructions r) @ put (str_bytes (result_hash r)) @
     concat (map (\<lambda>h. put (str_bytes h)) (wr_chunk_hashes r)) @
     put_opt (output_hex r) @ put_opt (wr_trap r)"

definition receipt_claim_message :: "string \<Rightarrow> digest \<Rightarrow> bytes" where
  "receipt_claim_message job_id receipt_hash =
     le_bytes 4 (of_nat (length job_id) :: u32) @ str_bytes job_id @ receipt_hash"

definition submission_message :: "string \<Rightarrow> digest \<Rightarrow> bytes" where
  "submission_message job_id descriptor_id =
     le_bytes 4 (of_nat (length job_id) :: u32) @ str_bytes job_id @ descriptor_id"

section \<open>Lemmas on strings and hex\<close>

lemma unat_char_byte: "unat (char_byte c) = of_char c"
  using nat_of_char_less_256 [of c] by (simp add: char_byte_def unat_of_nat)

lemma char_byte_inject [simp]: "char_byte c = char_byte d \<longleftrightarrow> c = d"
  by (metis unat_char_byte of_char_eq_iff)

lemma length_str_bytes [simp]: "length (str_bytes s) = length s"
  by (simp add: str_bytes_def)

lemma str_bytes_inject [simp]: "str_bytes s = str_bytes t \<longleftrightarrow> s = t"
  unfolding str_bytes_def by (rule inj_map_eq_map) (simp add: inj_def)

lemma str_bytes_Nil [simp]: "str_bytes s = [] \<longleftrightarrow> s = []" "[] = str_bytes s \<longleftrightarrow> s = []"
  by (auto simp: str_bytes_def)

lemma str_bytes_append [simp]: "str_bytes (s @ t) = str_bytes s @ str_bytes t"
  by (simp add: str_bytes_def)

lemma u8_below_16: "(d :: u8) < 16 \<Longrightarrow> d \<in> {0,1,2,3,4,5,6,7,8,9,10,11,12,13,14,15}"
proof -
  assume "d < 16"
  then have "unat d < 16" by (simp add: word_less_nat_alt)
  then have "unat d \<in> {0,1,2,3,4,5,6,7,8,9,10,11,12,13,14,15}" by (simp only: insert_iff empty_iff) arith
  then show ?thesis by (simp add: word_unat_eq_iff)
qed

lemma hex_digit_char: "d < 16 \<Longrightarrow> hex_digit (char_byte (hex_char d)) = Inr (ucast d)"
proof -
  assume "d < 16"
  then have d: "d \<in> {0,1,2,3,4,5,6,7,8,9,10,11,12,13,14,15}" by (rule u8_below_16)
  have c: "char_byte (hex_char d) = (if d < 10 then 48 + d else 87 + d)"
  proof -
    have n: "unat (if d < 10 then 48 + d else 87 + d) = (if d < 10 then 48 + unat d else 87 + unat d)"
      using d by auto
    have "unat (char_byte (hex_char d)) = (if d < 10 then 48 + unat d else 87 + unat d)"
      using d unfolding unat_char_byte hex_char_def by auto
    then show ?thesis using n by (simp add: word_unat_eq_iff)
  qed
  show ?thesis unfolding c using d by (elim insertE) (simp_all add: hex_digit_def)
qed

lemma nibbles:
  "drop_bit 4 (b :: u8) < 16" "b AND 15 < 16"
  "(ucast (push_bit 4 (ucast (drop_bit 4 b) :: u32) OR ucast (b AND 15)) :: u8) = b"
proof -
  show "drop_bit 4 b < 16"
    using unat_u8_lt [of b] by (simp add: word_less_nat_alt drop_bit_eq_div unat_div less_mult_imp_div_less)
  have "b AND 15 = take_bit 4 b" by (simp add: take_bit_eq_mask mask_eq_exp_minus_1)
  then show "b AND 15 < 16" by (simp add: take_bit_eq_mod word_less_nat_alt unat_mod)
  show "(ucast (push_bit 4 (ucast (drop_bit 4 b) :: u32) OR ucast (b AND 15)) :: u8) = b"
    unfolding \<open>b AND 15 = take_bit 4 b\<close>
    by (rule bit_word_eqI) (auto simp: bit_simps)
qed

lemma hex_pairs_to_hex: "hex_pairs (str_bytes (to_hex bs)) = Inr bs"
proof (induction bs)
  case Nil
  then show ?case by (simp add: to_hex_def str_bytes_def)
next
  case (Cons b bs)
  have "str_bytes (to_hex (b # bs)) =
        char_byte (hex_char (drop_bit 4 b)) # char_byte (hex_char (b AND 15)) # str_bytes (to_hex bs)"
    by (simp add: to_hex_def str_bytes_def)
  then show ?case using Cons by (simp add: hex_digit_char nibbles)
qed

lemma length_to_hex [simp]: "length (to_hex bs) = 2 * length bs"
  by (induction bs) (simp_all add: to_hex_def)

lemma from_hex_to_hex [codec]: "from_hex (to_hex bs) (length bs) = Inr bs"
  by (simp add: from_hex_def hex_pairs_to_hex)

lemma to_hex_inject: "to_hex a = to_hex b \<longleftrightarrow> a = b"
  by (metis hex_pairs_to_hex sum.inject(2))

lemma hex_pairs_length: "hex_pairs bs = Inr r \<Longrightarrow> length r = length bs div 2"
  by (induction bs arbitrary: r rule: hex_pairs.induct) (auto split: sum.splits)

lemma from_hex_length: "from_hex s n = Inr bs \<Longrightarrow> length bs = n \<and> length s = 2 * n"
  by (auto simp: from_hex_def split: if_splits dest: hex_pairs_length)

section \<open>Encodings are injective\<close>

lemma put_append_inject:
  assumes "put a @ x = put b @ y" and "length a < 2 ^ 32" and "length b < 2 ^ 32"
  shows "a = b \<and> x = y"
proof -
  have "le_bytes 4 (of_nat (length a) :: u32) @ (a @ x) = le_bytes 4 (of_nat (length b) :: u32) @ (b @ y)"
    using assms(1) by (simp add: put_def)
  then have 1: "(of_nat (length a) :: u32) = of_nat (length b)" "a @ x = b @ y"
    by (auto simp: append_eq_append_conv)
  then have "unat (of_nat (length a) :: u32) = unat (of_nat (length b) :: u32)" by simp
  then have "length a = length b" using assms(2,3) by (simp add: unat_of_nat)
  then show ?thesis using 1(2) by simp
qed

lemma put_not_Nil [simp]: "put a \<noteq> []"
  by (simp add: put_def flip: length_greater_0_conv)

lemma concat_put_inject:
  assumes "concat (map put as) = concat (map put bs)"
    and "\<forall>a \<in> set as. length a < 2 ^ 32" and "\<forall>b \<in> set bs. length b < 2 ^ 32"
  shows "as = bs"
  using assms
proof (induction as arbitrary: bs)
  case Nil
  then show ?case by (cases bs) auto
next
  case (Cons a as)
  then obtain b bs' where bs: "bs = b # bs'" by (cases bs) auto
  have "put a @ concat (map put as) = put b @ concat (map put bs')" using Cons.prems(1) bs by simp
  then have "a = b \<and> concat (map put as) = concat (map put bs')"
    using Cons.prems bs by (intro put_append_inject) simp_all
  then show ?case using Cons bs by simp
qed

definition opt_bytes :: "string option \<Rightarrow> bytes" where
  "opt_bytes s = (case s of Some t \<Rightarrow> str_bytes t | None \<Rightarrow> [])"

lemma put_opt_eq: "put_opt s = put (opt_bytes s)"
  by (simp add: put_opt_def opt_bytes_def put_def split: option.split)

text \<open>The length prefixes are 32-bit, so the encodings are faithful for strings below \<open>2^32\<close> bytes.\<close>

definition small_result :: "worker_result \<Rightarrow> bool" where
  "small_result r \<longleftrightarrow>
     (\<forall>s \<in> {worker_id r, wr_job_id r, wr_status r, result_hash r} \<union> set (wr_chunk_hashes r) \<union>
           set_option (output_hex r) \<union> set_option (wr_trap r). length s < 2 ^ 32)"

lemma small_resultD:
  assumes "small_result r"
  shows "length (worker_id r) < 2 ^ 32" "length (wr_job_id r) < 2 ^ 32" "length (wr_status r) < 2 ^ 32"
    "length (result_hash r) < 2 ^ 32"
    "\<forall>b \<in> set (map str_bytes (wr_chunk_hashes r) @ [opt_bytes (output_hex r), opt_bytes (wr_trap r)]).
       length b < 2 ^ 32"
  using assms by (auto simp: small_result_def opt_bytes_def split: option.splits)

lemma signing_message_eq:
  "signing_message r =
     put (str_bytes (worker_id r)) @ put (str_bytes (wr_job_id r)) @ put (str_bytes (wr_status r)) @
     le_bytes 8 (wr_instructions r) @ put (str_bytes (result_hash r)) @
     concat (map put (map str_bytes (wr_chunk_hashes r) @
       [opt_bytes (output_hex r), opt_bytes (wr_trap r)]))"
  by (simp add: signing_message_def put_opt_eq comp_def)

lemma opt_bytes_inject:
  "opt_bytes s = opt_bytes t \<Longrightarrow> s \<noteq> Some [] \<Longrightarrow> t \<noteq> Some [] \<Longrightarrow> s = t"
  by (cases s; cases t) (auto simp: opt_bytes_def)

lemma signing_message_inject:
  assumes "signing_message r = signing_message q" and "small_result r" and "small_result q"
  shows "worker_id r = worker_id q \<and> wr_job_id r = wr_job_id q \<and> wr_status r = wr_status q \<and>
         wr_instructions r = wr_instructions q \<and> result_hash r = result_hash q \<and>
         wr_chunk_hashes r = wr_chunk_hashes q \<and>
         opt_bytes (output_hex r) = opt_bytes (output_hex q) \<and>
         opt_bytes (wr_trap r) = opt_bytes (wr_trap q)"
proof -
  note b = small_resultD [OF assms(2)] and d = small_resultD [OF assms(3)]
  note e = assms(1) [unfolded signing_message_eq]
  note e1 = put_append_inject [OF e]
  have 1: "str_bytes (worker_id r) = str_bytes (worker_id q)" using e1 b(1) d(1) by simp
  note e2 = put_append_inject [OF conjunct2 [OF e1]]
  have 2: "str_bytes (wr_job_id r) = str_bytes (wr_job_id q)" using e2 b d by simp
  note e3 = put_append_inject [OF conjunct2 [OF e2]]
  have 3: "str_bytes (wr_status r) = str_bytes (wr_status q)" using e3 b d by simp
  let ?t = "\<lambda>r. put (str_bytes (result_hash r)) @ concat (map put (map str_bytes (wr_chunk_hashes r) @
       [opt_bytes (output_hex r), opt_bytes (wr_trap r)]))"
  have "le_bytes 8 (wr_instructions r) @ ?t r = le_bytes 8 (wr_instructions q) @ ?t q"
    using conjunct2 [OF e3] b d by simp
  then have 4: "wr_instructions r = wr_instructions q \<and> ?t r = ?t q" by (auto simp: append_eq_append_conv)
  note e5 = put_append_inject [OF conjunct2 [OF 4]]
  have 5: "str_bytes (result_hash r) = str_bytes (result_hash q)" using e5 b d by simp
  have "map str_bytes (wr_chunk_hashes r) @ [opt_bytes (output_hex r), opt_bytes (wr_trap r)] =
        map str_bytes (wr_chunk_hashes q) @ [opt_bytes (output_hex q), opt_bytes (wr_trap q)]"
    using e5 b(4) d(4) by (intro concat_put_inject [OF _ b(5) d(5)]) simp
  then have "map str_bytes (wr_chunk_hashes r) = map str_bytes (wr_chunk_hashes q) \<and>
    opt_bytes (output_hex r) = opt_bytes (output_hex q) \<and> opt_bytes (wr_trap r) = opt_bytes (wr_trap q)"
    by simp
  moreover have "inj str_bytes" by (simp add: inj_def)
  ultimately show ?thesis using 1 2 3 4 5 by (simp add: inj_map_eq_map)
qed

section \<open>Paths\<close>

lemma split_slash_not_Nil [simp]: "split_slash s \<noteq> []"
  by (induction s) (auto split: list.split)

lemma split_slash_chars:
  "p \<in> set (split_slash s) \<Longrightarrow> CHR ''/'' \<notin> set p \<and> set p \<subseteq> set s"
  by (induction s arbitrary: p) (fastforce split: if_splits list.splits)+

lemma split_slash_append: "split_slash (d @ CHR ''/'' # n) = split_slash d @ split_slash n"
proof (induction d)
  case (Cons c d)
  then show ?case by (cases "split_slash d") simp_all
qed simp

lemma hd_split_slash: "s \<noteq> [] \<Longrightarrow> is_relative s = (hd s \<noteq> CHR ''/'')"
  by (cases s) (simp_all add: is_relative_def)

lemma path_components_join:
  assumes "dir \<noteq> []"
  shows "path_components (join dir name) =
           path_components dir @ concat (map piece_component (split_slash name))"
  using assms
  by (simp add: path_components_def join_def split_slash_append hd_split_slash Let_def)

lemma piece_component_cases:
  "NormalComp c \<in> set (concat (map piece_component ps)) \<Longrightarrow>
     c \<in> set ps \<and> c \<noteq> [] \<and> c \<noteq> ''.'' \<and> c \<noteq> ''..''"
  by (auto simp: piece_component_def split: if_splits)

lemma confined_nameD:
  assumes "confined_name name = Inr ()"
  obtains c where "path_components name = [NormalComp c]"
    and "concat (map piece_component (split_slash name)) = [NormalComp c]"
    and "CHR 0x5C \<notin> set name"
proof -
  have b: "CHR 0x5C \<notin> set name" and r: "is_relative name" and l: "length (path_components name) = 1"
    and m: "case path_components name of NormalComp _ # _ \<Rightarrow> True | _ \<Rightarrow> False"
    using assms by (simp_all add: confined_name_def split: if_splits)
  obtain c where c: "path_components name = [NormalComp c]"
    using l m by (auto simp: length_Suc_conv split: path_component.splits)
  moreover have "concat (map piece_component (split_slash name)) = [NormalComp c]"
    using c r by (simp add: path_components_def Let_def split: if_splits)
  ultimately show ?thesis using b that by blast
qed

lemma split_slash_plain: "CHR ''/'' \<notin> set c \<Longrightarrow> split_slash c = [c]"
  by (induction c) auto

text \<open>
  A file name that a manifest may carry cannot leave the job directory: joined to any
  directory path it adds exactly one ordinary component, which has no separator of either kind
  and is neither \<open>.\<close> nor \<open>..\<close>.
\<close>

theorem confined_name_stays_inside:
  assumes "confined_name name = Inr ()" and "dir \<noteq> []"
  shows "\<exists>c. path_components (join dir name) = path_components dir @ [NormalComp c] \<and>
             c \<noteq> [] \<and> c \<noteq> ''.'' \<and> c \<noteq> ''..'' \<and> CHR ''/'' \<notin> set c \<and> CHR 0x5C \<notin> set c"
proof -
  obtain c where c: "concat (map piece_component (split_slash name)) = [NormalComp c]"
    and b: "CHR 0x5C \<notin> set name" using confined_nameD [OF assms(1)] .
  have "c \<in> set (split_slash name) \<and> c \<noteq> [] \<and> c \<noteq> ''.'' \<and> c \<noteq> ''..''"
    by (rule piece_component_cases) (simp add: c)
  then show ?thesis
    using path_components_join [OF assms(2), of name] c b split_slash_chars [of c name] by auto
qed

theorem confined_name_stays_inside_witness:
  "confined_name ''program.elf'' = Inr () \<and>
   (\<exists>c. path_components (join ''jobs/j1'' ''program.elf'') = path_components ''jobs/j1'' @ [NormalComp c] \<and>
        c \<noteq> ''..'')"
proof -
  have "confined_name ''program.elf'' = Inr ()"
    by (simp add: confined_name_def path_components_def is_relative_def piece_component_def)
  then show ?thesis using confined_name_stays_inside [of "''program.elf''" "''jobs/j1''"] by auto
qed

section \<open>Job directories\<close>

text \<open>
  A job directory that was saved loads again as the same job, on any file system where a
  written file reads back and writes do not disturb other files, and with a JSON codec that
  parses what it printed; the manifest has the pinned schema and ISA, and the three file names
  differ.
\<close>

theorem save_then_load:
  assumes "os_ok os" and "from_json (to_json manifest) = Some manifest"
    and "jm_schema manifest = SCHEMA" and "jm_isa manifest = abi_ISA"
    and distinct: "jm_elf manifest \<noteq> ''job.json''" "jm_input manifest \<noteq> ''job.json''"
      "jm_elf manifest \<noteq> jm_input manifest"
    and saved: "save_dir os to_json fs dir manifest elf input = Inr fs'"
  shows "load_dir os from_json fs' dir =
           Inr \<lparr>job_manifest = manifest, job_dir = dir, job_elf = elf, job_input = input\<rparr>"
proof -
  note read_write = os_okD(1) [OF assms(1)] and frame = os_okD(2) [OF assms(1)]
  obtain f1 f2 f3 where c: "confined_name (jm_elf manifest) = Inr ()" "confined_name (jm_input manifest) = Inr ()"
    and w: "os_write os f1 (join dir ''job.json'') (to_json manifest) = Inr f2"
      "os_write os f2 (join dir (jm_elf manifest)) elf = Inr f3"
      "os_write os f3 (join dir (jm_input manifest)) input = Inr fs'"
    using saved by (auto simp: save_dir_def split: sum.splits)
  have "os_read os fs' (join dir ''job.json'') = Inr (to_json manifest)"
    using frame [OF w(3)] frame [OF w(2)] read_write [OF w(1)] distinct by simp
  moreover have "os_read os fs' (join dir (jm_elf manifest)) = Inr elf"
    using frame [OF w(3)] read_write [OF w(2)] distinct by simp
  moreover have "os_read os fs' (join dir (jm_input manifest)) = Inr input" using read_write [OF w(3)] .
  ultimately show ?thesis using assms(2-4) c by (simp add: load_dir_def)
qed

definition demo_manifest :: job_manifest where
  "demo_manifest =
     \<lparr>jm_schema = 1, jm_id = ''j1'', jm_name = ''demo'', jm_isa = abi_ISA, jm_format = None,
      jm_toolchain = [], jm_chunk_size = 4096, jm_max_instructions = 1000000,
      jm_verification_class = ''deterministic'', jm_elf = ''program.elf'', jm_input = ''input.bin''\<rparr>"

theorem save_then_load_witness:
  "\<exists>fs'. save_dir disk (\<lambda>m. [7]) Map.empty ''d'' demo_manifest [1] [2] = Inr fs' \<and>
         load_dir disk (\<lambda>bs. Some demo_manifest) fs' ''d'' =
         Inr \<lparr>job_manifest = demo_manifest, job_dir = ''d'', job_elf = [1], job_input = [2]\<rparr>"
proof -
  have c: "confined_name ''program.elf'' = Inr ()" "confined_name ''input.bin'' = Inr ()"
    by (simp_all add: confined_name_def path_components_def is_relative_def piece_component_def)
  obtain fs' where s: "save_dir disk (\<lambda>m. [7]) Map.empty ''d'' demo_manifest [1] [2] = Inr fs'"
    by (simp add: save_dir_def c demo_manifest_def disk_def)
  have "load_dir disk (\<lambda>bs. Some demo_manifest) fs' ''d'' =
    Inr \<lparr>job_manifest = demo_manifest, job_dir = ''d'', job_elf = [1], job_input = [2]\<rparr>"
    by (rule save_then_load [OF disk_ok _ _ _ _ _ _ s]) (simp_all add: demo_manifest_def SCHEMA_def)
  then show ?thesis using s by blast
qed

text \<open>
  The journal is injective, and its output part is recovered: two journals are equal only if
  instruction count and output are.
\<close>

theorem journal_round_trip:
  "journal_output (journal n out) = out \<and> from_le (take 8 (journal n out)) = n \<and>
   (journal n out = journal n' out' \<longleftrightarrow> n = n' \<and> out = out')"
  by (auto simp: journal_def journal_output_def append_eq_append_conv)

text \<open>
  C37: what a worker signs determines the whole result. If two results of reasonable size have
  the same signing message, they agree on worker, job, status, instruction count, result hash,
  every chunk hash, output and trap text (an empty output and a missing one sign alike).
\<close>

theorem signing_message_binds_result:
  assumes "signing_message r = signing_message q" and "small_result r" and "small_result q"
    and "output_hex r \<noteq> Some []" and "output_hex q \<noteq> Some []" and "wr_trap r \<noteq> Some []" and "wr_trap q \<noteq> Some []"
  shows "worker_id r = worker_id q \<and> wr_job_id r = wr_job_id q \<and> wr_status r = wr_status q \<and>
         wr_instructions r = wr_instructions q \<and> result_hash r = result_hash q \<and>
         wr_chunk_hashes r = wr_chunk_hashes q \<and> output_hex r = output_hex q \<and> wr_trap r = wr_trap q"
  using signing_message_inject [OF assms(1-3)] opt_bytes_inject assms(4-7) by metis

definition demo_result :: worker_result where
  "demo_result =
     \<lparr>worker_id = ''w1'', wr_job_id = ''j1'', wr_status = ''halted'', wr_instructions = 7,
      result_hash = ''ab'', wr_chunk_hashes = [''ab''], output_hex = Some ''00'', wr_trap = None,
      pubkey_hex = None, sig_hex = None\<rparr>"

theorem signing_message_binds_result_witness:
  "signing_message demo_result = signing_message (demo_result\<lparr>pubkey_hex := Some ''k''\<rparr>) \<and>
   small_result demo_result \<and> wr_chunk_hashes demo_result = wr_chunk_hashes (demo_result\<lparr>pubkey_hex := Some ''k''\<rparr>)"
  using signing_message_binds_result [of demo_result "demo_result\<lparr>pubkey_hex := Some ''k''\<rparr>"]
  by (simp add: demo_result_def signing_message_def small_result_def)

text \<open>
  Hex encoding round trips: decoding what was printed gives the bytes back, and decoding
  accepts only strings of exactly twice the expected length and yields exactly that many bytes.
\<close>

theorem hex_round_trip:
  "from_hex (to_hex bs) (length bs) = Inr bs \<and>
   (from_hex s n = Inr r \<longrightarrow> length s = 2 * n \<and> length r = n)"
  using from_hex_to_hex from_hex_length by blast

theorem hex_round_trip_witness:
  "from_hex (to_hex [0xab]) 1 = Inr [0xab] \<and> length (to_hex [0xab]) = 2 * 1"
  using hex_round_trip [of "[0xab]" "to_hex [0xab]" 1 "[0xab]"] by simp

end
