(* ===== verification/Contentstore.thy ===== *)
theory Contentstore
  imports Jobfmt
begin

text \<open>
  The content-addressed blob store and job descriptors (\<open>crates/contentstore/src/lib.rs\<close>).
  A store is a root path on a file system; a blob is named by the hex of its BLAKE3 hash.
  Main results: \<open>get\<close> never returns bytes that do not hash to the id, \<open>put\<close> then \<open>get\<close>, and
  publishing a job and materialising its descriptor gives the job's files back, each up to an
  explicit BLAKE3 collision.
\<close>

section \<open>Content ids\<close>

definition from_data :: "(bytes \<Rightarrow> digest) \<Rightarrow> bytes \<Rightarrow> digest" where
  "from_data blake3 data = blake3 data"

text \<open>Whether byte index \<open>k\<close> of a UTF-8 string is a character boundary.\<close>

definition is_char_boundary :: "string \<Rightarrow> nat \<Rightarrow> bool" where
  "is_char_boundary s k \<longleftrightarrow>
     k = length s \<or> (k < length s \<and> \<not> (128 \<le> char_byte (s ! k) \<and> char_byte (s ! k) < 192))"

text \<open>
  \<open>u8::from_str_radix(&s[i*2..i*2+2], 16)\<close> on the two bytes of the slice; the standard library
  accepts a leading plus sign.
\<close>

definition from_str_radix16 :: "char \<Rightarrow> char \<Rightarrow> u8 option" where
  "from_str_radix16 a b =
     (case hex_digit (char_byte b) of
        Inl _ \<Rightarrow> None
      | Inr lo \<Rightarrow>
          if a = CHR ''+'' then Some (ucast lo)
          else (case hex_digit (char_byte a) of
                  Inl _ \<Rightarrow> None
                | Inr hi \<Rightarrow> Some (ucast (push_bit 4 hi OR lo))))"

datatype content_error = IdLength nat | IdHex

text \<open>The loop of \<open>ContentId::from_hex\<close>; slicing off a character boundary panics (\<open>None\<close>).\<close>

fun content_id_loop :: "string \<Rightarrow> nat \<Rightarrow> nat \<Rightarrow> (content_error + digest) option" where
  "content_id_loop s i 0 = Some (Inr [])"
| "content_id_loop s i (Suc k) =
     (if \<not> (is_char_boundary s (i * 2) \<and> is_char_boundary s (i * 2 + 2)) then None
      else (case from_str_radix16 (s ! (i * 2)) (s ! (i * 2 + 1)) of
              None \<Rightarrow> Some (Inl IdHex)
            | Some b \<Rightarrow>
                (case content_id_loop s (Suc i) k of
                   Some (Inr bs) \<Rightarrow> Some (Inr (b # bs))
                 | r \<Rightarrow> r)))"

definition content_id_from_hex :: "string \<Rightarrow> (content_error + digest) option" where
  "content_id_from_hex s =
     (if length s \<noteq> 64 then Some (Inl (IdLength (length s))) else content_id_loop s 0 32)"

section \<open>The store\<close>

datatype 'e store_error =
    StoreIo 'e
  | SelfVerification
  | Integrity
  | BadId content_error
  | BadManifest
  | BadPath string
  | BlobMismatch string
  | StorePanic

definition store_open :: "('fs, 'e) os \<Rightarrow> 'fs \<Rightarrow> string \<Rightarrow> 'e store_error + 'fs" where
  "store_open os fs root =
     (case os_mkdir os fs (join root ''blobs'') of Inl e \<Rightarrow> Inl (StoreIo e) | Inr fs \<Rightarrow> Inr fs)"

definition blob_dir :: "string \<Rightarrow> digest \<Rightarrow> string" where
  "blob_dir root cid = join (join root ''blobs'') (take 2 (to_hex cid))"

definition blob_path :: "string \<Rightarrow> digest \<Rightarrow> string" where
  "blob_path root cid = join (blob_dir root cid) (to_hex cid)"

definition store_put ::
    "('fs, 'e) os \<Rightarrow> (bytes \<Rightarrow> digest) \<Rightarrow> string \<Rightarrow> 'fs \<Rightarrow> bytes \<Rightarrow> 'e store_error + digest \<times> 'fs" where
  "store_put os blake3 root fs data =
     (let cid = from_data blake3 data; path = blob_path root cid
      in if os_exists os fs path then Inr (cid, fs)
         else (case os_mkdir os fs (blob_dir root cid) of
                 Inl e \<Rightarrow> Inl (StoreIo e)
               | Inr fs \<Rightarrow>
                   (case os_write os fs path data of
                      Inl e \<Rightarrow> Inl (StoreIo e)
                    | Inr fs \<Rightarrow>
                        (case os_read os fs path of
                           Inl e \<Rightarrow> Inl (StoreIo e)
                         | Inr read_back \<Rightarrow>
                             if from_data blake3 read_back \<noteq> cid then Inl SelfVerification
                             else Inr (cid, fs)))))"

definition store_get ::
    "('fs, 'e) os \<Rightarrow> (bytes \<Rightarrow> digest) \<Rightarrow> string \<Rightarrow> 'fs \<Rightarrow> digest \<Rightarrow> 'e store_error + bytes" where
  "store_get os blake3 root fs cid =
     (case os_read os fs (blob_path root cid) of
        Inl e \<Rightarrow> Inl (StoreIo e)
      | Inr data \<Rightarrow> if from_data blake3 data \<noteq> cid then Inl Integrity else Inr data)"

definition store_has :: "('fs, 'e) os \<Rightarrow> string \<Rightarrow> 'fs \<Rightarrow> digest \<Rightarrow> bool" where
  "store_has os root fs cid = os_exists os fs (blob_path root cid)"

text \<open>\<open>verify_all\<close>: the directory listings give file names below each prefix directory.\<close>

fun verify_files ::
    "('fs, 'e) os \<Rightarrow> (bytes \<Rightarrow> digest) \<Rightarrow> 'fs \<Rightarrow> string \<Rightarrow> string list \<Rightarrow> nat \<Rightarrow> 'e store_error + nat" where
  "verify_files os blake3 fs dir [] count = Inr count"
| "verify_files os blake3 fs dir (f # files) count =
     (case os_read os fs (join dir f) of
        Inl e \<Rightarrow> Inl (StoreIo e)
      | Inr data \<Rightarrow>
          if f \<noteq> to_hex (from_data blake3 data) then Inl (BlobMismatch (join dir f))
          else verify_files os blake3 fs dir files (Suc count))"

fun verify_prefixes ::
    "('fs, 'e) os \<Rightarrow> (bytes \<Rightarrow> digest) \<Rightarrow> 'fs \<Rightarrow> string \<Rightarrow> string list \<Rightarrow> nat \<Rightarrow> 'e store_error + nat" where
  "verify_prefixes os blake3 fs blobs [] count = Inr count"
| "verify_prefixes os blake3 fs blobs (p # ps) count =
     (case os_list os fs (join blobs p) of
        Inl e \<Rightarrow> Inl (StoreIo e)
      | Inr files \<Rightarrow>
          (case verify_files os blake3 fs (join blobs p) files count of
             Inl e \<Rightarrow> Inl e
           | Inr count \<Rightarrow> verify_prefixes os blake3 fs blobs ps count))"

definition verify_all ::
    "('fs, 'e) os \<Rightarrow> (bytes \<Rightarrow> digest) \<Rightarrow> string \<Rightarrow> 'fs \<Rightarrow> 'e store_error + nat" where
  "verify_all os blake3 root fs =
     (case os_list os fs (join root ''blobs'') of
        Inl e \<Rightarrow> Inl (StoreIo e)
      | Inr prefixes \<Rightarrow> verify_prefixes os blake3 fs (join root ''blobs'') prefixes 0)"

section \<open>Descriptors\<close>

record job_descriptor =
  jd_job_id :: string
  jd_manifest :: string
  jd_elf :: string
  jd_input :: string

definition publish ::
    "('fs, 'e) os \<Rightarrow> (bytes \<Rightarrow> digest) \<Rightarrow> (bytes \<Rightarrow> job_manifest option) \<Rightarrow> string \<Rightarrow> 'fs \<Rightarrow> string \<Rightarrow>
     'e store_error + job_descriptor \<times> 'fs" where
  "publish os blake3 from_json root fs dir =
     (case os_read os fs (join dir ''job.json'') of
        Inl e \<Rightarrow> Inl (StoreIo e)
      | Inr manifest_bytes \<Rightarrow>
          (case from_json manifest_bytes of
             None \<Rightarrow> Inl BadManifest
           | Some manifest \<Rightarrow>
               (case os_read os fs (join dir (jm_elf manifest)) of
                  Inl e \<Rightarrow> Inl (StoreIo e)
                | Inr elf \<Rightarrow>
                    (case os_read os fs (join dir (jm_input manifest)) of
                       Inl e \<Rightarrow> Inl (StoreIo e)
                     | Inr input \<Rightarrow>
                         (case store_put os blake3 root fs manifest_bytes of
                            Inl e \<Rightarrow> Inl e
                          | Inr (mid, fs) \<Rightarrow>
                              (case store_put os blake3 root fs elf of
                                 Inl e \<Rightarrow> Inl e
                               | Inr (eid, fs) \<Rightarrow>
                                   (case store_put os blake3 root fs input of
                                      Inl e \<Rightarrow> Inl e
                                    | Inr (iid, fs) \<Rightarrow>
                                        Inr (\<lparr>jd_job_id = jm_id manifest, jd_manifest = to_hex mid,
                                              jd_elf = to_hex eid, jd_input = to_hex iid\<rparr>, fs))))))))"

text \<open>\<open>store.get(&ContentId::from_hex(hex)?)?\<close>.\<close>

definition get_hex ::
    "('fs, 'e) os \<Rightarrow> (bytes \<Rightarrow> digest) \<Rightarrow> string \<Rightarrow> 'fs \<Rightarrow> string \<Rightarrow> 'e store_error + bytes" where
  "get_hex os blake3 root fs hex =
     (case content_id_from_hex hex of
        None \<Rightarrow> Inl StorePanic
      | Some (Inl e) \<Rightarrow> Inl (BadId e)
      | Some (Inr cid) \<Rightarrow> store_get os blake3 root fs cid)"

definition materialize ::
    "('fs, 'e) os \<Rightarrow> (bytes \<Rightarrow> digest) \<Rightarrow> (bytes \<Rightarrow> job_manifest option) \<Rightarrow> string \<Rightarrow> 'fs \<Rightarrow>
     job_descriptor \<Rightarrow> string \<Rightarrow> 'e store_error + 'fs" where
  "materialize os blake3 from_json root fs desc out_dir =
     (case get_hex os blake3 root fs (jd_manifest desc) of
        Inl e \<Rightarrow> Inl e
      | Inr manifest_bytes \<Rightarrow>
          (case from_json manifest_bytes of
             None \<Rightarrow> Inl BadManifest
           | Some manifest \<Rightarrow>
               (case confined_name (jm_elf manifest) of
                  Inl e \<Rightarrow> Inl (BadPath e)
                | Inr _ \<Rightarrow>
                    (case confined_name (jm_input manifest) of
                       Inl e \<Rightarrow> Inl (BadPath e)
                     | Inr _ \<Rightarrow>
                         (case get_hex os blake3 root fs (jd_elf desc) of
                            Inl e \<Rightarrow> Inl e
                          | Inr elf \<Rightarrow>
                              (case get_hex os blake3 root fs (jd_input desc) of
                                 Inl e \<Rightarrow> Inl e
                               | Inr input \<Rightarrow>
                                   (case os_mkdir os fs out_dir of
                                      Inl e \<Rightarrow> Inl (StoreIo e)
                                    | Inr fs \<Rightarrow>
                                        (case os_write os fs (join out_dir ''job.json'') manifest_bytes of
                                           Inl e \<Rightarrow> Inl (StoreIo e)
                                         | Inr fs \<Rightarrow>
                                             (case os_write os fs (join out_dir (jm_elf manifest)) elf of
                                                Inl e \<Rightarrow> Inl (StoreIo e)
                                              | Inr fs \<Rightarrow>
                                                  (case os_write os fs (join out_dir (jm_input manifest)) input of
                                                     Inl e \<Rightarrow> Inl (StoreIo e)
                                                   | Inr fs \<Rightarrow> Inr fs))))))))))"

definition descriptor_id ::
    "(bytes \<Rightarrow> digest) \<Rightarrow> (job_descriptor \<Rightarrow> bytes option) \<Rightarrow> job_descriptor \<Rightarrow> digest option" where
  "descriptor_id blake3 desc_json desc = map_option (from_data blake3) (desc_json desc)"

section \<open>Content ids print and parse\<close>

lemma hex_char_plain:
  "d < 16 \<Longrightarrow> char_byte (hex_char d) < 128 \<and> hex_char d \<noteq> CHR ''+''"
proof -
  assume d: "d < 16"
  have "(of_char (hex_char d) :: nat) \<noteq> of_char (CHR ''+'')"
    using u8_below_16 [OF d] by (elim insertE) (simp_all add: hex_char_def)
  moreover have "char_byte (hex_char d) < 128"
    using u8_below_16 [OF d] by (elim insertE) (simp_all add: hex_char_def char_byte_def)
  ultimately show ?thesis by metis
qed

lemma to_hex_nth:
  "i < length bs \<Longrightarrow> to_hex bs ! (i * 2) = hex_char (drop_bit 4 (bs ! i)) \<and>
     to_hex bs ! (i * 2 + 1) = hex_char (bs ! i AND 15)"
proof (induction bs arbitrary: i)
  case (Cons b bs)
  have "to_hex (b # bs) = hex_char (drop_bit 4 b) # hex_char (b AND 15) # to_hex bs"
    by (simp add: to_hex_def)
  then show ?case using Cons by (cases i) simp_all
qed simp

lemma to_hex_chars: "c \<in> set (to_hex bs) \<Longrightarrow> char_byte c < 128"
  using hex_char_plain nibbles by (fastforce simp: to_hex_def)

lemma to_hex_boundary: "k \<le> length (to_hex bs) \<Longrightarrow> is_char_boundary (to_hex bs) k"
  using to_hex_chars [of "to_hex bs ! k" bs]
  by (auto simp: is_char_boundary_def nth_mem simp del: length_to_hex)

lemma radix_to_hex: "from_str_radix16 (hex_char (drop_bit 4 b)) (hex_char (b AND 15)) = Some b"
  using hex_char_plain [OF nibbles(1) [of b]] nibbles [of b]
  by (simp add: from_str_radix16_def hex_digit_char)

lemma content_id_loop_to_hex:
  "i + k = length bs \<Longrightarrow> content_id_loop (to_hex bs) i k = Some (Inr (drop i bs))"
proof (induction k arbitrary: i)
  case (Suc k)
  have b: "is_char_boundary (to_hex bs) (i * 2)" "is_char_boundary (to_hex bs) (i * 2 + 2)"
    using Suc.prems by (intro to_hex_boundary; simp)+
  have n: "to_hex bs ! (i * 2) = hex_char (drop_bit 4 (bs ! i))"
    "to_hex bs ! (i * 2 + 1) = hex_char (bs ! i AND 15)"
    using to_hex_nth [of i bs] Suc.prems by simp_all
  have "drop i bs = bs ! i # drop (Suc i) bs" using Suc.prems by (simp add: Cons_nth_drop_Suc)
  then show ?case using Suc b n radix_to_hex [of "bs ! i"] by simp
qed simp

lemma content_id_round_trip:
  assumes "length cid = 32"
  shows "content_id_from_hex (to_hex cid) = Some (Inr cid)"
  using assms content_id_loop_to_hex [of 0 32 cid] by (simp add: content_id_from_hex_def)

section \<open>Integrity\<close>

lemma store_get_hash: "store_get os blake3 root fs cid = Inr data \<Longrightarrow> blake3 data = cid"
  by (auto simp: store_get_def from_data_def split: sum.splits if_splits)

lemma store_put_id: "store_put os blake3 root fs data = Inr (cid, fs') \<Longrightarrow> cid = blake3 data"
  by (auto simp: store_put_def from_data_def Let_def split: sum.splits if_splits)

lemma blob_path_inject: "blob_path root a = blob_path root b \<longleftrightarrow> a = b"
proof
  assume "blob_path root a = blob_path root b"
  then have e: "(take 2 (to_hex a) @ ''/'') @ to_hex a = (take 2 (to_hex b) @ ''/'') @ to_hex b"
    by (simp add: blob_path_def blob_dir_def join_def)
  have l: "length (take 2 (to_hex c) @ ''/'') = (if c = [] then 1 else 3)" for c by (cases c) simp_all
  have "length (take 2 (to_hex a) @ ''/'') + 2 * length a = length (take 2 (to_hex b) @ ''/'') + 2 * length b"
    using arg_cong [OF e, of length] by (simp only: length_append length_to_hex)
  then have "length a = length b" unfolding l by (cases "a = []"; cases "b = []") auto
  then have "to_hex a = to_hex b"
    using append_eq_sameD [OF e] by simp
  then show "a = b" by (simp add: to_hex_inject)
qed simp

lemma store_put_frame:
  assumes "os_ok os" and "store_put os blake3 root fs data = Inr (cid, fs')" and "p \<noteq> blob_path root cid"
  shows "os_read os fs' p = os_read os fs p"
  using assms(2,3) os_okD(2,3) [OF assms(1)]
  by (auto simp: store_put_def from_data_def Let_def split: sum.splits if_splits)

lemma store_put_read:
  assumes "os_ok os" and "store_put os blake3 root fs data = Inr (cid, fs')"
    and "\<not> os_exists os fs (blob_path root cid)"
  shows "os_read os fs' (blob_path root cid) = Inr data"
  using assms(2,3) os_okD(1) [OF assms(1)]
  by (auto simp: store_put_def from_data_def Let_def split: sum.splits if_splits)

text \<open>The store only grows: a blob that could be read before a \<open>put\<close> can be read after it.\<close>

lemma store_put_mono:
  assumes "os_ok os" and "store_put os blake3 root fs data = Inr (cid, fs')"
    and "os_read os fs (blob_path root i) = Inr bs"
  shows "os_read os fs' (blob_path root i) = Inr bs"
proof (cases "i = cid")
  case True
  then have "os_exists os fs (blob_path root cid)" using os_okD(4) [OF assms(1)] assms(3) by simp
  then have "fs' = fs" using assms(2) store_put_id [OF assms(2)]
    by (simp add: store_put_def from_data_def Let_def)
  then show ?thesis using assms(3) by simp
next
  case False
  then have "blob_path root i \<noteq> blob_path root cid" by (simp add: blob_path_inject)
  then show ?thesis using store_put_frame [OF assms(1,2)] assms(3) by simp
qed

lemma get_hex_of_id:
  assumes "length cid = 32" and "get_hex os blake3 root fs (to_hex cid) = Inr data"
  shows "blake3 data = cid"
  using assms store_get_hash by (simp add: get_hex_def content_id_round_trip)

lemma publishD:
  assumes "publish os blake3 from_json root fs dir = Inr (desc, fs1)"
  obtains mb man elf input where "os_read os fs (join dir ''job.json'') = Inr mb"
    and "from_json mb = Some man" and "os_read os fs (join dir (jm_elf man)) = Inr elf"
    and "os_read os fs (join dir (jm_input man)) = Inr input"
    and "desc = \<lparr>jd_job_id = jm_id man, jd_manifest = to_hex (blake3 mb), jd_elf = to_hex (blake3 elf),
                 jd_input = to_hex (blake3 input)\<rparr>"
  using assms
  by (auto simp: publish_def split: sum.splits option.splits dest!: store_put_id)

lemma materializeD:
  assumes "materialize os blake3 from_json root fs desc out = Inr fs'"
  obtains mb man elf input f1 f2 f3 where "get_hex os blake3 root fs (jd_manifest desc) = Inr mb"
    and "from_json mb = Some man" and "get_hex os blake3 root fs (jd_elf desc) = Inr elf"
    and "get_hex os blake3 root fs (jd_input desc) = Inr input"
    and "confined_name (jm_elf man) = Inr ()" and "confined_name (jm_input man) = Inr ()"
    and "os_write os f1 (join out ''job.json'') mb = Inr f2"
    and "os_write os f2 (join out (jm_elf man)) elf = Inr f3"
    and "os_write os f3 (join out (jm_input man)) input = Inr fs'"
  using assms by (auto simp: materialize_def split: sum.splits option.splits)

lemma written_files:
  assumes ok: "os_ok os"
    and w: "os_write os f1 (join out ''job.json'') mb = Inr f2"
      "os_write os f2 (join out (jm_elf man)) elf = Inr f3"
      "os_write os f3 (join out (jm_input man)) input = Inr fs'"
    and d: "jm_elf man \<noteq> ''job.json''" "jm_input man \<noteq> ''job.json''" "jm_elf man \<noteq> jm_input man"
  shows "os_read os fs' (join out ''job.json'') = Inr mb"
    and "os_read os fs' (join out (jm_elf man)) = Inr elf"
    and "os_read os fs' (join out (jm_input man)) = Inr input"
  using os_okD(1) [OF ok w(1)] os_okD(1) [OF ok w(2)] os_okD(1) [OF ok w(3)]
    os_okD(2) [OF ok w(2)] os_okD(2) [OF ok w(3)] d by simp_all

section \<open>Properties\<close>

text \<open>
  The store never serves wrong bytes: whatever is on disk, \<open>get\<close> returns only data whose
  BLAKE3 hash is the requested id.
\<close>

theorem store_get_integrity:
  assumes "store_get os blake3 root fs cid = Inr data"
  shows "blake3 data = cid"
  using assms by (rule store_get_hash)

theorem store_get_integrity_witness:
  "store_get disk (take 32) ''r'' [blob_path ''r'' [1, 2] \<mapsto> [1, 2]] [1, 2] = Inr [1, 2] \<and>
   take 32 [1, 2 :: u8] = [1, 2]"
proof -
  have "store_get disk (take 32) ''r'' [blob_path ''r'' [1, 2] \<mapsto> [1, 2]] [1, 2] = Inr [1, 2]"
    by (simp add: store_get_def disk_def from_data_def)
  from store_get_integrity [OF this] this show ?thesis by simp
qed

text \<open>
  A successful \<open>put\<close> returns the hash of the data; a blob that was not there before reads
  back as exactly that data, and every other blob reads as before.
\<close>

theorem store_put_get:
  assumes "os_ok os" and "store_put os blake3 root fs data = Inr (cid, fs')"
  shows "cid = blake3 data \<and>
         (\<not> os_exists os fs (blob_path root cid) \<longrightarrow> store_get os blake3 root fs' cid = Inr data) \<and>
         (\<forall>other. other \<noteq> cid \<longrightarrow> store_get os blake3 root fs' other = store_get os blake3 root fs other)"
proof -
  have c: "cid = blake3 data" using store_put_id [OF assms(2)] .
  have "\<not> os_exists os fs (blob_path root cid) \<Longrightarrow> store_get os blake3 root fs' cid = Inr data"
    using store_put_read [OF assms] c by (simp add: store_get_def from_data_def)
  moreover have "other \<noteq> cid \<Longrightarrow> store_get os blake3 root fs' other = store_get os blake3 root fs other" for other
    using store_put_frame [OF assms, of "blob_path root other"] by (simp add: store_get_def blob_path_inject)
  ultimately show ?thesis using c by blast
qed

theorem store_put_get_witness:
  "\<exists>fs'. store_put disk (take 32) ''r'' Map.empty [5, 6] = Inr ([5, 6], fs') \<and>
         store_get disk (take 32) ''r'' fs' [5, 6] = Inr [5, 6]"
proof -
  obtain fs' where p: "store_put disk (take 32) ''r'' Map.empty [5, 6] = Inr ([5, 6], fs')"
    by (simp add: store_put_def disk_def from_data_def Let_def)
  have "\<not> os_exists disk Map.empty (blob_path ''r'' [5, 6])" by (simp add: disk_def)
  then show ?thesis using store_put_get [OF disk_ok p] p by simp
qed

text \<open>
  Publishing a job directory and materialising its descriptor elsewhere, from whatever the
  store holds by then, gives the same job: \<open>load_dir\<close> on the new directory yields the same
  manifest, program and input, or one of the three published files and the blob the store holds for
  it are an explicit BLAKE3 collision.
\<close>

theorem publish_materialize_load:
  assumes ok: "os_ok os" and len: "\<forall>bs. length (blake3 bs) = 32"
    and job: "load_dir os from_json fs dir = Inr j"
    and names: "jm_elf (job_manifest j) \<noteq> ''job.json''" "jm_input (job_manifest j) \<noteq> ''job.json''"
      "jm_elf (job_manifest j) \<noteq> jm_input (job_manifest j)"
    and pub: "publish os blake3 from_json root fs dir = Inr (desc, fs1)"
    and mat: "materialize os blake3 from_json root fsm desc out = Inr fs2"
  shows "load_dir os from_json fs2 out = Inr (j\<lparr>job_dir := out\<rparr>) \<or>
         (\<exists>a b. collision blake3 a b \<and> get_hex os blake3 root fsm (to_hex (blake3 a)) = Inr b \<and>
                (os_read os fs (join dir ''job.json'') = Inr a \<or> a = job_elf j \<or> a = job_input j))"
proof -
  obtain mb man elf input where p: "os_read os fs (join dir ''job.json'') = Inr mb" "from_json mb = Some man"
    "os_read os fs (join dir (jm_elf man)) = Inr elf" "os_read os fs (join dir (jm_input man)) = Inr input"
    and desc: "desc = \<lparr>jd_job_id = jm_id man, jd_manifest = to_hex (blake3 mb),
                       jd_elf = to_hex (blake3 elf), jd_input = to_hex (blake3 input)\<rparr>"
    using publishD [OF pub] .
  have g: "jm_schema man = SCHEMA" "jm_isa man = abi_ISA"
    and j: "j = \<lparr>job_manifest = man, job_dir = dir, job_elf = elf, job_input = input\<rparr>"
    using job p by (auto simp: load_dir_def split: sum.splits if_splits)
  obtain mb' man' elf' input' f1 f2 f3 where m: "get_hex os blake3 root fsm (jd_manifest desc) = Inr mb'"
    "from_json mb' = Some man'" "get_hex os blake3 root fsm (jd_elf desc) = Inr elf'"
    "get_hex os blake3 root fsm (jd_input desc) = Inr input'"
    and c: "confined_name (jm_elf man') = Inr ()" "confined_name (jm_input man') = Inr ()"
    and w: "os_write os f1 (join out ''job.json'') mb' = Inr f2"
      "os_write os f2 (join out (jm_elf man')) elf' = Inr f3"
      "os_write os f3 (join out (jm_input man')) input' = Inr fs2"
    using materializeD [OF mat] .
  have h: "blake3 mb' = blake3 mb" "blake3 elf' = blake3 elf" "blake3 input' = blake3 input"
    using get_hex_of_id [OF spec [OF len]] m desc by simp_all
  show ?thesis
  proof (cases "mb' = mb \<and> elf' = elf \<and> input' = input")
    case True
    then have man: "man' = man" using m(2) p(2) by simp
    have d: "jm_elf man \<noteq> ''job.json''" "jm_input man \<noteq> ''job.json''" "jm_elf man \<noteq> jm_input man"
      using names j by simp_all
    show ?thesis
      using written_files [OF ok w(1) w(2,3)] True man d p(2) g c j
      by (intro disjI1) (simp add: load_dir_def)
  next
    case False
    then consider "mb' \<noteq> mb" | "elf' \<noteq> elf" | "input' \<noteq> input" by blast
    then have "\<exists>a b. collision blake3 a b \<and> get_hex os blake3 root fsm (to_hex (blake3 a)) = Inr b \<and>
                  (a = mb \<or> a = elf \<or> a = input)"
    proof cases
      case 1
      then show ?thesis using h(1) m(1) desc
        by (intro exI [of _ mb] exI [of _ mb']) (simp add: collision_def)
    next
      case 2
      then show ?thesis using h(2) m(3) desc
        by (intro exI [of _ elf] exI [of _ elf']) (simp add: collision_def)
    next
      case 3
      then show ?thesis using h(3) m(4) desc
        by (intro exI [of _ input] exI [of _ input']) (simp add: collision_def)
    qed
    moreover have "elf = job_elf j" "input = job_input j" using j by simp_all
    ultimately show ?thesis using p(1) by (intro disjI2) (simp only:, blast)
  qed
qed

definition pad32 :: "bytes \<Rightarrow> digest" where
  "pad32 bs = take 32 (bs @ replicate 32 0)"

definition demo_fs :: "string \<rightharpoonup> bytes" where
  "demo_fs = [join ''d'' ''job.json'' \<mapsto> [7], join ''d'' ''program.elf'' \<mapsto> [1], join ''d'' ''input.bin'' \<mapsto> [2]]"

definition demo_store :: "string \<rightharpoonup> bytes" where
  "demo_store = demo_fs(blob_path ''s'' (pad32 [7]) \<mapsto> [7], blob_path ''s'' (pad32 [1]) \<mapsto> [1],
     blob_path ''s'' (pad32 [2]) \<mapsto> [2])"

lemma demo_paths: "join ''d'' x \<noteq> blob_path ''s'' c" "blob_path ''s'' c \<noteq> join ''d'' x"
  by (simp_all add: blob_path_def blob_dir_def join_def)

lemma pad32_demo: "pad32 [7] \<noteq> pad32 [1]" "pad32 [7] \<noteq> pad32 [2]" "pad32 [1] \<noteq> pad32 [2]" "length (pad32 bs) = 32"
  by (simp_all add: pad32_def)

definition demo_desc :: job_descriptor where
  "demo_desc = \<lparr>jd_job_id = ''j1'', jd_manifest = to_hex (pad32 [7]), jd_elf = to_hex (pad32 [1]),
     jd_input = to_hex (pad32 [2])\<rparr>"

lemma demo_names: "confined_name ''program.elf'' = Inr ()" "confined_name ''input.bin'' = Inr ()"
  by (simp_all add: confined_name_def path_components_def is_relative_def piece_component_def)

lemma demo_publish: "publish disk pad32 (\<lambda>_. Some demo_manifest) ''s'' demo_fs ''d'' = Inr (demo_desc, demo_store)"
  using pad32_demo(1,2,3) pad32_demo(1,2,3) [symmetric]
  by (simp add: publish_def disk_def demo_fs_def demo_manifest_def store_put_def from_data_def Let_def
      demo_paths blob_path_inject demo_desc_def demo_store_def)

lemma demo_load: "load_dir disk (\<lambda>_. Some demo_manifest) demo_fs ''d'' =
    Inr \<lparr>job_manifest = demo_manifest, job_dir = ''d'', job_elf = [1], job_input = [2]\<rparr>"
  by (simp add: load_dir_def disk_def demo_fs_def demo_names demo_manifest_def SCHEMA_def)

lemma demo_get:
  assumes "b \<in> {[7], [1], [2]}"
  shows "get_hex disk pad32 ''s'' demo_store (to_hex (pad32 b)) = Inr b"
  using assms pad32_demo(1,2,3) pad32_demo(1,2,3) [symmetric]
  by (auto simp: get_hex_def content_id_round_trip pad32_demo(4) store_get_def disk_def demo_store_def
      from_data_def blob_path_inject)

lemma demo_materialize:
  obtains fs2 where "materialize disk pad32 (\<lambda>_. Some demo_manifest) ''s'' demo_store demo_desc ''o'' = Inr fs2"
proof -
  have "\<exists>fs2. materialize disk pad32 (\<lambda>_. Some demo_manifest) ''s'' demo_store demo_desc ''o'' = Inr fs2"
    by (simp add: materialize_def demo_desc_def demo_get demo_manifest_def demo_names)
      (simp add: disk_def)
  then show ?thesis using that by blast
qed

theorem publish_materialize_load_witness:
  "\<exists>fs2. publish disk pad32 (\<lambda>_. Some demo_manifest) ''s'' demo_fs ''d'' = Inr (demo_desc, demo_store) \<and>
         materialize disk pad32 (\<lambda>_. Some demo_manifest) ''s'' demo_store demo_desc ''o'' = Inr fs2 \<and>
         load_dir disk (\<lambda>_. Some demo_manifest) fs2 ''o'' =
           Inr \<lparr>job_manifest = demo_manifest, job_dir = ''o'', job_elf = [1], job_input = [2]\<rparr>"
proof -
  obtain fs2 where m: "materialize disk pad32 (\<lambda>_. Some demo_manifest) ''s'' demo_store demo_desc ''o'' = Inr fs2"
    by (rule demo_materialize)
  let ?job = "\<lparr>job_manifest = demo_manifest, job_dir = ''o'', job_elf = [1], job_input = [2]\<rparr>"
  have r: "os_read disk demo_fs (join ''d'' ''job.json'') = Inr [7]" by (simp add: disk_def demo_fs_def)
  have d: "jm_elf demo_manifest \<noteq> ''job.json''" "jm_input demo_manifest \<noteq> ''job.json''"
    "jm_elf demo_manifest \<noteq> jm_input demo_manifest" by (simp_all add: demo_manifest_def)
  have "False" if "collision pad32 a b" and "get_hex disk pad32 ''s'' demo_store (to_hex (pad32 a)) = Inr b"
    and "a \<in> {[7], [1], [2]}" for a b
    using that(1,2) demo_get [OF that(3)] by (simp add: collision_def)
  then have "load_dir disk (\<lambda>_. Some demo_manifest) fs2 ''o'' = Inr ?job"
    using publish_materialize_load [OF disk_ok _ demo_load _ _ _ demo_publish m, simplified] d r pad32_demo(4)
    by (metis insertCI Inr_inject)
  then show ?thesis using m demo_publish by blast
qed

lemma content_id_loop_ascii:
  "\<forall>c \<in> set s. char_byte c < 128 \<Longrightarrow> i + k \<le> length s div 2 \<Longrightarrow> content_id_loop s i k \<noteq> None"
proof (induction k arbitrary: i)
  case (Suc k)
  have b: "j \<le> length s \<Longrightarrow> is_char_boundary s j" for j
    using Suc.prems(1) by (cases "j = length s") (auto simp: is_char_boundary_def all_set_conv_all_nth not_le)
  have "content_id_loop s (Suc i) k \<noteq> None" using Suc by simp
  then show ?case using b [of "i * 2"] b [of "i * 2 + 2"] Suc.prems(2)
    by (auto split: option.split sum.split)
qed simp

text \<open>
  Parsing a content id from a 64-byte string slices the string at byte offsets. On ASCII
  text it always returns; on a string whose third byte continues a multi-byte character it
  panics, and such a string can arrive in a blob request before authentication.
\<close>

theorem content_id_from_hex_panics:
  assumes "length s = 64"
  shows "(\<not> is_char_boundary s 2 \<longrightarrow> content_id_from_hex s = None) \<and>
         ((\<forall>c \<in> set s. char_byte c < 128) \<longrightarrow> content_id_from_hex s \<noteq> None)"
proof -
  have "\<not> is_char_boundary s 2 \<Longrightarrow> content_id_loop s 0 32 = None"
    using content_id_loop.simps(2) [of s 0 31] by (simp add: numeral_2_eq_2 del: content_id_loop.simps)
  then show ?thesis using assms content_id_loop_ascii [of s 0 32] by (simp add: content_id_from_hex_def)
qed

theorem content_id_from_hex_panics_witness:
  "content_id_from_hex (CHR ''a'' # CHR 0xC3 # CHR 0xA9 # replicate 61 CHR ''0'') = None"
proof -
  let ?s = "CHR ''a'' # CHR 0xC3 # CHR 0xA9 # replicate 61 CHR ''0''"
  have "\<not> is_char_boundary ?s 2" by (simp add: is_char_boundary_def char_byte_def)
  then show ?thesis using content_id_from_hex_panics [of ?s] by simp
qed

end
