(* ===== verification/Wire.thy ===== *)
theory Wire
  imports Contentstore
begin

text \<open>
  The wire protocol (\<open>crates/wire/src/lib.rs\<close>): length-prefixed JSON frames over a byte stream,
  the message types, and the admission proof of work. A stream is the sequence of what its
  \<open>read\<close> calls meet: bytes in arbitrary pieces, a would-block (with the outcome of the timing test
  made at that moment), an I/O error; the end of the list is the closed connection.
  Main results: frames are received as sent whatever the chunking, an oversized announcement is
  refused before the body is read, and mining returns the least valid counter.
\<close>

section \<open>Frames\<close>

definition MAX_FRAME :: u32 where
  "MAX_FRAME = push_bit 20 64"

datatype 'e wire_error = Io 'e | TimedOut | WouldBlockErr | UnexpectedEof | Malformed | ConnectionClosed

datatype 'e read_event = RData bytes | RBlock bool | RErr 'e

datatype 'e read_res = ReadOk bytes | ReadBlock bool | ReadErr 'e

text \<open>\<open>stream.read(&mut buf)\<close> with \<open>n\<close> bytes of room; \<open>ReadOk []\<close> is \<open>Ok(0)\<close>.\<close>

fun stream_read :: "'e read_event list \<Rightarrow> nat \<Rightarrow> 'e read_res \<times> 'e read_event list" where
  "stream_read [] n = (ReadOk [], [])"
| "stream_read (RData bs # s) n =
     (if length bs \<le> n then (ReadOk bs, s) else (ReadOk (take n bs), RData (drop n bs) # s))"
| "stream_read (RBlock late # s) n = (ReadBlock late, s)"
| "stream_read (RErr e # s) n = (ReadErr e, s)"

definition send ::
    "('w \<Rightarrow> bytes \<Rightarrow> 'e + 'w) \<Rightarrow> ('w \<Rightarrow> 'e + 'w) \<Rightarrow> ('t \<Rightarrow> bytes option) \<Rightarrow> 'w \<Rightarrow> 't \<Rightarrow>
     'e wire_error + 'w" where
  "send write_all flush to_vec w msg =
     (case to_vec msg of
        None \<Rightarrow> Inl Malformed
      | Some json \<Rightarrow>
          if length json > unat MAX_FRAME then Inl Malformed
          else (case write_all w (le_bytes 4 (of_nat (length json) :: u32)) of
                  Inl e \<Rightarrow> Inl (Io e)
                | Inr w \<Rightarrow>
                    (case write_all w json of
                       Inl e \<Rightarrow> Inl (Io e)
                     | Inr w \<Rightarrow> (case flush w of Inl e \<Rightarrow> Inl (Io e) | Inr w \<Rightarrow> Inr w))))"

text \<open>The loop that fills the four bytes of the prefix; \<open>Inr None\<close> is the idle return.\<close>

function read_prefix ::
    "'e read_event list \<Rightarrow> bytes \<Rightarrow> ('e wire_error + bytes option) \<times> 'e read_event list" where
  "read_prefix s got =
     (if 4 \<le> length got then (Inr (Some got), s)
      else (case stream_read s (4 - length got) of
              (ReadOk bs, s) \<Rightarrow>
                if bs = [] then (Inl ConnectionClosed, s) else read_prefix s (got @ bs)
            | (ReadBlock late, s) \<Rightarrow>
                if got = [] \<and> late then (Inr None, s) else read_prefix s got
            | (ReadErr e, s) \<Rightarrow> (Inl (Io e), s)))"
  by pat_completeness auto

text \<open>The loop that fills the body; a would-block past the deadline is the stall error.\<close>

function read_body_loop ::
    "'e read_event list \<Rightarrow> nat \<Rightarrow> bytes \<Rightarrow> ('e wire_error + bytes) \<times> 'e read_event list" where
  "read_body_loop s len got =
     (if len \<le> length got then (Inr got, s)
      else (case stream_read s (len - length got) of
              (ReadOk bs, s) \<Rightarrow>
                if bs = [] then (Inl ConnectionClosed, s) else read_body_loop s len (got @ bs)
            | (ReadBlock late, s) \<Rightarrow>
                if late then (Inl TimedOut, s) else read_body_loop s len got
            | (ReadErr e, s) \<Rightarrow> (Inl (Io e), s)))"
  by pat_completeness auto

text \<open>\<open>read_exact\<close> of the standard library: any would-block is an error.\<close>

function read_exact ::
    "'e read_event list \<Rightarrow> nat \<Rightarrow> bytes \<Rightarrow> ('e wire_error + bytes) \<times> 'e read_event list" where
  "read_exact s len got =
     (if len \<le> length got then (Inr got, s)
      else (case stream_read s (len - length got) of
              (ReadOk bs, s) \<Rightarrow>
                if bs = [] then (Inl UnexpectedEof, s) else read_exact s len (got @ bs)
            | (ReadBlock late, s) \<Rightarrow> (Inl WouldBlockErr, s)
            | (ReadErr e, s) \<Rightarrow> (Inl (Io e), s)))"
  by pat_completeness auto

lemma stream_read_measure:
  assumes "stream_read s n = (r, s')" and "0 < n"
  shows "(\<exists>bs. r = ReadOk bs \<and> (bs = [] \<or> length s' < length s \<or> (s' \<noteq> [] \<and> length s' = length s \<and> length bs = n))
            \<and> length bs \<le> n) \<or>
         ((\<exists>late. r = ReadBlock late) \<and> length s' < length s) \<or> (\<exists>e. r = ReadErr e)"
  using assms by (cases "(s, n)" rule: stream_read.cases) (auto split: if_splits)

lemma stream_read_decreases:
  assumes "length got < len"
  shows "(ReadOk bs, s') = stream_read s (len - length got) \<Longrightarrow> bs \<noteq> [] \<Longrightarrow>
           length s' + (len - (length got + length bs)) < length s + len - length got"
    and "(ReadBlock late, s') = stream_read s (len - length got) \<Longrightarrow>
           length s' + len - length got < length s + len - length got"
  using stream_read_measure [of s "len - length got", OF sym] assms by fastforce+

termination read_prefix
  by (relation "measure (\<lambda>(s, got). length s + (4 - length got))")
    (simp_all add: not_le stream_read_decreases)

termination read_body_loop
  by (relation "measure (\<lambda>(s, len, got). length s + (len - length got))")
    (simp_all add: not_le stream_read_decreases)

termination read_exact
  by (relation "measure (\<lambda>(s, len, got). length s + (len - length got))")
    (simp_all add: not_le stream_read_decreases)

declare read_prefix.simps [simp del] read_body_loop.simps [simp del] read_exact.simps [simp del]

definition read_frame_body ::
    "(bytes \<Rightarrow> 't option) \<Rightarrow> 'e read_event list \<Rightarrow> u32 \<Rightarrow> ('e wire_error + 't) \<times> 'e read_event list" where
  "read_frame_body from_slice s len =
     (if len > MAX_FRAME then (Inl Malformed, s)
      else (case read_body_loop s (unat len) [] of
              (Inl e, s) \<Rightarrow> (Inl e, s)
            | (Inr buf, s) \<Rightarrow>
                (case from_slice buf of None \<Rightarrow> (Inl Malformed, s) | Some msg \<Rightarrow> (Inr msg, s))))"

definition receive_polled ::
    "(bytes \<Rightarrow> 't option) \<Rightarrow> 'e read_event list \<Rightarrow> ('e wire_error + 't option) \<times> 'e read_event list" where
  "receive_polled from_slice s =
     (case read_prefix s [] of
        (Inl e, s) \<Rightarrow> (Inl e, s)
      | (Inr None, s) \<Rightarrow> (Inr None, s)
      | (Inr (Some prefix), s) \<Rightarrow>
          (case read_frame_body from_slice s (from_le prefix) of
             (Inl e, s) \<Rightarrow> (Inl e, s)
           | (Inr msg, s) \<Rightarrow> (Inr (Some msg), s)))"

definition receive ::
    "(bytes \<Rightarrow> 't option) \<Rightarrow> 'e read_event list \<Rightarrow> ('e wire_error + 't) \<times> 'e read_event list" where
  "receive from_slice s =
     (case read_exact s 4 [] of
        (Inl UnexpectedEof, s) \<Rightarrow> (Inl ConnectionClosed, s)
      | (Inl e, s) \<Rightarrow> (Inl e, s)
      | (Inr len_buf, s) \<Rightarrow>
          (let len = from_le len_buf :: u32
           in if len > MAX_FRAME then (Inl Malformed, s)
              else (case read_exact s (unat len) [] of
                      (Inl e, s) \<Rightarrow> (Inl e, s)
                    | (Inr buf, s) \<Rightarrow>
                        (case from_slice buf of
                           None \<Rightarrow> (Inl Malformed, s) | Some msg \<Rightarrow> (Inr msg, s)))))"

section \<open>Messages\<close>

definition default_role :: string where
  "default_role = ''worker''"

datatype client_to_server =
    Hello (hello_pubkey: string) (hello_worker: string) (hello_port: "u16 option") (hello_role: string)
  | NonceSignature "string option" u64
  | BlobRequest string
  | JobResult worker_result
  | JobSubmission string job_descriptor string string bool
  | BlobUpload string string
  | ReceiptClaim string string string string string

datatype server_to_client =
    Nonce string u32
  | AuthOk string
  | AuthFailed string
  | JobAssignment job_descriptor "string list"
  | Blob "string option"
  | BetweenJobs
  | ShutDown string
  | JobOutcomeMsg string string "string list" "string option" bool "string option"
  | BlobAck string bool "string option"
  | SubmissionAck string bool "string option" bool

datatype peer_to_peer = PeerBlobRequest string | PeerBlob "string option"

section \<open>Admission proof of work\<close>

text \<open>\<open>u8::leading_zeros\<close>, from the most significant bit down.\<close>

definition u8_leading_zeros :: "u8 \<Rightarrow> nat" where
  "u8_leading_zeros b = length (takeWhile (\<lambda>i. \<not> bit b i) [7, 6, 5, 4, 3, 2, 1, 0])"

fun leading_zero_bits :: "bytes \<Rightarrow> nat" where
  "leading_zero_bits [] = 0"
| "leading_zero_bits (b # bs) =
     (if b = 0 then 8 + leading_zero_bits bs else u8_leading_zeros b)"

definition verify_pow :: "(bytes \<Rightarrow> digest) \<Rightarrow> bytes \<Rightarrow> u64 \<Rightarrow> u32 \<Rightarrow> bool" where
  "verify_pow blake3 nonce counter bits \<longleftrightarrow>
     leading_zero_bits (blake3 (nonce @ le_bytes 8 counter)) \<ge> unat (min bits 256)"

text \<open>Mining may search forever, so not returning is \<open>None\<close>.\<close>

partial_function (option) mine_from :: "(bytes \<Rightarrow> digest) \<Rightarrow> bytes \<Rightarrow> u32 \<Rightarrow> u64 \<Rightarrow> u64 option" where
  "mine_from blake3 nonce bits counter =
     (if verify_pow blake3 nonce counter bits then Some counter
      else mine_from blake3 nonce bits (counter + 1))"

definition mine_pow :: "(bytes \<Rightarrow> digest) \<Rightarrow> bytes \<Rightarrow> u32 \<Rightarrow> u64 option" where
  "mine_pow blake3 nonce bits = mine_from blake3 nonce bits 0"

section \<open>Frames survive chunking\<close>

text \<open>What a stream will deliver when no error intervenes, and streams on which none does.\<close>

fun stream_bytes :: "'e read_event list \<Rightarrow> bytes" where
  "stream_bytes [] = []"
| "stream_bytes (RData bs # s) = bs @ stream_bytes s"
| "stream_bytes (_ # s) = stream_bytes s"

fun quiet :: "'e read_event list \<Rightarrow> bool" where
  "quiet [] = True"
| "quiet (RData bs # s) = (bs \<noteq> [] \<and> quiet s)"
| "quiet (RBlock late # s) = (\<not> late \<and> quiet s)"
| "quiet (RErr e # s) = False"

lemma stream_read_quiet:
  assumes "quiet s" and "0 < n" and "stream_bytes s \<noteq> []" and "stream_read s n = (r, s')"
  shows "quiet s' \<and> ((\<exists>bs. r = ReadOk bs \<and> bs \<noteq> [] \<and> length bs \<le> n \<and> stream_bytes s = bs @ stream_bytes s') \<or>
                     (r = ReadBlock False \<and> stream_bytes s = stream_bytes s'))"
  using assms by (cases "(s, n)" rule: stream_read.cases) (auto split: if_splits)

lemma read_body_loop_quiet:
  assumes "quiet s" and "stream_bytes s = b @ rest" and "length got + length b = len"
  shows "\<exists>s'. read_body_loop s len got = (Inr (got @ b), s') \<and> quiet s' \<and> stream_bytes s' = rest"
  using assms
proof (induction s len got arbitrary: b rule: read_body_loop.induct)
  case (1 s len got)
  note IH = 1(1,2) and prems = 1(3-)
  show ?case
  proof (cases "len \<le> length got")
    case True
    then have "length b = 0" using prems(3) by linarith
    then have "b = []" by simp
    then show ?thesis using prems True by (simp add: read_body_loop.simps)
  next
    case False
    then have ne: "stream_bytes s \<noteq> []" using prems by auto
    obtain r s' where r: "stream_read s (len - length got) = (r, s')" by fastforce
    note rq = stream_read_quiet [OF prems(1) _ ne r]
    have q: "quiet s'" using rq False by auto
    consider (data) bs where "r = ReadOk bs" "bs \<noteq> []" "length bs \<le> len - length got"
        "stream_bytes s = bs @ stream_bytes s'"
      | (block) "r = ReadBlock False" "stream_bytes s = stream_bytes s'"
      using rq False by auto
    then show ?thesis
    proof cases
      case data
      define c where "c = drop (length bs) b"
      have "length bs \<le> length b" using data prems(3) by linarith
      moreover have "take (length bs) (b @ rest) = bs" "drop (length bs) (b @ rest) = stream_bytes s'"
        using data(4) prems(2) by simp_all
      ultimately have "take (length bs) b = bs \<and> c @ rest = stream_bytes s'" by (simp add: c_def)
      then have b: "b = bs @ c" "stream_bytes s' = c @ rest"
        using append_take_drop_id [of "length bs" b] by (simp_all add: c_def)
      have "\<exists>s''. read_body_loop s' len (got @ bs) = (Inr ((got @ bs) @ c), s'') \<and> quiet s'' \<and>
                  stream_bytes s'' = rest"
        using prems(3) b False data(2) by (intro IH(1) [OF False r [symmetric] data(1) _ q]) simp_all
      moreover have "read_body_loop s len got = read_body_loop s' len (got @ bs)"
        using False r data by (subst read_body_loop.simps) simp
      ultimately show ?thesis using b by simp
    next
      case block
      have "read_body_loop s len got = read_body_loop s' len got"
        using False r block by (subst read_body_loop.simps) simp
      then show ?thesis using IH(2) [OF False r [symmetric] block(1) _ q] block prems by simp
    qed
  qed
qed

lemma stream_read_quiet_res:
  assumes "quiet s" and "stream_read s n = (r, s')" and "0 < n"
  shows "quiet s' \<and> ((\<exists>bs. r = ReadOk bs) \<or> r = ReadBlock False)"
  using assms by (cases "(s, n)" rule: stream_read.cases) (auto split: if_splits)

lemma read_prefix_body:
  "quiet s \<Longrightarrow> read_prefix s got =
     (case read_body_loop s 4 got of (Inl e, s) \<Rightarrow> (Inl e, s) | (Inr b, s) \<Rightarrow> (Inr (Some b), s))"
proof (induction s got rule: read_prefix.induct)
  case (1 s got)
  obtain r s' where r: "stream_read s (4 - length got) = (r, s')" by fastforce
  note IH = 1(1,2) [OF _ r [symmetric]]
  show ?case
  proof (cases "4 \<le> length got")
    case True
    then show ?thesis by (subst read_prefix.simps, subst read_body_loop.simps) simp
  next
    case False
    then have q: "quiet s'" and rr: "(\<exists>bs. r = ReadOk bs) \<or> r = ReadBlock False"
      using stream_read_quiet_res [OF 1(3) r] by auto
    show ?thesis
      using rr IH False q r by (subst read_prefix.simps, subst read_body_loop.simps) auto
  qed
qed

lemma unat_MAX_FRAME: "unat MAX_FRAME = 2 ^ 26"
  by (simp add: MAX_FRAME_def)

lemma le_bytes_4:
  "le_bytes 4 (w :: u32) = [ucast w, ucast (drop_bit 8 w), ucast (drop_bit 16 w), ucast (drop_bit 24 w)]"
  by (rule nth_equalityI) (auto simp: nth_le_bytes less_Suc_eq numeral_nat)

definition frame :: "bytes \<Rightarrow> bytes" where
  "frame json = le_bytes 4 (of_nat (length json) :: u32) @ json"

lemma receive_polled_frame:
  assumes "quiet s" and "stream_bytes s = frame json @ rest" and "length json \<le> 2 ^ 26"
    and "from_slice json = Some msg"
  shows "\<exists>s'. receive_polled from_slice s = (Inr (Some msg), s') \<and> quiet s' \<and> stream_bytes s' = rest"
proof -
  let ?p = "le_bytes 4 (of_nat (length json) :: u32)"
  obtain s1 where s1: "read_body_loop s 4 [] = (Inr ?p, s1)" "quiet s1" "stream_bytes s1 = json @ rest"
    using read_body_loop_quiet [OF assms(1), of ?p "json @ rest" "[]" 4] assms(2) by (auto simp: frame_def)
  obtain s2 where s2: "read_body_loop s1 (length json) [] = (Inr json, s2)" "quiet s2" "stream_bytes s2 = rest"
    using read_body_loop_quiet [OF s1(2,3), of "[]" "length json"] by auto
  have n: "unat (of_nat (length json) :: u32) = length json" using assms(3) by (simp add: unat_of_nat)
  then have "\<not> (of_nat (length json) :: u32) > MAX_FRAME"
    using assms(3) by (simp add: word_less_nat_alt unat_MAX_FRAME)
  then show ?thesis
    using s1 s2 n assms(4) read_prefix_body [OF assms(1), of "[]"]
    by (simp add: receive_polled_def read_frame_body_def)
qed

text \<open>Receiving \<open>k\<close> messages in a row.\<close>

fun receive_many :: "(bytes \<Rightarrow> 't option) \<Rightarrow> nat \<Rightarrow> 'e read_event list \<Rightarrow> 't list option" where
  "receive_many from_slice 0 s = Some []"
| "receive_many from_slice (Suc k) s =
     (case receive_polled from_slice s of
        (Inr (Some msg), s) \<Rightarrow> map_option (Cons msg) (receive_many from_slice k s)
      | _ \<Rightarrow> None)"

lemma receive_many_frames:
  assumes "quiet s" and "stream_bytes s = concat (map frame js) @ rest"
    and "\<forall>j \<in> set js. length j \<le> 2 ^ 26" and "map from_slice js = map Some msgs"
  shows "receive_many from_slice (length js) s = Some msgs"
  using assms
proof (induction js arbitrary: s msgs)
  case (Cons j js)
  obtain msg msgs' where m: "msgs = msg # msgs'" "from_slice j = Some msg" "map from_slice js = map Some msgs'"
    using Cons.prems(4) by (cases msgs) auto
  obtain s' where s': "receive_polled from_slice s = (Inr (Some msg), s')" "quiet s'"
    "stream_bytes s' = concat (map frame js) @ rest"
    using receive_polled_frame [OF Cons.prems(1), of j "concat (map frame js) @ rest" from_slice msg]
      Cons.prems m(2) by auto
  show ?case using Cons.IH [OF s'(2,3) _ m(3)] Cons.prems(3) s'(1) m(1) by simp
qed simp

text \<open>What \<open>send\<close> puts on a stream whose writes append.\<close>

lemma send_appends:
  assumes "send (\<lambda>w bs. Inr (w @ bs)) Inr to_vec w msg = Inr w'"
  shows "\<exists>json. to_vec msg = Some json \<and> length json \<le> 2 ^ 26 \<and> w' = w @ frame json"
  using assms
  by (auto simp: send_def frame_def unat_MAX_FRAME split: option.splits if_splits)



text \<open>
  A peer that announces more than \<open>MAX_FRAME\<close> bytes is refused before its body is read: the
  receiver returns an error and leaves the rest of the stream untouched.
\<close>

theorem oversized_frame_refused:
  assumes "quiet s" and "stream_bytes s = le_bytes 4 (n :: u32) @ rest" and "n > MAX_FRAME"
  shows "\<exists>s'. receive_polled from_slice s = (Inl Malformed, s') \<and> stream_bytes s' = rest"
proof -
  obtain s1 where "read_body_loop s 4 [] = (Inr (le_bytes 4 n), s1)" "stream_bytes s1 = rest"
    using read_body_loop_quiet [OF assms(1,2), of "[]" 4] by auto
  then show ?thesis
    using assms(3) read_prefix_body [OF assms(1), of "[]"]
    by (simp add: receive_polled_def read_frame_body_def)
qed

theorem oversized_frame_refused_witness:
  "\<exists>s'. receive_polled (\<lambda>j. Some j) ([RData [0, 0, 0, 128, 7]] :: unit read_event list) = (Inl Malformed, s') \<and>
        stream_bytes s' = [7]"
  using oversized_frame_refused [of "[RData [0, 0, 0, 128, 7]] :: unit read_event list" "0x80000000" "[7]"]
  by (simp add: MAX_FRAME_def le_bytes_4)

section \<open>Proof of work\<close>

lemma mine_from_least:
  assumes "verify_pow blake3 nonce c bits" and "start \<le> c"
    and "\<forall>k. start \<le> k \<and> k < c \<longrightarrow> \<not> verify_pow blake3 nonce k bits"
  shows "mine_from blake3 nonce bits start = Some c"
  using assms(2,3)
proof (induction "unat c - unat start" arbitrary: start)
  case 0
  then have "start = c" by (simp add: word_le_nat_alt word_unat_eq_iff)
  then show ?case using assms(1) by (subst mine_from.simps) simp
next
  case (Suc d)
  then have lt: "unat start < unat c" by simp
  then have u: "unat (start + 1) = Suc (unat start)" by (rule unat_inc)
  have "\<not> verify_pow blake3 nonce start bits" using Suc.prems(2) lt by (simp add: word_less_nat_alt)
  moreover have "mine_from blake3 nonce bits (start + 1) = Some c"
    using Suc.hyps(2) Suc.prems lt u
    by (intro Suc.hyps(1)) (auto simp: word_le_nat_alt word_less_nat_alt)
  ultimately show ?case by (subst mine_from.simps) simp
qed

text \<open>The integer a digest denotes, most significant byte first.\<close>

fun be_value :: "bytes \<Rightarrow> nat" where
  "be_value [] = 0"
| "be_value (b # bs) = unat b * 256 ^ length bs + be_value bs"

lemma be_value_less: "be_value bs < 256 ^ length bs"
proof (induction bs)
  case (Cons b bs)
  have "unat b * 256 ^ length bs + be_value bs < (unat b + 1) * 256 ^ length bs" using Cons by simp
  also have "\<dots> \<le> 256 * 256 ^ length bs" using unat_u8_lt [of b] by (intro mult_le_mono1) simp
  finally show ?case by simp
qed simp

lemma length_takeWhile_ge: "k \<le> length (takeWhile P xs) \<longleftrightarrow> k \<le> length xs \<and> (\<forall>x \<in> set (take k xs). P x)"
proof (induction xs arbitrary: k)
  case (Cons x xs)
  then show ?case by (cases k) auto
qed simp

lemma u8_less_exp: "n \<le> 8 \<Longrightarrow> unat (b :: u8) < 2 ^ n \<longleftrightarrow> (\<forall>i < 8. n \<le> i \<longrightarrow> \<not> bit b i)"
proof -
  assume n: "n \<le> 8"
  have "unat b < 2 ^ n \<longleftrightarrow> take_bit n (unat b) = unat b" by (simp add: take_bit_nat_eq_self_iff)
  also have "\<dots> \<longleftrightarrow> take_bit n b = b" by (simp add: word_unat_eq_iff unsigned_take_bit_eq)
  also have "\<dots> \<longleftrightarrow> (\<forall>i < 8. n \<le> i \<longrightarrow> \<not> bit b i)"
    by (auto simp: bit_eq_iff bit_take_bit_iff not_less dest: bit_imp_le_length)
  finally show ?thesis .
qed

lemma u8_leading_zeros_ge: "k \<le> 8 \<Longrightarrow> k \<le> u8_leading_zeros b \<longleftrightarrow> unat b < 2 ^ (8 - k)"
proof -
  assume k: "k \<le> 8"
  have "set (take k [7, 6, 5, 4, 3, 2, 1, 0 :: nat]) = {i. i < 8 \<and> 8 - k \<le> i}"
  proof -
    consider "k = 0" | "k = 1" | "k = 2" | "k = 3" | "k = 4" | "k = 5" | "k = 6" | "k = 7" | "k = 8"
      using k by linarith
    then show ?thesis by cases auto
  qed
  then have "k \<le> u8_leading_zeros b \<longleftrightarrow> (\<forall>i \<in> {i. i < 8 \<and> 8 - k \<le> i}. \<not> bit b i)"
    using k unfolding u8_leading_zeros_def length_takeWhile_ge by simp
  also have "\<dots> \<longleftrightarrow> unat b < 2 ^ (8 - k)" using u8_less_exp [of "8 - k" b] by auto
  finally show ?thesis .
qed

lemma scaled_less_iff:
  fixes b r M k :: nat
  assumes "r < M" and "k \<le> 8"
  shows "(b * M + r) * 2 ^ k < 256 * M \<longleftrightarrow> b < 2 ^ (8 - k)"
proof
  have "(2 :: nat) ^ (8 - k) * 2 ^ k = 256" using assms(2) by (simp flip: power_add)
  then have p: "2 ^ (8 - k) * M * 2 ^ k = 256 * M" by (metis mult.assoc mult.commute)
  {
    assume l: "(b * M + r) * 2 ^ k < 256 * M"
    show "b < 2 ^ (8 - k)"
    proof (rule ccontr)
      assume "\<not> b < 2 ^ (8 - k)"
      then have "2 ^ (8 - k) * M * 2 ^ k \<le> (b * M + r) * 2 ^ k" by (intro mult_le_mono1) (simp add: trans_le_add1)
      then show False using l unfolding p by simp
    qed
  }
  assume "b < 2 ^ (8 - k)"
  then have "(b + 1) * M * 2 ^ k \<le> 2 ^ (8 - k) * M * 2 ^ k" by (intro mult_le_mono1) simp
  also have "\<dots> = 256 * M" by (rule p)
  finally have "(b + 1) * M * 2 ^ k \<le> 256 * M" .
  moreover have "(b * M + r) * 2 ^ k < (b + 1) * M * 2 ^ k" using assms(1) by simp
  ultimately show "(b * M + r) * 2 ^ k < 256 * M" by linarith
qed

lemma leading_zero_bits_value:
  "k \<le> 8 * length bs \<Longrightarrow> k \<le> leading_zero_bits bs \<longleftrightarrow> be_value bs * 2 ^ k < 256 ^ length bs"
proof (induction bs arbitrary: k)
  case (Cons b bs)
  let ?M = "256 ^ length bs :: nat"
  have r: "be_value bs < ?M" by (rule be_value_less)
  show ?case
  proof (cases "k \<le> 8")
    case True
    have "be_value (b # bs) * 2 ^ k < 256 ^ length (b # bs) \<longleftrightarrow> unat b < 2 ^ (8 - k)"
      using scaled_less_iff [OF r True, of "unat b"] by simp
    also have "\<dots> \<longleftrightarrow> k \<le> u8_leading_zeros b" using u8_leading_zeros_ge [OF True] by simp
    also have "\<dots> \<longleftrightarrow> k \<le> leading_zero_bits (b # bs)"
      using True u8_leading_zeros_ge [of 8 b] by (auto simp: u8_leading_zeros_def)
    finally show ?thesis by simp
  next
    case False
    then obtain j where k: "k = 8 + j" using le_Suc_ex [of 8 k] by auto
    show ?thesis
    proof (cases "b = 0")
      case True
      have "be_value bs * 2 ^ k < 256 * ?M \<longleftrightarrow> be_value bs * 2 ^ j < ?M" by (simp add: k power_add)
      then show ?thesis using True Cons.IH [of j] Cons.prems k by simp
    next
      case b: False
      have "\<not> 8 \<le> u8_leading_zeros b" using u8_leading_zeros_ge [of 8 b] b by (simp add: unat_eq_0)
      then have "\<not> k \<le> leading_zero_bits (b # bs)" using b k by simp
      moreover have "256 * ?M \<le> be_value (b # bs) * 2 ^ k"
      proof -
        have "1 * ?M \<le> unat b * ?M" using b by (intro mult_le_mono1) (simp add: unat_gt_0 Suc_le_eq)
        then have "?M \<le> be_value (b # bs)" unfolding be_value.simps by linarith
        moreover have "(2 :: nat) ^ 8 \<le> 2 ^ k" using k by (intro power_increasing) simp_all
        ultimately have "?M * 2 ^ 8 \<le> be_value (b # bs) * 2 ^ k" by (rule mult_le_mono)
        then show ?thesis by (simp add: mult.commute)
      qed
      ultimately show ?thesis by simp
    qed
  qed
qed simp

text \<open>
  A proof of work is valid exactly when the 256-bit digest of nonce and counter, read as a
  big-endian number, is below \<open>2^(256 - bits)\<close>; and whenever some counter is valid, mining
  returns the smallest one.
\<close>

theorem mining_finds_least:
  assumes "\<forall>bs. length (blake3 bs) = 32" and "verify_pow blake3 nonce c bits"
  shows "(verify_pow blake3 nonce k bits \<longleftrightarrow>
            be_value (blake3 (nonce @ le_bytes 8 k)) * 2 ^ unat (min bits 256) < 2 ^ 256) \<and>
         (\<exists>m. mine_pow blake3 nonce bits = Some m \<and> verify_pow blake3 nonce m bits \<and>
              (\<forall>j. j < m \<longrightarrow> \<not> verify_pow blake3 nonce j bits))"
proof -
  have l: "length (blake3 bs) = 32" for bs using assms(1) by blast
  have "unat (min bits 256) \<le> 256" by (simp add: min_def word_le_nat_alt)
  then have "verify_pow blake3 nonce k bits \<longleftrightarrow>
      be_value (blake3 (nonce @ le_bytes 8 k)) * 2 ^ unat (min bits 256) < 256 ^ 32"
    using leading_zero_bits_value [of "unat (min bits 256)" "blake3 (nonce @ le_bytes 8 k)"] l
    by (simp add: verify_pow_def)
  moreover have "(256 :: nat) ^ 32 = 2 ^ 256" by simp
  moreover obtain m where m: "verify_pow blake3 nonce m bits" "\<forall>j. j < m \<longrightarrow> \<not> verify_pow blake3 nonce j bits"
    using ex_has_least_nat [of "\<lambda>c. verify_pow blake3 nonce c bits" c unat] assms(2)
    by (metis not_less word_less_nat_alt)
  ultimately show ?thesis using mine_from_least [OF m(1), of 0] by (auto simp: mine_pow_def)
qed

theorem mining_finds_least_witness:
  "(\<forall>bs. length (pad32 bs) = 32) \<and> verify_pow pad32 [] 0 8 \<and>
   (\<exists>m. mine_pow pad32 [] 8 = Some m \<and> verify_pow pad32 [] m 8)"
proof -
  have l: "\<forall>bs. length (pad32 bs) = 32" by (simp add: pad32_demo)
  have "take 8 (le_bytes 8 (0 :: u64)) = replicate 8 0" by (simp add: list_eq_iff_nth_eq nth_le_bytes)
  then have "le_bytes 8 (0 :: u64) = replicate 8 0" by simp
  then have "pad32 (le_bytes 8 (0 :: u64)) = replicate 32 0" by (simp add: pad32_def flip: replicate_add)
  moreover have "leading_zero_bits (replicate n 0) = 8 * n" for n by (induction n) simp_all
  ultimately have v: "verify_pow pad32 [] 0 8" by (simp add: verify_pow_def min_def)
  show ?thesis using mining_finds_least [OF l v] l v by blast
qed

end
