(* ===== verification/Quorum.thy ===== *)
theory Quorum
  imports Jobfmt
begin

text \<open>
  The quorum decision over worker results (\<open>crates/coordinator/src/lib.rs\<close>): grouping by result
  hash, the strict-majority decision, slashing, and the signature check. Ed25519 is a parameter.
  Main results: what an acceptance guarantees, that an acceptance is complete, unique and, with
  fewer faulty workers than the threshold, correct; and what slashing touches.
\<close>

section \<open>Operations\<close>

datatype decision =
    Accept (accept_hash: string) (accept_output: "string option") (accept_agreed: "string list") (accept_zk: bool)
  | Escalate
  | Reject string

text \<open>One vote per worker: the first result of each worker id.\<close>

fun dedup_workers :: "string set \<Rightarrow> worker_result list \<Rightarrow> worker_result list" where
  "dedup_workers seen [] = []"
| "dedup_workers seen (r # rs) =
     (if worker_id r \<in> seen then dedup_workers seen rs
      else r # dedup_workers (insert (worker_id r) seen) rs)"

type_synonym group = "string \<times> worker_result list"

text \<open>Push \<open>r\<close> onto the first group with its hash, or open a new group at the end.\<close>

fun group_push :: "group list \<Rightarrow> worker_result \<Rightarrow> group list" where
  "group_push [] r = [(result_hash r, [r])]"
| "group_push ((h, g) # gs) r =
     (if h = result_hash r then (h, g @ [r]) # gs else (h, g) # group_push gs r)"

definition group_by :: "worker_result list \<Rightarrow> group list" where
  "group_by rs = foldl group_push [] rs"

definition reject_chain :: string where
  "reject_chain = ''winning group disagrees on chunk chain (dispute required)''"

definition reject_trapped :: string where
  "reject_trapped = ''majority of workers trapped: job is broken''"

definition reject_exhausted :: string where
  "reject_exhausted = ''no majority after escalation; bonds returned''"

definition threshold :: "nat \<Rightarrow> nat" where
  "threshold pool = pool div 2 + 1"

text \<open>The test of the winning group; \<open>None\<close> when it is below the threshold.\<close>

definition decide_halted :: "worker_result list \<Rightarrow> nat \<Rightarrow> decision option" where
  "decide_halted halted thr =
     (let groups = sort_key (\<lambda>(_, g). - int (length g)) (group_by halted);
          (hash, grp) = groups ! 0
      in if length grp \<ge> thr then
           (let first_chain = wr_chunk_hashes (grp ! 0)
            in if list_all (\<lambda>r. wr_chunk_hashes r = first_chain) grp
               then Some (Accept hash (output_hex (grp ! 0)) (map worker_id grp) False)
               else Some (Reject reject_chain))
         else None)"

definition decide :: "worker_result list \<Rightarrow> nat \<Rightarrow> decision" where
  "decide pool_results expected_pool =
     (let refs = dedup_workers {} pool_results;
          received = length refs;
          pool = max expected_pool received;
          thr = threshold pool;
          halted = filter (\<lambda>r. wr_status r = ''halted'') refs;
          trapped = received - length halted
      in (case (if length halted \<ge> thr then decide_halted halted thr else None) of
            Some d \<Rightarrow> d
          | None \<Rightarrow>
              if trapped \<ge> thr then Reject reject_trapped
              else if pool \<ge> 5 then Reject reject_exhausted
              else Escalate))"

definition slashing :: "decision \<Rightarrow> worker_result list \<Rightarrow> (string \<times> int) list" where
  "slashing d pool_results =
     (case d of
        Accept _ _ agreed _ \<Rightarrow>
          map (\<lambda>r. (worker_id r, if worker_id r \<in> set agreed then 10 else - 100)) pool_results
      | _ \<Rightarrow> map (\<lambda>r. (worker_id r, 0)) pool_results)"

datatype sig_error = Unsigned | SigPubkeyHex hex_error | SigHex hex_error | SigPubkey | SigInvalid

text \<open>
  \<open>vk_from_bytes\<close> and \<open>vk_verify\<close> are the Ed25519 library: parsing a public key and checking a
  signature over a message.
\<close>

definition verify_signature ::
    "(bytes \<Rightarrow> 'vk option) \<Rightarrow> ('vk \<Rightarrow> bytes \<Rightarrow> bytes \<Rightarrow> bool) \<Rightarrow> worker_result \<Rightarrow> sig_error + unit" where
  "verify_signature vk_from_bytes vk_verify r =
     (case (pubkey_hex r, sig_hex r) of
        (Some pk, Some sig) \<Rightarrow>
          (case from_hex pk 32 of
             Inl e \<Rightarrow> Inl (SigPubkeyHex e)
           | Inr pk_bytes \<Rightarrow>
               (case from_hex sig 64 of
                  Inl e \<Rightarrow> Inl (SigHex e)
                | Inr sig_bytes \<Rightarrow>
                    (case vk_from_bytes pk_bytes of
                       None \<Rightarrow> Inl SigPubkey
                     | Some vk \<Rightarrow>
                         if vk_verify vk (signing_message r) sig_bytes then Inr () else Inl SigInvalid)))
      | _ \<Rightarrow> Inl Unsigned)"

section \<open>Grouping\<close>

lemma dedup_workers_props:
  "distinct (map worker_id (dedup_workers seen rs)) \<and>
   set (dedup_workers seen rs) \<subseteq> set rs \<and>
   worker_id ` set (dedup_workers seen rs) = worker_id ` set rs - seen"
  by (induction seen rs rule: dedup_workers.induct) auto

lemma dedup_workers_distinct:
  "distinct (map worker_id rs) \<Longrightarrow> seen \<inter> worker_id ` set rs = {} \<Longrightarrow> dedup_workers seen rs = rs"
  by (induction seen rs rule: dedup_workers.induct) auto

text \<open>The group of a hash after the fold: the results with that hash, in order.\<close>

lemma group_push_map:
  "distinct (map fst gs) \<Longrightarrow>
     distinct (map fst (group_push gs r)) \<and>
     fst ` set (group_push gs r) = insert (result_hash r) (fst ` set gs) \<and>
     map_of (group_push gs r) h =
       (if h = result_hash r then Some ((case map_of gs h of None \<Rightarrow> [] | Some g \<Rightarrow> g) @ [r]) else map_of gs h)"
  by (induction gs r rule: group_push.induct) (auto simp: rev_image_eqI)

lemma group_by_fold:
  "distinct (map fst (foldl group_push [] rs)) \<and>
   map_of (foldl group_push [] rs) h =
     (if \<exists>r \<in> set rs. result_hash r = h then Some (filter (\<lambda>r. result_hash r = h) rs) else None)"
proof (induction rs rule: rev_induct)
  case (snoc r rs)
  let ?gs = "foldl group_push [] rs"
  have d: "distinct (map fst ?gs)"
    and m: "map_of ?gs h = (if \<exists>r \<in> set rs. result_hash r = h then Some (filter (\<lambda>r. result_hash r = h) rs) else None)"
    using snoc by auto
  note p = group_push_map [OF d, of r h]
  show ?case using p m by (auto simp: filter_empty_conv)
qed simp

lemma group_by_distinct: "distinct (map fst (group_by rs))"
  using group_by_fold [of rs] by (simp add: group_by_def)

lemma group_by_mem:
  "(h, g) \<in> set (group_by rs) \<longleftrightarrow> g = filter (\<lambda>r. result_hash r = h) rs \<and> g \<noteq> []"
proof -
  have "(h, g) \<in> set (group_by rs) \<longleftrightarrow> map_of (group_by rs) h = Some g"
    using group_by_distinct by (simp add: map_of_eq_Some_iff)
  then show ?thesis using group_by_fold [of rs h] by (auto simp: group_by_def filter_empty_conv)
qed

lemma group_by_Nil: "group_by rs = [] \<longleftrightarrow> rs = []"
proof
  assume e: "group_by rs = []"
  show "rs = []"
  proof (rule ccontr)
    assume "rs \<noteq> []"
    then obtain r where "r \<in> set rs" by (cases rs) auto
    then have "(result_hash r, filter (\<lambda>q. result_hash q = result_hash r) rs) \<in> set (group_by rs)"
      by (auto simp: group_by_mem filter_empty_conv)
    then show False using e by simp
  qed
qed (simp add: group_by_def)

lemma sorted_first_least: "sorted (map k xs) \<Longrightarrow> x \<in> set xs \<Longrightarrow> k (xs ! 0) \<le> k x"
  by (cases xs) auto

text \<open>The sorted list starts with a largest group.\<close>

lemma largest_group:
  assumes "rs \<noteq> []"
  obtains h g where "sort_key (\<lambda>(_, g). - int (length g)) (group_by rs) ! 0 = (h, g)"
    and "g = filter (\<lambda>r. result_hash r = h) rs" and "g \<noteq> []"
    and "\<And>h'. length (filter (\<lambda>r. result_hash r = h') rs) \<le> length g"
proof -
  let ?k = "\<lambda>(_ :: string, g :: worker_result list). - int (length g)"
  let ?s = "sort_key ?k (group_by rs)"
  have ne: "?s \<noteq> []" using assms group_by_Nil by (metis set_empty set_sort)
  obtain h g where hg: "?s ! 0 = (h, g)" by fastforce
  have "(h, g) \<in> set ?s" using ne hg by (metis length_greater_0_conv nth_mem)
  then have "(h, g) \<in> set (group_by rs)" by simp
  then have g: "g = filter (\<lambda>r. result_hash r = h) rs" "g \<noteq> []" unfolding group_by_mem by blast+
  have least: "?k (?s ! 0) \<le> ?k x" if "x \<in> set ?s" for x
    by (rule sorted_first_least [OF sorted_sort_key that])
  have "length (filter (\<lambda>r. result_hash r = h') rs) \<le> length g" for h'
  proof (cases "filter (\<lambda>r. result_hash r = h') rs = []")
    case False
    then have "(h', filter (\<lambda>r. result_hash r = h') rs) \<in> set ?s" by (simp add: group_by_mem)
    from least [OF this] hg show ?thesis by simp
  qed simp
  with hg g show ?thesis by (rule that)
qed

section \<open>The decision\<close>

text \<open>The halted results that count: one per worker, at the first result of that worker.\<close>

definition votes :: "worker_result list \<Rightarrow> worker_result list" where
  "votes rs = filter (\<lambda>r. wr_status r = ''halted'') (dedup_workers {} rs)"

definition votes_for :: "worker_result list \<Rightarrow> string \<Rightarrow> worker_result list" where
  "votes_for rs h = filter (\<lambda>r. result_hash r = h) (votes rs)"

definition decision_pool :: "worker_result list \<Rightarrow> nat \<Rightarrow> nat" where
  "decision_pool rs expected = max expected (length (dedup_workers {} rs))"

lemma decide_unfold:
  "decide rs expected =
     (case (if length (votes rs) \<ge> threshold (decision_pool rs expected)
            then decide_halted (votes rs) (threshold (decision_pool rs expected)) else None) of
        Some d \<Rightarrow> d
      | None \<Rightarrow>
          if length (dedup_workers {} rs) - length (votes rs) \<ge> threshold (decision_pool rs expected)
          then Reject reject_trapped
          else if decision_pool rs expected \<ge> 5 then Reject reject_exhausted else Escalate)"
  by (simp add: decide_def Let_def votes_def decision_pool_def)

lemma threshold_pos [simp]: "0 < threshold n"
  by (simp add: threshold_def)

lemma decide_halted_cases:
  assumes "threshold n \<le> length vs"
  obtains h where "\<And>h'. length (filter (\<lambda>r. result_hash r = h') vs) \<le> length (filter (\<lambda>r. result_hash r = h) vs)"
    and "filter (\<lambda>r. result_hash r = h) vs \<noteq> []"
    and "decide_halted vs (threshold n) =
      (let g = filter (\<lambda>r. result_hash r = h) vs
       in if length g \<ge> threshold n then
            if \<forall>r \<in> set g. wr_chunk_hashes r = wr_chunk_hashes (g ! 0)
            then Some (Accept h (output_hex (g ! 0)) (map worker_id g) False)
            else Some (Reject reject_chain)
          else None)"
proof -
  have "vs \<noteq> []" using assms by (auto simp: threshold_def)
  then obtain h g where hg: "sort_key (\<lambda>(_, g). - int (length g)) (group_by vs) ! 0 = (h, g)"
    "g = filter (\<lambda>r. result_hash r = h) vs" "g \<noteq> []"
    "\<And>h'. length (filter (\<lambda>r. result_hash r = h') vs) \<le> length g"
    using largest_group by blast
  show ?thesis
    by (rule that [of h]) (use hg in \<open>auto simp: decide_halted_def Let_def list_all_iff\<close>)
qed

lemma length_disjoint_filters:
  assumes "\<And>x. x \<in> set xs \<Longrightarrow> \<not> (P x \<and> Q x)"
  shows "length (filter P xs) + length (filter Q xs) \<le> length xs"
  using assms
proof (induction xs)
  case (Cons x xs)
  then show ?case by (cases "P x"; cases "Q x") fastforce+
qed simp

text \<open>At most one hash reaches the threshold.\<close>

lemma threshold_unique:
  assumes "threshold (decision_pool rs n) \<le> length (votes_for rs h)"
    and "threshold (decision_pool rs n) \<le> length (votes_for rs h')"
  shows "h = h'"
proof (rule ccontr)
  assume "h \<noteq> h'"
  then have "length (votes_for rs h) + length (votes_for rs h') \<le> length (votes rs)"
    unfolding votes_for_def by (intro length_disjoint_filters) auto
  also have "\<dots> \<le> decision_pool rs n" by (simp add: votes_def decision_pool_def le_max_iff_disj)
  finally show False using assms by (simp add: threshold_def)
qed

definition winning :: "worker_result list \<Rightarrow> nat \<Rightarrow> string \<Rightarrow> decision option" where
  "winning rs n h =
     (let g = votes_for rs h
      in if length g \<ge> threshold (decision_pool rs n) then
           if \<forall>r \<in> set g. wr_chunk_hashes r = wr_chunk_hashes (g ! 0)
           then Some (Accept h (output_hex (g ! 0)) (map worker_id g) False)
           else Some (Reject reject_chain)
         else None)"

lemma decide_halted_winning:
  assumes "threshold (decision_pool rs n) \<le> length (votes rs)"
  obtains h where "\<And>h'. length (votes_for rs h') \<le> length (votes_for rs h)"
    and "decide_halted (votes rs) (threshold (decision_pool rs n)) = winning rs n h"
  using decide_halted_cases [OF assms] unfolding votes_for_def winning_def by blast

lemma decide_no_winner:
  assumes "\<And>h. length (votes_for rs h) < threshold (decision_pool rs n)"
  shows "decide rs n =
     (if length (dedup_workers {} rs) - length (votes rs) \<ge> threshold (decision_pool rs n)
      then Reject reject_trapped
      else if decision_pool rs n \<ge> 5 then Reject reject_exhausted else Escalate)"
proof (cases "threshold (decision_pool rs n) \<le> length (votes rs)")
  case True
  obtain h where "decide_halted (votes rs) (threshold (decision_pool rs n)) = winning rs n h"
    using decide_halted_winning [OF True] by blast
  then show ?thesis using assms [of h] True by (simp add: decide_unfold winning_def Let_def)
next
  case False
  then show ?thesis by (simp add: decide_unfold)
qed

lemma decide_winner:
  assumes "threshold (decision_pool rs n) \<le> length (votes_for rs h)"
  shows "decide rs n =
     (let g = votes_for rs h
      in if \<forall>r \<in> set g. wr_chunk_hashes r = wr_chunk_hashes (g ! 0)
         then Accept h (output_hex (g ! 0)) (map worker_id g) False else Reject reject_chain)"
proof -
  have t: "threshold (decision_pool rs n) \<le> length (votes rs)"
    using assms by (simp add: votes_for_def) (metis le_trans length_filter_le)
  obtain h1 where l: "\<And>h'. length (votes_for rs h') \<le> length (votes_for rs h1)"
    and d: "decide_halted (votes rs) (threshold (decision_pool rs n)) = winning rs n h1"
    using decide_halted_winning [OF t] by blast
  have "h1 = h" using threshold_unique [OF le_trans [OF assms l] assms] .
  then show ?thesis using d t assms by (simp add: decide_unfold winning_def Let_def)
qed

lemma decide_cases:
  obtains h where "threshold (decision_pool rs n) \<le> length (votes_for rs h)"
  | "\<And>h. length (votes_for rs h) < threshold (decision_pool rs n)"
  using not_le by blast

lemma decide_AcceptD:
  assumes "decide rs n = Accept hash out agreed zk"
  shows "threshold (decision_pool rs n) \<le> length (votes_for rs hash)"
    and "\<forall>r \<in> set (votes_for rs hash). wr_chunk_hashes r = wr_chunk_hashes (votes_for rs hash ! 0)"
    and "out = output_hex (votes_for rs hash ! 0)" and "agreed = map worker_id (votes_for rs hash)"
    and "\<not> zk"
proof -
  obtain h where h: "threshold (decision_pool rs n) \<le> length (votes_for rs h)"
    using assms decide_no_winner [of rs n] by (cases rule: decide_cases [of rs n]) (auto split: if_splits)
  note d = decide_winner [OF h] assms
  have "hash = h" using d by (auto simp: Let_def split: if_splits)
  with d h show "threshold (decision_pool rs n) \<le> length (votes_for rs hash)"
    and "\<forall>r \<in> set (votes_for rs hash). wr_chunk_hashes r = wr_chunk_hashes (votes_for rs hash ! 0)"
    and "out = output_hex (votes_for rs hash ! 0)" and "agreed = map worker_id (votes_for rs hash)"
    and "\<not> zk"
    by (auto simp: Let_def split: if_splits)
qed

lemma votes_for_mem:
  "r \<in> set (votes_for rs h) \<Longrightarrow> r \<in> set rs \<and> wr_status r = ''halted'' \<and> result_hash r = h"
  using dedup_workers_props [of "{}" rs] by (auto simp: votes_for_def votes_def)

lemma votes_for_distinct: "distinct (map worker_id (votes_for rs h))"
  using dedup_workers_props [of "{}" rs] by (simp add: votes_for_def votes_def distinct_map_filter)

lemma threshold_mono: "m \<le> n \<Longrightarrow> threshold m \<le> threshold n"
  by (simp add: threshold_def div_le_mono)

section \<open>Properties\<close>

lemma accepted_by_majority:
  assumes "decide rs expected = Accept hash out agreed zk"
  shows "distinct agreed \<and> expected < 2 * length agreed \<and> \<not> zk \<and>
         (\<exists>chain. \<forall>w \<in> set agreed. \<exists>r \<in> set rs.
            worker_id r = w \<and> wr_status r = ''halted'' \<and> result_hash r = hash \<and> wr_chunk_hashes r = chain)"
proof -
  note d = decide_AcceptD [OF assms]
  let ?g = "votes_for rs hash"
  have "threshold expected \<le> length ?g"
    using d(1) threshold_mono [of expected "decision_pool rs expected"] by (simp add: decision_pool_def)
  then have "expected < 2 * length agreed" using d(4) by (simp add: threshold_def)
  moreover have "\<forall>w \<in> set agreed. \<exists>r \<in> set rs. worker_id r = w \<and> wr_status r = ''halted'' \<and>
      result_hash r = hash \<and> wr_chunk_hashes r = wr_chunk_hashes (?g ! 0)"
    using d(2,4) votes_for_mem [of _ rs hash] by fastforce
  ultimately show ?thesis using d(4,5) votes_for_distinct [of rs hash] by blast
qed

text \<open>
  An accepted decision is backed by a strict majority of the dispatched pool. The agreeing
  workers are pairwise different, more than half of \<open>expected_pool\<close>, and each of them reported a
  halted run with the accepted hash and one common chunk chain.
\<close>

theorem quorum_accept_sound:
  assumes "decide rs expected = Accept hash out agreed zk"
  shows "distinct agreed \<and> expected < 2 * length agreed \<and> \<not> zk \<and>
         (\<exists>chain. \<forall>w \<in> set agreed. \<exists>r \<in> set rs.
            worker_id r = w \<and> wr_status r = ''halted'' \<and> result_hash r = hash \<and> wr_chunk_hashes r = chain)"
  using assms by (rule accepted_by_majority)

lemma majority_accepted:
  assumes "distinct (map worker_id rs)" and "length rs \<le> expected"
    and "expected < 2 * length (filter (\<lambda>r. wr_status r = ''halted'' \<and> result_hash r = h) rs)"
    and "\<forall>r \<in> set rs. wr_status r = ''halted'' \<and> result_hash r = h \<longrightarrow> wr_chunk_hashes r = chain"
  shows "\<exists>out agreed. decide rs expected = Accept h out agreed False \<and>
           set agreed = worker_id ` {r \<in> set rs. wr_status r = ''halted'' \<and> result_hash r = h}"
proof -
  have dd: "dedup_workers {} rs = rs" using assms(1) by (intro dedup_workers_distinct) simp_all
  have v: "votes_for rs h = filter (\<lambda>r. wr_status r = ''halted'' \<and> result_hash r = h) rs"
    by (simp add: votes_for_def votes_def dd conj_commute)
  have p: "decision_pool rs expected = expected" using assms(2) by (simp add: decision_pool_def dd)
  have t: "threshold (decision_pool rs expected) \<le> length (votes_for rs h)"
    using assms(3) by (simp add: p v threshold_def)
  then have "votes_for rs h ! 0 \<in> set (votes_for rs h)" by (intro nth_mem) (auto simp: threshold_def)
  then have c: "\<forall>r \<in> set (votes_for rs h). wr_chunk_hashes r = wr_chunk_hashes (votes_for rs h ! 0)"
    using assms(4) votes_for_mem [of _ rs h] by metis
  have s: "set (map worker_id (votes_for rs h)) =
      worker_id ` {r \<in> set rs. wr_status r = ''halted'' \<and> result_hash r = h}" by (simp add: v)
  have "decide rs expected =
      Accept h (output_hex (votes_for rs h ! 0)) (map worker_id (votes_for rs h)) False"
    using decide_winner [OF t] c by (simp add: Let_def)
  then show ?thesis using s by blast
qed

text \<open>
  A clear majority is always accepted: when every worker answered at most once, the pool is
  not exceeded, and more than half of it halted with hash \<open>h\<close> and one common chain, the decision
  accepts \<open>h\<close>, whatever the others reported and in whatever order the results arrived.
\<close>

theorem quorum_accept_complete:
  assumes "distinct (map worker_id rs)" and "length rs \<le> expected"
    and "expected < 2 * length (filter (\<lambda>r. wr_status r = ''halted'' \<and> result_hash r = h) rs)"
    and "\<forall>r \<in> set rs. wr_status r = ''halted'' \<and> result_hash r = h \<longrightarrow> wr_chunk_hashes r = chain"
  shows "\<exists>out agreed. decide rs expected = Accept h out agreed False \<and>
           set agreed = worker_id ` {r \<in> set rs. wr_status r = ''halted'' \<and> result_hash r = h}"
  using assms by (rule majority_accepted)

text \<open>
  C5: Fewer faulty workers than the threshold cannot have a wrong hash accepted: if every worker
  outside \<open>faulty\<close> that halted reported the correct hash, and \<open>faulty\<close> has at most half of the
  dispatched pool, then whatever is accepted is the correct hash.
\<close>

theorem quorum_accept_correct:
  assumes "\<forall>r \<in> set rs. worker_id r \<notin> faulty \<and> wr_status r = ''halted'' \<longrightarrow> result_hash r = correct"
    and "finite faulty" and "2 * card faulty \<le> expected"
    and "decide rs expected = Accept hash out agreed zk"
  shows "hash = correct"
proof -
  note d = decide_AcceptD [OF assms(4)]
  have "expected < 2 * length agreed"
    using d(1,4) threshold_mono [of expected "decision_pool rs expected"]
    by (simp add: decision_pool_def threshold_def)
  moreover have "card (set agreed) = length agreed"
    unfolding d(4) by (rule distinct_card [OF votes_for_distinct])
  ultimately have "\<not> set agreed \<subseteq> faulty"
    using card_mono [OF assms(2), of "set agreed"] assms(3) by linarith
  then obtain r where "r \<in> set (votes_for rs hash)" "worker_id r \<notin> faulty" using d(4) by auto
  then show ?thesis using assms(1) votes_for_mem [of r rs hash] by auto
qed

text \<open>
  Slashing needs an acceptance. Every result of the pool gets exactly one entry, in order; a
  worker is charged only if the decision accepted a hash without listing that worker, and a
  worker that is listed is rewarded; after an escalation or a rejection nothing changes.
\<close>

theorem slashing_only_on_acceptance:
  "map fst (slashing d rs) = map worker_id rs \<and>
   (\<forall>(w, delta) \<in> set (slashing d rs).
      (delta < 0 \<longleftrightarrow> (\<exists>hash out agreed zk. d = Accept hash out agreed zk \<and> w \<notin> set agreed)) \<and>
      (delta > 0 \<longleftrightarrow> (\<exists>hash out agreed zk. d = Accept hash out agreed zk \<and> w \<in> set agreed)))"
  by (cases d) (auto simp: slashing_def)

text \<open>
  The accepted output is taken from the first agreeing worker and never compared with the
  others or with the hash: with two of three workers reporting one output and the first another,
  all with the same hash and chain, the outlier's output is accepted.
\<close>

theorem accepted_output_unchecked:
  assumes "distinct [worker_id a, worker_id b, worker_id c]"
    and "\<forall>r \<in> {a, b, c}. wr_status r = ''halted'' \<and> result_hash r = h \<and> wr_chunk_hashes r = chain"
  shows "decide [a, b, c] 3 = Accept h (output_hex a) [worker_id a, worker_id b, worker_id c] False"
proof -
  have v: "votes_for [a, b, c] h = [a, b, c]"
    using assms by (auto simp: votes_for_def votes_def)
  have "threshold (decision_pool [a, b, c] 3) = 2"
    using assms(1) by (auto simp: decision_pool_def threshold_def)
  then show ?thesis using decide_winner [of "[a, b, c]" 3 h] assms(2) by (simp add: v)
qed

section \<open>Witnesses\<close>

definition vote :: "string \<Rightarrow> string \<Rightarrow> string \<Rightarrow> worker_result" where
  "vote w h out = demo_result\<lparr>worker_id := w, result_hash := h, wr_chunk_hashes := [h], output_hex := Some out\<rparr>"

lemma vote_simps [simp]:
  "worker_id (vote w h out) = w" "result_hash (vote w h out) = h" "wr_status (vote w h out) = ''halted''"
  "wr_chunk_hashes (vote w h out) = [h]" "output_hex (vote w h out) = Some out"
  by (simp_all add: vote_def demo_result_def)

definition demo_pool :: "worker_result list" where
  "demo_pool = [vote ''a'' ''h'' ''1'', vote ''b'' ''x'' ''2'', vote ''c'' ''h'' ''1'']"

lemma demo_decide: "decide demo_pool 3 = Accept ''h'' (Some ''1'') [''a'', ''c''] False"
proof -
  have v: "votes_for demo_pool ''h'' = [vote ''a'' ''h'' ''1'', vote ''c'' ''h'' ''1'']"
    by (simp add: votes_for_def votes_def demo_pool_def)
  have "threshold (decision_pool demo_pool 3) = 2"
    by (simp add: decision_pool_def threshold_def demo_pool_def)
  then show ?thesis using decide_winner [of demo_pool 3 "''h''"] by (simp add: v)
qed

theorem quorum_accept_sound_witness:
  "decide demo_pool 3 = Accept ''h'' (Some ''1'') [''a'', ''c''] False \<and> 3 < 2 * length [''a'', ''c'']"
  using quorum_accept_sound [OF demo_decide] demo_decide by simp

theorem quorum_accept_complete_witness:
  "\<exists>out agreed. decide demo_pool 3 = Accept ''h'' out agreed False \<and> set agreed = {''a'', ''c''}"
proof -
  have s: "{r \<in> set demo_pool. wr_status r = ''halted'' \<and> result_hash r = ''h''} =
      {vote ''a'' ''h'' ''1'', vote ''c'' ''h'' ''1''}"
    by (auto simp: demo_pool_def)
  show ?thesis
    using quorum_accept_complete [of demo_pool 3 "''h''" "[''h'']"] unfolding s
    by (simp add: demo_pool_def)
qed

theorem quorum_accept_correct_witness:
  "finite {''b''} \<and> 2 * card {''b''} \<le> 3 \<and> decide demo_pool 3 = Accept ''h'' (Some ''1'') [''a'', ''c''] False \<and> ''h'' = ''h''"
  using quorum_accept_correct [OF _ _ _ demo_decide, of "{''b''}" "''h''"] demo_decide
  by (simp add: demo_pool_def)

theorem slashing_only_on_acceptance_witness:
  "(''b'', - 100) \<in> set (slashing (Accept ''h'' (Some ''1'') [''a'', ''c''] False) demo_pool) \<and>
   map fst (slashing (Accept ''h'' (Some ''1'') [''a'', ''c''] False) demo_pool) = [''a'', ''b'', ''c'']"
  using slashing_only_on_acceptance [of "Accept ''h'' (Some ''1'') [''a'', ''c''] False" demo_pool]
  by (simp add: slashing_def demo_pool_def)

theorem accepted_output_unchecked_witness:
  "decide [vote ''a'' ''h'' ''bad'', vote ''b'' ''h'' ''good'', vote ''c'' ''h'' ''good''] 3 =
     Accept ''h'' (Some ''bad'') [''a'', ''b'', ''c''] False"
  using accepted_output_unchecked
    [of "vote ''a'' ''h'' ''bad''" "vote ''b'' ''h'' ''good''" "vote ''c'' ''h'' ''good''" "''h''" "[''h'']"]
  by simp

end
