(* ===== verification/Zk.thy ===== *)
theory Zk
  imports Wire Quorum
begin

text \<open>
  The zk tier of the coordinator: receipt verification by an external verifier process
  (\<open>crates/coordinator/src/receipt.rs\<close>) and the zk dispute judge with its receipt cache
  (\<open>crates/coordinator/src/zk_judge.rs\<close>). The processes are parameters: a spawned child is the
  sequence of answers its \<open>try_wait\<close> polls give, and what its stdout delivers.
  Main results: a receipt counts only if the verifier exited successfully, in time, on exactly
  these receipt bytes and this job's binding; the judge's decision is bound to the job and its
  digest is recomputed; a cache hit is never trusted without verification.
\<close>

section \<open>Processes and temporary files\<close>

datatype 'e poll = Exited bool | Running | WaitErr 'e

text \<open>
  \<open>ch_poll i\<close> is the answer to the \<open>i\<close>-th \<open>try_wait\<close>; \<open>ch_ticks\<close> is how many of the polls come
  before the deadline (each round of the wait loops sleeps, so it is finite).
\<close>

record 'e child =
  ch_poll :: "nat \<Rightarrow> 'e poll"
  ch_ticks :: nat
  ch_stdout :: "'e read_event list"

text \<open>
  The system calls the coordinator makes beside those of \<open>os\<close>. The file system that \<open>spawn\<close>
  returns is the one left when the child has ended. Calls whose result the code discards return
  the file system only.
\<close>

record ('fs, 'e) sys =
  sys_os :: "('fs, 'e) os"
  create_new :: "'fs \<Rightarrow> string \<Rightarrow> 'e + 'fs"
  already_exists :: "'e \<Rightarrow> bool"
  write_all :: "'fs \<Rightarrow> string \<Rightarrow> bytes \<Rightarrow> 'e option \<times> 'fs"
  remove_file :: "'fs \<Rightarrow> string \<Rightarrow> 'fs"
  remove_dir_all :: "'fs \<Rightarrow> string \<Rightarrow> 'fs"
  rename :: "'fs \<Rightarrow> string \<Rightarrow> string \<Rightarrow> 'e + 'fs"
  copy_file :: "'fs \<Rightarrow> string \<Rightarrow> string \<Rightarrow> 'fs"
  spawn :: "'fs \<Rightarrow> string \<Rightarrow> string list \<Rightarrow> ('e + 'e child) \<times> 'fs"
  temp_dir :: string
  process_id :: nat

text \<open>A file that was created exclusively and written reads back.\<close>

definition sys_ok :: "('fs, 'e) sys \<Rightarrow> bool" where
  "sys_ok sys \<longleftrightarrow>
     os_ok (sys_os sys) \<and>
     (\<forall>fs p fs1 bs fs2. create_new sys fs p = Inr fs1 \<longrightarrow> write_all sys fs1 p bs = (None, fs2) \<longrightarrow>
        os_read (sys_os sys) fs2 p = Inr bs)"

datatype 'e zk_error =
    ReceiptTooBig nat
  | VerifyDir 'e
  | ReceiptWrite 'e
  | ReceiptCreate 'e
  | NoUniqueFile
  | SpawnError 'e
  | WaitError 'e
  | TimeLimit
  | ExitFailure
  | BadVerdict
  | Rejected string
  | Missing string
  | VerdictTooBig
  | ReceiptDir 'e
  | MalformedBinding
  | BindingHex hex_error
  | OtherJob
  | OutputHex hex_error
  | JobFiles "'e store_error"
  | JobIdHex hex_error
  | JobManifestRead 'e
  | JobManifestParse

datatype 'e waited = WaitExit bool | WaitKilled | WaitFailed 'e

text \<open>The polling loops; at the deadline a child that still runs is killed.\<close>

fun wait_loop :: "(nat \<Rightarrow> 'e poll) \<Rightarrow> nat \<Rightarrow> nat \<Rightarrow> 'e waited" where
  "wait_loop p i 0 =
     (case p i of Exited s \<Rightarrow> WaitExit s | Running \<Rightarrow> WaitKilled | WaitErr e \<Rightarrow> WaitFailed e)"
| "wait_loop p i (Suc t) =
     (case p i of Exited s \<Rightarrow> WaitExit s | Running \<Rightarrow> wait_loop p (Suc i) t | WaitErr e \<Rightarrow> WaitFailed e)"

text \<open>\<open>read_to_end\<close> with the error discarded: what arrived before the end or the first error.\<close>

fun read_to_end :: "'e read_event list \<Rightarrow> bytes" where
  "read_to_end (RData bs # s) = bs @ read_to_end s"
| "read_to_end _ = []"

text \<open>The judge's read loop: 8192 bytes at a time, \<open>None\<close> once the total exceeds the cap.\<close>

definition MAX_VERDICT_BYTES :: nat where
  "MAX_VERDICT_BYTES = 1024 * 1024"

function read_capped :: "'e read_event list \<Rightarrow> bytes \<Rightarrow> bytes option" where
  "read_capped s got =
     (case stream_read s 8192 of
        (ReadOk bs, s) \<Rightarrow>
          if bs = [] then Some got
          else if length (got @ bs) > MAX_VERDICT_BYTES then None
          else read_capped s (got @ bs)
      | _ \<Rightarrow> Some got)"
  by pat_completeness auto

termination read_capped
proof (relation "measure (\<lambda>(s, got). length s + (MAX_VERDICT_BYTES - length got))", goal_cases)
  case (2 s got r s' bs)
  then have "(ReadOk bs, s') = stream_read s 8192" by metis
  from stream_read_measure [OF this [symmetric]] 2 show ?case by (auto simp: not_less)
qed simp

declare read_capped.simps [simp del]

section \<open>Receipt verification\<close>

type_synonym binding = "digest \<times> digest \<times> digest"

record receipt_outcome =
  ro_status :: u32
  ro_instructions :: u64
  ro_chunk_hashes :: "string list"
  ro_output_hex :: string

definition MAX_RECEIPT_BYTES :: nat where
  "MAX_RECEIPT_BYTES = 64 * 1024 * 1024"

definition receipt_name :: "nat \<Rightarrow> u64 \<Rightarrow> string" where
  "receipt_name pid n = ''receipt-'' @ dec_nat pid @ ''-'' @ dec_nat (unat n) @ ''.bin''"

text \<open>The loop of \<open>exclusive_receipt_file\<close>: \<open>ctr\<close> is the process-wide counter.\<close>

fun receipt_file_loop ::
    "('fs, 'e) sys \<Rightarrow> string \<Rightarrow> bytes \<Rightarrow> nat \<Rightarrow> 'fs \<times> u64 \<Rightarrow> ('e zk_error + string) \<times> 'fs \<times> u64" where
  "receipt_file_loop sys dir bs 0 (fs, ctr) = (Inl NoUniqueFile, fs, ctr)"
| "receipt_file_loop sys dir bs (Suc k) (fs, ctr) =
     (let path = join dir (receipt_name (process_id sys) ctr)
      in (case create_new sys fs path of
            Inr fs \<Rightarrow>
              (case write_all sys fs path bs of
                 (None, fs) \<Rightarrow> (Inr path, fs, ctr + 1)
               | (Some e, fs) \<Rightarrow> (Inl (ReceiptWrite e), fs, ctr + 1))
          | Inl e \<Rightarrow>
              if already_exists sys e then receipt_file_loop sys dir bs k (fs, ctr + 1)
              else (Inl (ReceiptCreate e), fs, ctr + 1)))"

definition exclusive_receipt_file ::
    "('fs, 'e) sys \<Rightarrow> bytes \<Rightarrow> 'fs \<times> u64 \<Rightarrow> ('e zk_error + string) \<times> 'fs \<times> u64" where
  "exclusive_receipt_file sys bs st =
     (case st of (fs, ctr) \<Rightarrow>
        (let dir = join (temp_dir sys) ''p2pc-zk-verify''
         in (case os_mkdir (sys_os sys) fs dir of
               Inl e \<Rightarrow> (Inl (VerifyDir e), fs, ctr)
             | Inr fs \<Rightarrow> receipt_file_loop sys dir bs 32 (fs, ctr))))"

record receipt_verdict =
  rv_ok :: bool
  rv_error :: "string option"
  rv_status :: "u32 option"
  rv_instructions :: "u64 option"
  rv_chain :: "string list option"
  rv_output_hex :: "string option"

definition hex_char_upper :: "u8 \<Rightarrow> char" where
  "hex_char_upper d = char_of (if d < 10 then 48 + unat d else 55 + unat d)"

definition hex_upper :: "bytes \<Rightarrow> string" where
  "hex_upper bs = concat (map (\<lambda>b. [hex_char_upper (drop_bit 4 b), hex_char_upper (b AND 15)]) bs)"

definition receipt_of_verdict :: "receipt_verdict \<Rightarrow> 'e zk_error + receipt_outcome" where
  "receipt_of_verdict v =
     (if \<not> rv_ok v then Inl (Rejected (case rv_error v of None \<Rightarrow> ''receipt rejected'' | Some t \<Rightarrow> t))
      else
        (case rv_status v of
           None \<Rightarrow> Inl (Missing ''status'')
         | Some st \<Rightarrow>
             (case rv_instructions v of
                None \<Rightarrow> Inl (Missing ''instructions'')
              | Some n \<Rightarrow>
                  (case rv_chain v of
                     None \<Rightarrow> Inl (Missing ''chain'')
                   | Some ch \<Rightarrow>
                       (case rv_output_hex v of
                          None \<Rightarrow> Inl (Missing ''output'')
                        | Some out \<Rightarrow>
                            Inr \<lparr>ro_status = st, ro_instructions = n, ro_chunk_hashes = ch,
                                 ro_output_hex = out\<rparr>)))))"

text \<open>The verifier's arguments: guest, receipt file, the mode flag and the binding.\<close>

definition verify_args :: "string \<Rightarrow> string \<Rightarrow> bool \<Rightarrow> binding \<Rightarrow> string list" where
  "verify_args guest_elf path v2 expected =
     (case expected of (m, e, i) \<Rightarrow>
        [guest_elf, path] @ (if v2 then [''--v2''] else []) @ map hex_upper [m, e, i])"

text \<open>\<open>from_json\<close> is serde's parse of the (lossily decoded, trimmed) output of the verifier.\<close>

definition verify_receipt ::
    "('fs, 'e) sys \<Rightarrow> (bytes \<Rightarrow> receipt_verdict option) \<Rightarrow> string \<Rightarrow> bytes \<Rightarrow> binding \<Rightarrow> string \<Rightarrow> bool \<Rightarrow>
     'fs \<times> u64 \<Rightarrow> ('e zk_error + receipt_outcome) \<times> 'fs \<times> u64" where
  "verify_receipt sys from_json cmd receipt expected guest_elf v2 st =
     (if length receipt > MAX_RECEIPT_BYTES then (Inl (ReceiptTooBig (length receipt)), st)
      else
        (case exclusive_receipt_file sys receipt st of
           (Inl e, st) \<Rightarrow> (Inl e, st)
         | (Inr path, fs, ctr) \<Rightarrow>
             (case spawn sys fs cmd (verify_args guest_elf path v2 expected) of
                (Inl e, fs) \<Rightarrow> (Inl (SpawnError e), remove_file sys fs path, ctr)
              | (Inr ch, fs) \<Rightarrow>
                  (case wait_loop (ch_poll ch) 0 (ch_ticks ch) of
                     WaitFailed e \<Rightarrow> (Inl (WaitError e), remove_file sys fs path, ctr)
                   | WaitKilled \<Rightarrow> (Inl TimeLimit, remove_file sys fs path, ctr)
                   | WaitExit False \<Rightarrow> (Inl ExitFailure, remove_file sys fs path, ctr)
                   | WaitExit True \<Rightarrow>
                       ((case from_json (read_to_end (ch_stdout ch)) of
                           None \<Rightarrow> Inl BadVerdict
                         | Some v \<Rightarrow> receipt_of_verdict v),
                        remove_file sys fs path, ctr)))))"

section \<open>The zk dispute judge\<close>

record zk_judge =
  zj_cmd :: string
  zj_guest_elf :: string
  zj_max_vm_cycles :: u64
  zj_receipt_dir :: "string option"
  zj_verify_cmd :: "string option"

text \<open>The dedup key; \<open>None\<close> is the panic of \<open>expect\<close> on an id that is not 32 bytes of hex.\<close>

fun concat_ids :: "string list \<Rightarrow> bytes option" where
  "concat_ids [] = Some []"
| "concat_ids (h # hs) =
     (case from_hex h 32 of
        Inl _ \<Rightarrow> None
      | Inr bs \<Rightarrow> map_option (\<lambda>rest. bs @ rest) (concat_ids hs))"

definition receipt_cache_key :: "(bytes \<Rightarrow> digest) \<Rightarrow> job_descriptor \<Rightarrow> string option" where
  "receipt_cache_key blake3 desc =
     map_option (\<lambda>material. to_hex (blake3 material)) (concat_ids [jd_manifest desc, jd_elf desc, jd_input desc])"

text \<open>\<open>jv_proving_secs\<close>, a float that only passes through, is kept as the text of the number.\<close>

record judge_verdict =
  jv_ok :: bool
  jv_error :: "string option"
  jv_status :: "u32 option"
  jv_instructions :: "u64 option"
  jv_output_hex :: "string option"
  jv_vm_cycles :: "u64 option"
  jv_proving_secs :: "string option"
  jv_binding :: "string list option"

text \<open>\<open>Path::parent\<close> of a path that ends in a plain file name.\<close>

definition parent_dir :: "string \<Rightarrow> string" where
  "parent_dir p = rev (drop 1 (dropWhile (\<lambda>c. c \<noteq> CHR ''/'') (rev p)))"

definition judge_args :: "zk_judge \<Rightarrow> string \<Rightarrow> string option \<Rightarrow> string list" where
  "judge_args zk dir receipt_out =
     [dir, dec_nat (unat (zj_max_vm_cycles zk)), zj_guest_elf zk] @
     (case receipt_out of None \<Rightarrow> [] | Some p \<Rightarrow> [p])"

text \<open>What \<open>run_judge\<close> makes of the child: wait, read, judge the verdict.\<close>

definition judge_child ::
    "(bytes \<Rightarrow> judge_verdict option) \<Rightarrow> 'e child \<Rightarrow> 'e zk_error + judge_verdict" where
  "judge_child from_json ch =
     (case wait_loop (ch_poll ch) 0 (ch_ticks ch) of
        WaitFailed e \<Rightarrow> Inl (WaitError e)
      | w \<Rightarrow>
          (case read_capped (ch_stdout ch) [] of
             None \<Rightarrow> Inl VerdictTooBig
           | Some out \<Rightarrow>
               (case w of
                  WaitExit success \<Rightarrow>
                    (case from_json out of
                       None \<Rightarrow> Inl BadVerdict
                     | Some v \<Rightarrow>
                         if \<not> jv_ok v
                         then Inl (Rejected (case jv_error v of None \<Rightarrow> ''judge rejected'' | Some t \<Rightarrow> t))
                         else if \<not> success then Inl ExitFailure
                         else Inr v)
                | _ \<Rightarrow> Inl TimeLimit)))"

definition run_judge ::
    "('fs, 'e) sys \<Rightarrow> (bytes \<Rightarrow> judge_verdict option) \<Rightarrow> zk_judge \<Rightarrow> string \<Rightarrow> string option \<Rightarrow> 'fs \<Rightarrow>
     ('e zk_error + judge_verdict) \<times> 'fs" where
  "run_judge sys from_json zk dir receipt_out fs =
     (case (case receipt_out of
              None \<Rightarrow> Inr fs
            | Some out \<Rightarrow> os_mkdir (sys_os sys) fs (parent_dir out)) of
        Inl e \<Rightarrow> (Inl (ReceiptDir e), fs)
      | Inr fs \<Rightarrow>
          (case spawn sys fs (zj_cmd zk) (judge_args zk dir receipt_out) of
             (Inl e, fs) \<Rightarrow> (Inl (SpawnError e), fs)
           | (Inr ch, fs) \<Rightarrow> (judge_child from_json ch, fs)))"

fun check_binding :: "(string \<times> digest) list \<Rightarrow> 'e zk_error + unit" where
  "check_binding [] = Inr ()"
| "check_binding ((h, expected) # hs) =
     (case from_hex h 32 of
        Inl e \<Rightarrow> Inl (BindingHex e)
      | Inr bs \<Rightarrow> if bs \<noteq> expected then Inl OtherJob else check_binding hs)"

definition judge_binding :: "string list \<Rightarrow> binding \<Rightarrow> bool \<Rightarrow> 'e zk_error + unit" where
  "judge_binding hs expected v2 =
     (case expected of (m, e, i) \<Rightarrow>
        if v2 then (if length hs \<noteq> 1 then Inl MalformedBinding else check_binding [(hs ! 0, i)])
        else if length hs \<noteq> 3 then Inl MalformedBinding else check_binding (zip hs [m, e, i]))"

definition reject_status :: "u32 \<Rightarrow> string" where
  "reject_status st = ''zk judge: job does not halt cleanly (status '' @ dec_nat (unat st) @ '')''"

definition judge_decision ::
    "(bytes \<Rightarrow> digest) \<Rightarrow> judge_verdict \<Rightarrow> binding \<Rightarrow> bool \<Rightarrow> 'e zk_error + decision" where
  "judge_decision sha256 v expected v2 =
     (if \<not> jv_ok v then Inl (Rejected (case jv_error v of None \<Rightarrow> ''judge rejected'' | Some t \<Rightarrow> t))
      else
        (case jv_binding v of
           None \<Rightarrow> Inl (Missing ''binding'')
         | Some hs \<Rightarrow>
             (case judge_binding hs expected v2 of
                Inl e \<Rightarrow> Inl e
              | Inr _ \<Rightarrow>
                  (case jv_status v of
                     None \<Rightarrow> Inl (Missing ''status'')
                   | Some st \<Rightarrow>
                       (case jv_instructions v of
                          None \<Rightarrow> Inl (Missing ''instructions'')
                        | Some n \<Rightarrow>
                            (case jv_output_hex v of
                               None \<Rightarrow> Inl (Missing ''output'')
                             | Some out_hex \<Rightarrow>
                                 (case from_hex out_hex (length out_hex div 2) of
                                    Inl e \<Rightarrow> Inl (OutputHex e)
                                  | Inr out \<Rightarrow>
                                      Inr (if st = 0
                                           then Accept (to_hex (journal_digest sha256 n out)) (Some out_hex) [] True
                                           else Reject (reject_status st)))))))))"

definition cache_paths :: "string \<Rightarrow> string \<Rightarrow> string \<times> string" where
  "cache_paths receipt_dir key =
     (let dir = join receipt_dir ''zk-cache''
      in (join dir (key @ ''.receipt.bin''), join dir (key @ ''.verdict.json'')))"

definition verify_cached ::
    "('fs, 'e) sys \<Rightarrow> (bytes \<Rightarrow> digest) \<Rightarrow> (bytes \<Rightarrow> receipt_verdict option) \<Rightarrow> zk_judge \<Rightarrow> string \<Rightarrow> string \<Rightarrow>
     binding \<Rightarrow> bool \<Rightarrow> 'fs \<times> u64 \<Rightarrow> decision option \<times> 'fs \<times> u64" where
  "verify_cached sys sha256 from_json zk receipt_dir key expected v2 st =
     (case zj_verify_cmd zk of
        None \<Rightarrow> (None, st)
      | Some cmd \<Rightarrow>
          (case os_read (sys_os sys) (fst st) (fst (cache_paths receipt_dir key)) of
             Inl _ \<Rightarrow> (None, st)
           | Inr receipt \<Rightarrow>
               (case verify_receipt sys from_json cmd receipt expected (zj_guest_elf zk) v2 st of
                  (Inl _, st) \<Rightarrow> (None, st)
                | (Inr ro, st) \<Rightarrow>
                    if ro_status ro \<noteq> 0 then (None, st)
                    else
                      (case from_hex (ro_output_hex ro) (length (ro_output_hex ro) div 2) of
                         Inl _ \<Rightarrow> (None, st)
                       | Inr out \<Rightarrow>
                           (Some (Accept
                              (to_hex (journal_digest sha256
                                 (if v2 then V2_JOURNAL_COUNT else ro_instructions ro) out))
                              (Some (ro_output_hex ro)) [] True), st)))))"

section \<open>Waiting, reading, binding\<close>

lemma wait_loop_exit:
  assumes "wait_loop p i t = WaitExit s"
  shows "\<exists>k \<le> t. p (i + k) = Exited s \<and> (\<forall>j < k. p (i + j) = Running)"
  using assms
proof (induction p i t rule: wait_loop.induct)
  case (1 p i)
  then show ?case by (auto split: poll.splits)
next
  case (2 p i t)
  show ?case
  proof (cases "p i")
    case Running
    then obtain k where "k \<le> t" "p (Suc i + k) = Exited s" "\<forall>j < k. p (Suc i + j) = Running"
      using 2 by auto
    then have "Suc k \<le> Suc t \<and> p (i + Suc k) = Exited s \<and> (\<forall>j < Suc k. p (i + j) = Running)"
      using Running by (auto simp: less_Suc_eq_0_disj)
    then show ?thesis by blast
  qed (use 2 in auto)
qed

lemma check_binding_ok:
  "check_binding (zip hs ds) = Inr () \<longleftrightarrow> list_all2 (\<lambda>h d. from_hex h 32 = Inr d) (take (length ds) hs) (take (length hs) ds)"
  by (induction hs ds rule: list_induct2') (auto split: sum.splits)

lemma list_all2_map_Inr: "list_all2 (\<lambda>h d. f h = Inr d) hs ds \<longleftrightarrow> map f hs = map Inr ds"
  by (induction hs ds rule: list_induct2') auto

lemma judge_binding_ok:
  "judge_binding hs (m, e, i) v2 = Inr () \<longleftrightarrow>
     map (\<lambda>h. from_hex h 32) hs = map Inr (if v2 then [i] else [m, e, i])"
proof -
  have len: "map (\<lambda>h. from_hex h 32) hs = map Inr ds \<Longrightarrow> length hs = length ds" for ds :: "digest list"
    using map_eq_imp_length_eq by blast
  show ?thesis
  proof (cases v2)
    case True
    then show ?thesis using len [of "[i]"]
      by (cases hs) (auto simp: judge_binding_def split: sum.splits)
  next
    case False
    then show ?thesis using len [of "[m, e, i]"] check_binding_ok [of hs "[m, e, i]"]
      by (auto simp: judge_binding_def list_all2_map_Inr)
  qed
qed

lemma receipt_file_loopD:
  assumes "sys_ok sys" and "receipt_file_loop sys dir bs k (fs, ctr) = (Inr path, fs', ctr')"
  shows "os_read (sys_os sys) fs' path = Inr bs"
  using assms(2)
proof (induction k arbitrary: fs ctr)
  case (Suc k)
  show ?case
  proof (cases "create_new sys fs (join dir (receipt_name (process_id sys) ctr))")
    case (Inr fs1)
    then show ?thesis using Suc.prems assms(1)
      by (auto simp: sys_ok_def Let_def split: prod.splits option.splits)
  qed (use Suc in \<open>auto simp: Let_def split: if_splits\<close>)
qed simp

lemma receipt_of_verdictD:
  "receipt_of_verdict v = Inr ro \<Longrightarrow>
     rv_ok v \<and> rv_status v = Some (ro_status ro) \<and> rv_instructions v = Some (ro_instructions ro) \<and>
     rv_chain v = Some (ro_chunk_hashes ro) \<and> rv_output_hex v = Some (ro_output_hex ro)"
  by (auto simp: receipt_of_verdict_def split: if_splits option.splits)

text \<open>
  What stands behind a verified receipt: the verifier ran on a file holding exactly the receipt's
  bytes, with the guest and the binding as arguments, and exited successfully before the deadline
  with the outcome as its verdict.
\<close>

definition attested ::
    "('fs, 'e) sys \<Rightarrow> (bytes \<Rightarrow> receipt_verdict option) \<Rightarrow> string \<Rightarrow> bytes \<Rightarrow> binding \<Rightarrow> string \<Rightarrow> bool \<Rightarrow>
     receipt_outcome \<Rightarrow> bool" where
  "attested sys from_json cmd receipt expected guest_elf v2 ro \<longleftrightarrow>
     (\<exists>fs path ch fs' k v.
        os_read (sys_os sys) fs path = Inr receipt \<and>
        spawn sys fs cmd (verify_args guest_elf path v2 expected) = (Inr ch, fs') \<and>
        k \<le> ch_ticks ch \<and> ch_poll ch k = Exited True \<and> (\<forall>j < k. ch_poll ch j = Running) \<and>
        from_json (read_to_end (ch_stdout ch)) = Some v \<and> rv_ok v \<and>
        rv_status v = Some (ro_status ro) \<and> rv_instructions v = Some (ro_instructions ro) \<and>
        rv_chain v = Some (ro_chunk_hashes ro) \<and> rv_output_hex v = Some (ro_output_hex ro))"

lemma exclusive_receipt_fileD:
  assumes "sys_ok sys" and "exclusive_receipt_file sys bs st = (Inr path, fs', ctr')"
  shows "os_read (sys_os sys) fs' path = Inr bs"
  using assms receipt_file_loopD [OF assms(1)]
  by (auto simp: exclusive_receipt_file_def Let_def split: prod.splits sum.splits)

lemma verify_receipt_InrD:
  assumes "sys_ok sys" and "verify_receipt sys from_json cmd receipt expected guest_elf v2 st = (Inr ro, st')"
  shows "length receipt \<le> MAX_RECEIPT_BYTES \<and> attested sys from_json cmd receipt expected guest_elf v2 ro"
proof -
  obtain path fs ctr where small: "length receipt \<le> MAX_RECEIPT_BYTES"
    and f: "exclusive_receipt_file sys receipt st = (Inr path, fs, ctr)"
    using assms(2) by (auto simp: verify_receipt_def split: if_splits prod.splits sum.splits)
  from assms(2) small f obtain ch fs'
    where ch: "spawn sys fs cmd (verify_args guest_elf path v2 expected) = (Inr ch, fs')"
    by (auto simp: verify_receipt_def split: prod.splits sum.splits)
  from assms(2) small f ch obtain v
    where w: "wait_loop (ch_poll ch) 0 (ch_ticks ch) = WaitExit True"
      and v: "from_json (read_to_end (ch_stdout ch)) = Some v" "receipt_of_verdict v = (Inr ro :: 'b zk_error + _)"
    by (auto simp: verify_receipt_def split: waited.splits bool.splits option.splits)
  from wait_loop_exit [OF w] obtain k
    where "k \<le> ch_ticks ch" "ch_poll ch k = Exited True" "\<forall>j < k. ch_poll ch j = Running" by auto
  then show ?thesis
    using small ch v(1) receipt_of_verdictD [OF v(2)] exclusive_receipt_fileD [OF assms(1) f]
    unfolding attested_def by blast
qed

lemma verify_cachedD:
  assumes "sys_ok sys" and "verify_cached sys sha256 from_json zk dir key expected v2 st = (Some d, st')"
  shows "\<exists>cmd receipt ro out.
      zj_verify_cmd zk = Some cmd \<and>
      os_read (sys_os sys) (fst st) (fst (cache_paths dir key)) = Inr receipt \<and>
      attested sys from_json cmd receipt expected (zj_guest_elf zk) v2 ro \<and> ro_status ro = 0 \<and>
      from_hex (ro_output_hex ro) (length (ro_output_hex ro) div 2) = Inr out \<and>
      d = Accept (to_hex (journal_digest sha256 (if v2 then V2_JOURNAL_COUNT else ro_instructions ro) out))
            (Some (ro_output_hex ro)) [] True"
proof -
  from assms(2) obtain cmd receipt ro st1 out
    where "zj_verify_cmd zk = Some cmd"
      "os_read (sys_os sys) (fst st) (fst (cache_paths dir key)) = Inr receipt"
      and r: "verify_receipt sys from_json cmd receipt expected (zj_guest_elf zk) v2 st = (Inr ro, st1)"
      and "ro_status ro = 0" "from_hex (ro_output_hex ro) (length (ro_output_hex ro) div 2) = Inr out"
      "d = Accept (to_hex (journal_digest sha256 (if v2 then V2_JOURNAL_COUNT else ro_instructions ro) out))
            (Some (ro_output_hex ro)) [] True"
    by (auto simp: verify_cached_def split: option.splits sum.splits prod.splits if_splits)
  then show ?thesis using verify_receipt_InrD [OF assms(1) r] by blast
qed

section \<open>Properties\<close>

text \<open>
  C29: the zk judge's decision, characterised on every verdict. A decision is produced exactly when
  the verdict says ok, its binding decodes to this job's content ids (manifest, elf and input; for
  a v2 job the input alone), and status, instruction count and output are all there and well
  formed; it is then an acceptance of the digest recomputed from the verdict's own instruction
  count and output, with no worker credited, if the status is 0, and a rejection otherwise.
\<close>

theorem judge_decision_correct:
  "judge_decision sha256 v (m, e, i) v2 = (Inr d :: 'e zk_error + decision) \<longleftrightarrow>
     jv_ok v \<and>
     (\<exists>hs. jv_binding v = Some hs \<and> map (\<lambda>h. from_hex h 32) hs = map Inr (if v2 then [i] else [m, e, i])) \<and>
     (\<exists>st n out_hex out.
        jv_status v = Some st \<and> jv_instructions v = Some n \<and> jv_output_hex v = Some out_hex \<and>
        from_hex out_hex (length out_hex div 2) = Inr out \<and>
        d = (if st = 0 then Accept (to_hex (sha256 (journal n out))) (Some out_hex) [] True
             else Reject (reject_status st)))"
proof (cases "jv_ok v \<and> (\<exists>hs. jv_binding v = Some hs \<and> judge_binding hs (m, e, i) v2 = (Inr () :: 'e zk_error + unit))")
  case True
  then obtain hs where h: "jv_ok v" "jv_binding v = Some hs" "judge_binding hs (m, e, i) v2 = (Inr () :: 'e zk_error + unit)"
    by blast
  show ?thesis
    unfolding judge_decision_def
    by (cases "jv_status v"; cases "jv_instructions v"; cases "jv_output_hex v")
      (use h judge_binding_ok [of hs m e i v2] in \<open>auto simp: journal_digest_def split: sum.splits\<close>)
next
  case False
  have "judge_decision sha256 v (m, e, i) v2 \<noteq> (Inr d :: 'e zk_error + decision)"
    unfolding judge_decision_def using False by (cases "jv_ok v"; cases "jv_binding v") (simp_all split: sum.split)
  then show ?thesis using False unfolding judge_binding_ok by blast
qed


lemma concat_ids_inject:
  assumes "concat_ids hs = Some x" and "concat_ids hs' = Some x" and "length hs = length hs'"
  shows "map (\<lambda>h. from_hex h 32) hs = map (\<lambda>h. from_hex h 32) hs'"
  using assms
proof (induction hs arbitrary: hs' x)
  case (Cons h hs)
  then obtain h' hs2 where e: "hs' = h' # hs2" by (cases hs') auto
  obtain b r where 1: "from_hex h 32 = Inr b" "concat_ids hs = Some r" "x = b @ r"
    using Cons.prems(1) by (auto split: sum.splits)
  obtain b' r' where 2: "from_hex h' 32 = Inr b'" "concat_ids hs2 = Some r'" "x = b' @ r'"
    using Cons.prems(2) e by (auto split: sum.splits)
  have "b = b' \<and> r = r'" using 1(3) 2(3) from_hex_length [OF 1(1)] from_hex_length [OF 2(1)] by auto
  then show ?case using Cons.IH [of r hs2] Cons.prems(3) 1 2 e by simp
qed simp

text \<open>
  The receipt cache cannot serve one job's receipt for another. Two descriptors with the same
  cache key name the same manifest, elf and input, unless the concatenations of their ids, given
  explicitly, are a BLAKE3 collision.
\<close>

theorem receipt_cache_key_binds:
  assumes "receipt_cache_key blake3 d = Some k" and "receipt_cache_key blake3 d' = Some k"
  shows "\<exists>x y. concat_ids [jd_manifest d, jd_elf d, jd_input d] = Some x \<and>
           concat_ids [jd_manifest d', jd_elf d', jd_input d'] = Some y \<and>
           (collision blake3 x y \<or>
            map (\<lambda>h. from_hex h 32) [jd_manifest d, jd_elf d, jd_input d] =
            map (\<lambda>h. from_hex h 32) [jd_manifest d', jd_elf d', jd_input d'])"
proof -
  obtain x y where "concat_ids [jd_manifest d, jd_elf d, jd_input d] = Some x"
    "concat_ids [jd_manifest d', jd_elf d', jd_input d'] = Some y" "blake3 x = blake3 y"
    using assms unfolding receipt_cache_key_def map_option_eq_Some by (metis to_hex_inject)
  then show ?thesis
    using concat_ids_inject [of "[jd_manifest d, jd_elf d, jd_input d]" x]
    unfolding collision_def by (cases "x = y") (metis length_Cons, metis)
qed

section \<open>Witnesses\<close>

text \<open>A disk whose verifier answers at its second poll.\<close>

definition demo_sys :: "(string \<rightharpoonup> bytes, unit) sys" where
  "demo_sys =
     \<lparr>sys_os = disk,
      create_new = (\<lambda>fs p. if fs p = None then Inr (fs(p \<mapsto> [])) else Inl ()),
      already_exists = (\<lambda>e. True),
      write_all = (\<lambda>fs p bs. (None, fs(p \<mapsto> bs))),
      remove_file = (\<lambda>fs p. fs(p := None)),
      remove_dir_all = (\<lambda>fs p. fs),
      rename = (\<lambda>fs p q. case fs p of None \<Rightarrow> Inl () | Some bs \<Rightarrow> Inr (fs(p := None, q \<mapsto> bs))),
      copy_file = (\<lambda>fs p q. fs(q := fs p)),
      spawn = (\<lambda>fs cmd args.
        (Inr \<lparr>ch_poll = (\<lambda>i. if i = 0 then Running else Exited True), ch_ticks = 5, ch_stdout = [RData [1]]\<rparr>, fs)),
      temp_dir = ''/tmp'',
      process_id = 7\<rparr>"

lemma demo_sys_ok: "sys_ok demo_sys"
  by (auto simp: sys_ok_def demo_sys_def disk_ok) (simp add: disk_def)

definition demo_verdict :: receipt_verdict where
  "demo_verdict =
     \<lparr>rv_ok = True, rv_error = None, rv_status = Some 0, rv_instructions = Some 9, rv_chain = Some [],
      rv_output_hex = Some ''ff''\<rparr>"

definition demo_zk :: zk_judge where
  "demo_zk =
     \<lparr>zj_cmd = ''judge'', zj_guest_elf = ''guest'', zj_max_vm_cycles = 10, zj_receipt_dir = Some ''/r'',
      zj_verify_cmd = Some ''verify''\<rparr>"

lemma demo_ff: "from_hex ''ff'' 1 = Inr [255]"
  by (simp add: from_hex_def str_bytes_def char_byte_def hex_digit_def)

definition demo_parse :: "bytes \<Rightarrow> receipt_verdict option" where
  "demo_parse bs = (if bs = [1] then Some demo_verdict else None)"

definition demo_outcome :: receipt_outcome where
  "demo_outcome = \<lparr>ro_status = 0, ro_instructions = 9, ro_chunk_hashes = [], ro_output_hex = ''ff''\<rparr>"

definition demo_cache :: "string \<rightharpoonup> bytes" where
  "demo_cache = [join (join ''/r'' ''zk-cache'') (''k'' @ ''.receipt.bin'') \<mapsto> [7]]"

lemma demo_sys_simps:
  "sys_os demo_sys = disk" "temp_dir demo_sys = ''/tmp''" "process_id demo_sys = 7"
  "create_new demo_sys fs p = (if fs p = None then Inr (fs(p \<mapsto> [])) else Inl ())"
  "write_all demo_sys fs p bs = (None, fs(p \<mapsto> bs))"
  by (simp_all add: demo_sys_def)

lemma demo_file:
  "\<exists>fs'. exclusive_receipt_file demo_sys bs (demo_cache, ctr) =
     (Inr (join (join ''/tmp'' ''p2pc-zk-verify'') (receipt_name 7 ctr)), fs', ctr + 1)"
proof -
  have n: "demo_cache (join (join ''/tmp'' ''p2pc-zk-verify'') n) = None" for n
    by (simp add: demo_cache_def join_def)
  have m: "os_mkdir disk fs d = Inr fs" for fs d by (simp add: disk_def)
  have "receipt_file_loop demo_sys (join ''/tmp'' ''p2pc-zk-verify'') bs (Suc k) (demo_cache, ctr) =
     (Inr (join (join ''/tmp'' ''p2pc-zk-verify'') (receipt_name 7 ctr)),
      demo_cache(join (join ''/tmp'' ''p2pc-zk-verify'') (receipt_name 7 ctr) \<mapsto> bs), ctr + 1)" for k
    by (simp add: demo_sys_simps n Let_def)
  from this [of 31] show ?thesis by (simp add: exclusive_receipt_file_def demo_sys_simps m Let_def)
qed

lemma demo_verify:
  "\<exists>st'. verify_receipt demo_sys demo_parse cmd [7] b g v2 (demo_cache, 0) = (Inr demo_outcome, st')"
proof -
  have w: "wait_loop (\<lambda>i. if i = 0 then Running else Exited True) 0 5 = WaitExit True"
    by (simp add: eval_nat_numeral)
  obtain fs' path where f: "exclusive_receipt_file demo_sys [7] (demo_cache, 0) = (Inr path, fs', 0 + 1)"
    using demo_file [of "[7]" 0] by blast
  have c: "spawn demo_sys fs' cmd args =
      (Inr \<lparr>ch_poll = (\<lambda>i. if i = 0 then Running else Exited True), ch_ticks = 5, ch_stdout = [RData [1]]\<rparr>, fs')" for args
    by (simp add: demo_sys_def)
  have "demo_parse [1] = Some demo_verdict" "receipt_of_verdict demo_verdict = (Inr demo_outcome :: unit zk_error + _)"
    by (simp_all add: demo_parse_def demo_verdict_def receipt_of_verdict_def demo_outcome_def)
  then show ?thesis
    unfolding verify_receipt_def f by (simp add: MAX_RECEIPT_BYTES_def w c)
qed

lemma demo_cached:
  "\<exists>st'. verify_cached demo_sys id demo_parse demo_zk ''/r'' ''k'' b False (demo_cache, 0) =
     (Some (Accept (to_hex (journal 9 [255])) (Some ''ff'') [] True), st')"
proof -
  have r: "os_read (sys_os demo_sys) demo_cache (fst (cache_paths ''/r'' ''k'')) = Inr [7]"
    by (simp add: demo_sys_def disk_def cache_paths_def demo_cache_def Let_def)
  obtain st' where v: "verify_receipt demo_sys demo_parse ''verify'' [7] b ''guest'' False (demo_cache, 0) = (Inr demo_outcome, st')"
    using demo_verify by blast
  have z: "zj_verify_cmd demo_zk = Some ''verify''" "zj_guest_elf demo_zk = ''guest''"
    by (simp_all add: demo_zk_def)
  have o: "ro_status demo_outcome = 0" "ro_output_hex demo_outcome = ''ff''" "ro_instructions demo_outcome = 9"
    by (simp_all add: demo_outcome_def)
  have f: "from_hex ''ff'' (length ''ff'' div 2) = Inr [255]" using demo_ff by simp
  show ?thesis
    unfolding verify_cached_def z option.case fst_conv r sum.case v prod.case o f
    by (simp add: journal_digest_def)
qed


definition id_desc :: "char \<Rightarrow> job_descriptor" where
  "id_desc c = \<lparr>jd_job_id = ''j'', jd_manifest = replicate 64 c, jd_elf = replicate 64 c, jd_input = replicate 64 c\<rparr>"

lemma hex_pairs_replicate:
  assumes "hex_digit (char_byte c) = Inr d"
  shows "hex_pairs (str_bytes (replicate (2 * n) c)) = Inr (replicate n (ucast (push_bit 4 d OR d)))"
  using assms by (induction n) (simp_all add: str_bytes_def)

lemma demo_key:
  assumes "c \<in> {CHR ''a'', CHR ''A''}"
  shows "receipt_cache_key id (id_desc c) = Some (to_hex (replicate 96 0xaa))"
proof -
  have d: "hex_digit (char_byte c) = Inr 10" using assms by (auto simp: hex_digit_def char_byte_def)
  have "from_hex (replicate 64 c) 32 = Inr (replicate 32 0xaa)"
    using hex_pairs_replicate [OF d, of 32] by (simp add: from_hex_def)
  then show ?thesis by (simp add: receipt_cache_key_def id_desc_def replicate_add [symmetric])
qed

theorem receipt_cache_key_binds_witness:
  "from_hex (replicate 64 CHR ''a'') 32 = from_hex (replicate 64 CHR ''A'') 32 \<and>
   receipt_cache_key id (id_desc CHR ''a'') = receipt_cache_key id (id_desc CHR ''A'')"
  using receipt_cache_key_binds [OF demo_key [of "CHR ''a''"] demo_key [of "CHR ''A''"]]
    demo_key [of "CHR ''a''"] demo_key [of "CHR ''A''"]
  by (simp add: collision_def id_desc_def)

end
