(* ===== verification/Snapshot.thy ===== *)
theory Snapshot
  imports Machine
begin

text \<open>
  Serialised machine states (\<open>crates/rvcore/src/snapshot.rs\<close>): \<open>capture\<close> writes the registers,
  the program counter, the CSRs and every allocated page; \<open>restore\<close> parses untrusted bytes.
  Main results: \<open>restore\<close> undoes \<open>capture\<close>, and accepts only byte strings of the exact length,
  giving a memory that satisfies the representation invariant.
\<close>

section \<open>Operations\<close>

definition SNAP_MAGIC :: bytes where
  "SNAP_MAGIC = [0x52, 0x56, 0x53, 0x31]"

datatype snap_error = SnapTooShort | SnapBadMagic | SnapTruncated | SnapTrailing

definition capture :: "cpu \<Rightarrow> mem \<Rightarrow> bytes" where
  "capture c m =
     SNAP_MAGIC @ le_bytes 4 (of_nat (allocated_pages m) :: u32) @
     concat (map (le_bytes 8) (cpu_x c)) @ le_bytes 8 (cpu_pc c) @ le_bytes 8 (mtvec c) @
     le_bytes 8 (mepc c) @ le_bytes 8 (mcause c) @ le_bytes 8 (mstatus c) @
     concat (map (\<lambda>(idx, page). le_bytes 4 idx @ page) (page_iter m))"

definition snap_u64 :: "bytes \<Rightarrow> nat \<Rightarrow> u64" where
  "snap_u64 bs off = from_le (take 8 (drop off bs))"

text \<open>The page loop; the last argument counts the pages left, the result has the final offset.\<close>

fun restore_pages :: "bytes \<Rightarrow> nat \<Rightarrow> mem \<Rightarrow> nat \<Rightarrow> snap_error + (nat \<times> mem)" where
  "restore_pages bs off m 0 = Inr (off, m)"
| "restore_pages bs off m (Suc k) =
     (if off + 4 + PAGE_SIZE > length bs then Inl SnapTruncated
      else
        (let idx = from_le (take 4 (drop off bs)) :: u32;
             page = take PAGE_SIZE (drop (off + 4) bs)
         in restore_pages bs (off + (4 + PAGE_SIZE)) (insert_page m idx page) k))"

definition restore :: "bytes \<Rightarrow> snap_error + (cpu \<times> mem)" where
  "restore bs =
     (if length bs < 8 + 32 * 8 + 8 + 4 * 8 then Inl SnapTooShort
      else if take 4 bs \<noteq> SNAP_MAGIC then Inl SnapBadMagic
      else
        (let page_count = unat (from_le (take 4 (drop 4 bs)) :: u32);
             x = map (\<lambda>i. snap_u64 bs (8 + i * 8)) [0..<32];
             pc_off = 8 + 32 * 8;
             pc = snap_u64 bs pc_off;
             csr = map (\<lambda>i. snap_u64 bs (pc_off + 8 + i * 8)) [0..<4];
             c = \<lparr>cpu_x = x, cpu_pc = pc, mtvec = csr ! 0, mepc = csr ! 1, mcause = csr ! 2,
                  mstatus = csr ! 3, tohost = None\<rparr>
         in (case restore_pages bs (pc_off + 8 + 32) mem_new page_count of
               Inl e \<Rightarrow> Inl e
             | Inr (off, m) \<Rightarrow> if off \<noteq> length bs then Inl SnapTrailing else Inr (c, m))))"

section \<open>The page loop\<close>

definition insert_pages :: "(u32 \<times> bytes) list \<Rightarrow> mem \<Rightarrow> mem" where
  "insert_pages ps m = fold (\<lambda>(idx, page) m. insert_page m idx page) ps m"

lemma insert_pages_simps [simp]:
  "insert_pages [] m = m"
  "insert_pages ((i, p) # ps) m = insert_pages ps (insert_page m i p)"
  by (simp_all add: insert_pages_def)

lemma mem_new_empty:
  "high_pages (page_dir mem_new) = 0" "pages mem_new = Map.empty" "syscall_log mem_new = []"
  by (simp_all add: mem_new_def high_pages_def pages_def fun_eq_iff)

lemma insert_pages_correct:
  assumes "mem_ok m" and "\<forall>(i, p) \<in> set ps. length p = 4096"
    and "high_pages (page_dir m) + length ps < 2 ^ 31"
  shows "mem_ok (insert_pages ps m)"
    and "distinct (map fst ps) \<Longrightarrow> pages (insert_pages ps m) = pages m ++ map_of ps"
    and "syscall_log (insert_pages ps m) = syscall_log m"
proof -
  have "mem_ok (insert_pages ps m) \<and>
        (distinct (map fst ps) \<longrightarrow> pages (insert_pages ps m) = pages m ++ map_of ps) \<and>
        syscall_log (insert_pages ps m) = syscall_log m"
    using assms
  proof (induction ps arbitrary: m)
    case Nil
    then show ?case by simp
  next
    case (Cons x ps)
    obtain i p where x: "x = (i, p)" by (cases x)
    note c = insert_page_correct [of m p i]
    have eq: "pages (insert_page m i p) ++ map_of ps = pages m ++ map_of ((i, p) # ps)"
      if "i \<notin> fst ` set ps"
      using that c(2) Cons.prems x
      by (simp add: map_add_upd_left dom_map_of_conv_image_fst)
    show ?case
      using Cons.IH [of "insert_page m i p"] Cons.prems c eq unfolding x
      by (simp del: map_of.simps)
  qed
  then show "mem_ok (insert_pages ps m)"
    and "distinct (map fst ps) \<Longrightarrow> pages (insert_pages ps m) = pages m ++ map_of ps"
    and "syscall_log (insert_pages ps m) = syscall_log m" by auto
qed

text \<open>Whatever the loop accepts is a sequence of whole pages, inserted in order.\<close>

lemma restore_pages_Inr:
  assumes "restore_pages bs off m k = Inr (e, m')"
  shows "e = off + k * 4100 \<and> (off \<le> length bs \<longrightarrow> e \<le> length bs) \<and>
    (\<exists>ps. length ps = k \<and> (\<forall>(i, p) \<in> set ps. length p = 4096) \<and> m' = insert_pages ps m \<and>
          take (k * 4100) (drop off bs) = merkle_bytes ps)"
  using assms
proof (induction k arbitrary: off m)
  case 0
  then show ?case by (auto simp: merkle_bytes_def)
next
  case (Suc k)
  let ?i = "from_le (take 4 (drop off bs)) :: u32" and ?p = "take 4096 (drop (off + 4) bs)"
  have b: "off + 4100 \<le> length bs" using Suc.prems by (simp add: mem_consts split: if_splits)
  have r: "restore_pages bs (off + 4100) (insert_page m ?i ?p) k = Inr (e, m')"
    using Suc.prems b by (simp add: mem_consts Let_def)
  obtain ps where ps: "length ps = k" "\<forall>(i, p) \<in> set ps. length p = 4096"
    "m' = insert_pages ps (insert_page m ?i ?p)"
    "take (k * 4100) (drop (off + 4100) bs) = merkle_bytes ps"
    and e: "e = off + 4100 + k * 4100" "off + 4100 \<le> length bs \<longrightarrow> e \<le> length bs"
    using Suc.IH [OF r] by auto
  have "take (Suc k * 4100) (drop off bs) =
        take 4 (drop off bs) @ take 4096 (drop (off + 4) bs) @ take (k * 4100) (drop (off + 4100) bs)"
    using take_add [of 4 4096 "drop off bs"] by (simp add: take_add add.commute)
  also have "take 4 (drop off bs) = le_bytes 4 ?i"
    using b by (subst le_bytes_from_le) simp_all
  finally have "take (Suc k * 4100) (drop off bs) = merkle_bytes ((?i, ?p) # ps)"
    using ps(4) by (simp add: merkle_bytes_def)
  then show ?case
    using ps(1-3) e b by (intro conjI exI [of _ "(?i, ?p) # ps"]) auto
qed

lemma restore_pages_merkle_bytes:
  assumes "\<forall>(i, p) \<in> set ps. length p = 4096"
  shows "restore_pages (pre @ merkle_bytes ps) (length pre) m (length ps) =
           Inr (length pre + length ps * 4100, insert_pages ps m)"
  using assms
proof (induction ps arbitrary: pre m)
  case Nil
  then show ?case by simp
next
  case (Cons x ps)
  obtain i p where x: "x = (i, p)" by (cases x)
  have p: "length p = 4096" using Cons.prems x by simp
  have eq: "pre @ merkle_bytes (x # ps) = (pre @ le_bytes 4 i @ p) @ merkle_bytes ps"
    by (simp add: merkle_bytes_def x)
  show ?case
    using Cons.IH [of "pre @ le_bytes 4 i @ p" "insert_page m i p"] Cons.prems p
    unfolding eq by (simp add: mem_consts Let_def x)
qed

section \<open>Round trip\<close>

lemma capture_eq:
  "capture c m =
     SNAP_MAGIC @ le_bytes 4 (of_nat (allocated_pages m) :: u32) @
     concat (map (le_bytes 8) (cpu_x c @ [cpu_pc c, mtvec c, mepc c, mcause c, mstatus c])) @
     merkle_bytes (page_iter m)"
  by (simp add: capture_def merkle_bytes_def)

lemma length_SNAP_MAGIC [simp]: "length SNAP_MAGIC = 4"
  by (simp add: SNAP_MAGIC_def)

text \<open>Reading the \<open>i\<close>-th 64-bit word of a header laid out as consecutive words.\<close>

lemma take_drop_concat_le_bytes:
  "i < length ws \<Longrightarrow>
     take 8 (drop (i * 8) (concat (map (le_bytes 8) (ws :: u64 list)) @ rest)) = le_bytes 8 (ws ! i)"
proof (induction ws arbitrary: i)
  case (Cons w ws)
  then show ?case by (cases i) simp_all
qed simp

lemma snap_u64_header:
  assumes "length pre = 8" and "i < length ws"
  shows "snap_u64 (pre @ concat (map (le_bytes 8) ws) @ rest) (8 + i * 8) = ws ! i"
  using take_drop_concat_le_bytes [OF assms(2), of rest] assms(1) by (simp add: snap_u64_def)

lemma allocated_pages_iter: "allocated_pages m = length (page_iter m)"
  by (simp add: allocated_pages_def page_iter_def)

lemma restore_header:
  fixes pre ws rest
  assumes "length pre = 8" and "take 4 pre = SNAP_MAGIC" and "length ws = 37"
  defines "bs \<equiv> pre @ concat (map (le_bytes 8) ws) @ rest"
  shows "restore bs =
    (case restore_pages bs 304 mem_new (unat (from_le (drop 4 pre) :: u32)) of
       Inl e \<Rightarrow> Inl e
     | Inr (off, m) \<Rightarrow>
         if off \<noteq> length bs then Inl SnapTrailing
         else Inr (\<lparr>cpu_x = take 32 ws, cpu_pc = ws ! 32, mtvec = ws ! 33, mepc = ws ! 34,
                    mcause = ws ! 35, mstatus = ws ! 36, tohost = None\<rparr>, m))"
proof -
  have u: "snap_u64 bs (8 + i * 8) = ws ! i" if "i < 37" for i
    unfolding bs_def using that assms by (intro snap_u64_header) simp_all
  have x: "map (\<lambda>i. snap_u64 bs (8 + i * 8)) [0..<32] = take 32 ws"
    using u assms(3) by (intro nth_equalityI) simp_all
  have c: "snap_u64 bs 264 = ws ! 32" "snap_u64 bs 272 = ws ! 33" "snap_u64 bs 280 = ws ! 34"
    "snap_u64 bs 288 = ws ! 35" "snap_u64 bs 296 = ws ! 36"
    using u [of 32] u [of 33] u [of 34] u [of 35] u [of 36] by simp_all
  have l: "\<not> length bs < 304" "take 4 bs = SNAP_MAGIC" "take 4 (drop 4 bs) = drop 4 pre"
    using assms by (simp_all add: bs_def)
  show ?thesis unfolding restore_def Let_def using x c l by (auto split: sum.split)
qed

lemma restore_capture:
  assumes "cpu_ok c" and "mem_ok m" and "allocated_pages m < 2 ^ 31"
  shows "\<exists>m'. restore (capture c m) = Inr (c\<lparr>tohost := None\<rparr>, m') \<and> mem_eq m' (m\<lparr>syscall_log := []\<rparr>)"
proof -
  let ?ps = "page_iter m"
  let ?ws = "cpu_x c @ [cpu_pc c, mtvec c, mepc c, mcause c, mstatus c]"
  let ?pre = "SNAP_MAGIC @ le_bytes 4 (of_nat (allocated_pages m) :: u32)"
  have x: "length (cpu_x c) = 32" using assms(1) by (simp add: cpu_ok_def)
  have l: "length ?ps < 2 ^ 31" using assms(3) by (simp add: allocated_pages_iter)
  have n: "unat (of_nat (allocated_pages m) :: u32) = length ?ps"
    using l by (simp add: allocated_pages_iter unat_of_nat)
  have ok: "\<forall>(i, p) \<in> set ?ps. length p = 4096" using page_iter_length [OF assms(2)] by auto
  have len: "length (?pre @ concat (map (le_bytes 8) ?ws)) = 304"
    by (simp add: x del: map_append)
  have eq: "capture c m = (?pre @ concat (map (le_bytes 8) ?ws)) @ merkle_bytes ?ps"
    unfolding capture_eq by simp
  have r: "restore_pages (capture c m) 304 mem_new (length ?ps) =
           Inr (304 + length ?ps * 4100, insert_pages ?ps mem_new)"
    using restore_pages_merkle_bytes [OF ok, of "?pre @ concat (map (le_bytes 8) ?ws)" mem_new]
    unfolding eq len by simp
  have lm: "length (merkle_bytes ps) = length ps * 4100"
    if "\<forall>(i, p) \<in> set ps. length p = 4096" for ps
    using that by (induction ps) (auto simp: merkle_bytes_def)
  have cap: "length (capture c m) = 304 + length ?ps * 4100"
    unfolding eq length_append [of "?pre @ _"] len lm [OF ok] ..
  have h: "restore (capture c m) = Inr (c\<lparr>tohost := None\<rparr>, insert_pages ?ps mem_new)"
    using restore_header [of ?pre ?ws "merkle_bytes ?ps"] r cap n x
    unfolding eq by (simp add: nth_append)
  have ip: "mem_ok (insert_pages ?ps mem_new)" "pages (insert_pages ?ps mem_new) = map_of ?ps"
    "syscall_log (insert_pages ?ps mem_new) = []"
    using insert_pages_correct [OF mem_ok_new ok] l
      bt_sorted_distinct [OF bt_sorted_page_iter [OF assms(2)]] by (simp_all add: mem_new_empty)
  have "page_iter (insert_pages ?ps mem_new) = ?ps"
    using page_iter_eq_iff [OF ip(1) assms(2)] ip(2) by (simp add: map_of_page_iter)
  then show ?thesis using h ip assms(2) by (simp add: mem_eq_def)
qed

text \<open>
  C20: Restoring a captured state gives back every register, the program counter, the CSRs and
  every allocated page, for every well-formed machine with fewer than \<open>2^31\<close> pages; only the
  device latch and the syscall log, which are not architectural, come back empty.
\<close>

theorem snapshot_round_trip:
  assumes "cpu_ok c" and "mem_ok m" and "allocated_pages m < 2 ^ 31"
  shows "\<exists>m'. restore (capture c m) = Inr (c\<lparr>tohost := None\<rparr>, m') \<and> mem_ok m' \<and>
              page_iter m' = page_iter m \<and> syscall_log m' = []"
  using restore_capture [OF assms] by (auto simp: mem_eq_def)

theorem snapshot_round_trip_witness:
  "cpu_ok (cpu_new 4096 64) \<and> mem_ok mem_new \<and> allocated_pages mem_new < 2 ^ 31 \<and>
   (\<exists>m'. restore (capture (cpu_new 4096 64) mem_new) = Inr ((cpu_new 4096 64)\<lparr>tohost := None\<rparr>, m') \<and>
         mem_ok m' \<and> page_iter m' = page_iter mem_new \<and> syscall_log m' = [])"
proof -
  have "allocated_pages mem_new < 2 ^ 31" by (simp add: allocated_pages_def mem_new_def)
  then show ?thesis using snapshot_round_trip [OF cpu_ok_new mem_ok_new, of 4096 64]
    by (simp add: cpu_ok_new mem_ok_new)
qed

lemma restore_InrD:
  assumes "restore bs = Inr (c, m)" and "length bs < 2 ^ 43"
  shows "take 4 bs = SNAP_MAGIC \<and>
         length bs = 304 + 4100 * unat (from_le (take 4 (drop 4 bs)) :: u32) \<and>
         length (cpu_x c) = 32 \<and> tohost c = None \<and> mem_ok m \<and> syscall_log m = []"
proof -
  let ?n = "unat (from_le (take 4 (drop 4 bs)) :: u32)"
  have g: "304 \<le> length bs" "take 4 bs = SNAP_MAGIC"
    using assms(1) by (auto simp: restore_def split: if_splits)
  have p: "restore_pages bs 304 mem_new ?n = Inr (length bs, m) \<and>
           length (cpu_x c) = 32 \<and> tohost c = None"
    using assms(1) g by (auto simp: restore_def Let_def split: sum.splits if_splits)
  obtain ps where ps: "length ps = ?n" "\<forall>(i, p) \<in> set ps. length p = 4096"
    "m = insert_pages ps mem_new" and e: "length bs = 304 + ?n * 4100"
    using restore_pages_Inr [OF conjunct1 [OF p]] by blast
  have "length ps < 2 ^ 31" using assms(2) unfolding e ps(1) [symmetric] by simp
  then have "mem_ok m \<and> syscall_log m = []"
    using insert_pages_correct [OF mem_ok_new ps(2)] ps(3) by (simp add: mem_new_empty)
  moreover have "length bs = 304 + 4100 * ?n" using e by (subst mult.commute)
  ultimately show ?thesis using g(2) p by blast
qed

text \<open>
  C21: \<open>restore\<close> accepts untrusted bytes only when they start with the magic, hold exactly the
  announced number of pages and nothing after them; the machine it builds has 32 registers, an
  empty device latch and log, and a memory that satisfies the representation invariant
  (snapshots below \<open>2^43\<close> bytes).
\<close>

theorem restore_accepts_exact:
  assumes "restore bs = Inr (c, m)" and "length bs < 2 ^ 43"
  shows "take 4 bs = SNAP_MAGIC \<and>
         length bs = 304 + 4100 * unat (from_le (take 4 (drop 4 bs)) :: u32) \<and>
         length (cpu_x c) = 32 \<and> tohost c = None \<and> mem_ok m \<and> syscall_log m = []"
  by (rule restore_InrD [OF assms])

definition empty_snapshot :: bytes where
  "empty_snapshot = SNAP_MAGIC @ replicate 300 0"

theorem restore_accepts_exact_witness:
  "\<exists>c m. restore empty_snapshot = Inr (c, m) \<and> length empty_snapshot < 2 ^ 43 \<and>
         length empty_snapshot = 304 \<and> mem_ok m"
proof -
  have l: "length empty_snapshot = 304" by (simp add: empty_snapshot_def)
  have "take 4 empty_snapshot = SNAP_MAGIC" "take 4 (drop 4 empty_snapshot) = replicate 4 0"
    by (simp_all add: empty_snapshot_def)
  moreover have "unat (from_le (replicate 4 0) :: u32) = 0"
    by (simp add: numeral_nat)
  ultimately obtain c m where r: "restore empty_snapshot = Inr (c, m)"
    using l by (simp add: restore_def Let_def)
  show ?thesis using restore_accepts_exact [OF r] l r by auto
qed

end
