(* ===== verification/Run.thy ===== *)
theory Run
  imports Interp Snapshot
begin

text \<open>
  Running a job (\<open>crates/rvcore/src/interp.rs\<close>): the loop of \<open>run\<close> with its hash chain, chunk
  boundaries, snapshots, trap routing and output contract, and \<open>execute_chunk_from\<close>, the one
  judged chunk of a dispute. An iteration of the loop is \<open>run_iter\<close>; the loop ends because the
  instruction counter grows to \<open>max_instructions\<close>. The hash function is a parameter, and
  \<open>RunPanic\<close> stands for a Rust panic.
\<close>

section \<open>One judged chunk\<close>

datatype chunk_end = Boundary | ChunkHalted | ChunkTrapped trap

datatype chunk_out = ChunkOk digest chunk_end u64 | ChunkPanic

text \<open>The loop need not end (\<open>chunk_size = 0\<close>), so not returning is the value \<open>None\<close>.\<close>

partial_function (option) chunk_loop ::
    "(bytes \<Rightarrow> digest) \<Rightarrow> digest \<Rightarrow> u64 \<Rightarrow> cpu \<Rightarrow> mem \<Rightarrow> u64 \<Rightarrow> u64 \<Rightarrow> chunk_out option" where
  "chunk_loop blake3 prev chunk_size c m n in_chunk =
     (case step c m of (res, c, m) \<Rightarrow>
        (case res of
           StepPanic \<Rightarrow> Some ChunkPanic
         | StepErr t \<Rightarrow> Some (ChunkOk (state_hash blake3 prev c m) (ChunkTrapped t) n)
         | StepOk halted \<Rightarrow>
             if halted then Some (ChunkOk (state_hash blake3 prev c m) ChunkHalted (n + 1))
             else if in_chunk + 1 = chunk_size
             then Some (ChunkOk (state_hash blake3 prev c m) Boundary (n + 1))
             else chunk_loop blake3 prev chunk_size c m (n + 1) (in_chunk + 1)))"

definition execute_chunk_from ::
    "(bytes \<Rightarrow> digest) \<Rightarrow> bytes \<Rightarrow> digest \<Rightarrow> u64 \<Rightarrow> (snap_error + chunk_out) option" where
  "execute_chunk_from blake3 snapshot prev chunk_size =
     (case restore snapshot of
        Inl e \<Rightarrow> Some (Inl e)
      | Inr (c, m) \<Rightarrow>
          (case chunk_loop blake3 prev chunk_size c m 0 0 of
             None \<Rightarrow> None
           | Some r \<Rightarrow> Some (Inr r)))"

section \<open>Running a job\<close>

datatype exit_status = Halted | Tohost u64 | InstructionLimit | Trapped trap

record run_outcome =
  status :: exit_status
  chunk_hashes :: "digest list"
  instructions :: u64
  run_output :: "bytes option"
  run_log :: bytes

record config =
  chunk_size :: u64
  max_instructions :: u64
  syscalls :: bool
  snapshot_dir :: "string option"
  tohost_addr :: "u64 option"

definition config_default :: config where
  "config_default =
     \<lparr>chunk_size = push_bit 20 1, max_instructions = 4000000000, syscalls = False,
      snapshot_dir = None, tohost_addr = None\<rparr>"

text \<open>
  The local variables of \<open>run\<close>; \<open>rs_snaps\<close> has the files \<open>snap-<index>.bin\<close> in the order they
  are written.
\<close>

record run_state =
  rs_cpu :: cpu
  rs_mem :: mem
  rs_prev :: digest
  rs_chain :: "digest list"
  rs_n :: u64
  rs_in_chunk :: u64
  rs_snaps :: "(nat \<times> bytes) list"

definition push_hash :: "(bytes \<Rightarrow> digest) \<Rightarrow> run_state \<Rightarrow> run_state" where
  "push_hash blake3 st =
     (let prev = state_hash blake3 (rs_prev st) (rs_cpu st) (rs_mem st)
      in st\<lparr>rs_prev := prev, rs_chain := rs_chain st @ [prev]\<rparr>)"

definition write_snapshot :: "config \<Rightarrow> bytes option \<Rightarrow> run_state \<Rightarrow> run_state" where
  "write_snapshot cfg snap st =
     (case (snapshot_dir cfg, snap) of
        (Some _, Some bs) \<Rightarrow> st\<lparr>rs_snaps := rs_snaps st @ [(length (rs_chain st), bs)]\<rparr>
      | _ \<Rightarrow> st)"

definition trap_cause :: "trap \<Rightarrow> u64" where
  "trap_cause t =
     (case t of
        IllegalInstruction _ _ \<Rightarrow> 2
      | LoadOutOfRange _ \<Rightarrow> 5
      | StoreOutOfRange _ \<Rightarrow> 7
      | Ecall \<Rightarrow> 8
      | _ \<Rightarrow> 0)"

definition route_trap :: "trap \<Rightarrow> cpu \<Rightarrow> cpu" where
  "route_trap t c =
     c\<lparr>mcause := trap_cause t, mepc := cpu_pc c, cpu_pc := mtvec c AND NOT 0x3\<rparr>"

datatype run_iter_res = Continue run_state | Break exit_status run_state | Panicked

text \<open>The part of an iteration after the step: \<open>res\<close> is the step's result, \<open>snap\<close> the capture.\<close>

definition run_dispatch ::
    "(bytes \<Rightarrow> digest) \<Rightarrow> config \<Rightarrow> step_res \<Rightarrow> bytes option \<Rightarrow> run_state \<Rightarrow> run_iter_res" where
  "run_dispatch blake3 cfg res snap st =
     (case res of
        StepPanic \<Rightarrow> Panicked
      | StepOk halted \<Rightarrow>
          (let st = st\<lparr>rs_n := rs_n st + 1\<rparr>
           in if halted then Break Halted (push_hash blake3 (write_snapshot cfg snap st))
              else
                (let st = st\<lparr>rs_in_chunk := rs_in_chunk st + 1\<rparr>
                 in if rs_in_chunk st = chunk_size cfg
                    then Continue ((push_hash blake3 (write_snapshot cfg snap st))\<lparr>rs_in_chunk := 0\<rparr>)
                    else Continue st))
      | StepErr t \<Rightarrow>
          if mtvec (rs_cpu st) \<noteq> 0
          then Continue (st\<lparr>rs_cpu := route_trap t (rs_cpu st), rs_n := rs_n st + 1,
                            rs_in_chunk := rs_in_chunk st + 1\<rparr>)
          else Break (Trapped t) (push_hash blake3 (write_snapshot cfg snap st)))"

definition run_iter :: "(bytes \<Rightarrow> digest) \<Rightarrow> config \<Rightarrow> run_state \<Rightarrow> run_iter_res" where
  "run_iter blake3 cfg st =
     (if rs_n st \<ge> max_instructions cfg then Break InstructionLimit (push_hash blake3 st)
      else
        (case step_mode (rs_cpu st) (rs_mem st) (syscalls cfg) (tohost_addr cfg) of (res, c, m) \<Rightarrow>
           (let at_boundary = (res \<noteq> StepOk False \<or> rs_in_chunk st + 1 = chunk_size cfg);
                snap = (if snapshot_dir cfg \<noteq> None \<and> at_boundary then Some (capture c m) else None);
                st = st\<lparr>rs_cpu := c, rs_mem := m\<rparr>
            in if res \<noteq> StepPanic \<and> tohost_addr cfg \<noteq> None \<and> tohost c \<noteq> None
               then Break (Tohost (case tohost c of Some v \<Rightarrow> v | None \<Rightarrow> 0)) (push_hash blake3 st)
               else run_dispatch blake3 cfg res snap st)))"

lemma push_hash_simps [simp]:
  "rs_n (push_hash blake3 st) = rs_n st" "rs_in_chunk (push_hash blake3 st) = rs_in_chunk st"
  "rs_cpu (push_hash blake3 st) = rs_cpu st" "rs_mem (push_hash blake3 st) = rs_mem st"
  "rs_snaps (push_hash blake3 st) = rs_snaps st"
  "rs_chain (push_hash blake3 st) =
     rs_chain st @ [state_hash blake3 (rs_prev st) (rs_cpu st) (rs_mem st)]"
  "rs_prev (push_hash blake3 st) = state_hash blake3 (rs_prev st) (rs_cpu st) (rs_mem st)"
  by (simp_all add: push_hash_def Let_def)

lemma write_snapshot_simps [simp]:
  "rs_n (write_snapshot cfg snap st) = rs_n st"
  "rs_in_chunk (write_snapshot cfg snap st) = rs_in_chunk st"
  "rs_cpu (write_snapshot cfg snap st) = rs_cpu st" "rs_mem (write_snapshot cfg snap st) = rs_mem st"
  "rs_chain (write_snapshot cfg snap st) = rs_chain st"
  "rs_prev (write_snapshot cfg snap st) = rs_prev st"
  by (simp_all add: write_snapshot_def split: option.split)

lemma run_iter_Continue_n:
  assumes "run_iter blake3 cfg st = Continue st'"
  shows "rs_n st < max_instructions cfg \<and> rs_n st' = rs_n st + 1"
  using assms
  by (auto simp: run_iter_def run_dispatch_def Let_def split: if_splits prod.splits step_res.splits)

lemma run_iter_Continue_unat:
  assumes "run_iter blake3 cfg st = Continue st'"
  shows "unat (rs_n st') = Suc (unat (rs_n st)) \<and> unat (rs_n st) < unat (max_instructions cfg)"
proof -
  have n: "rs_n st < max_instructions cfg" "rs_n st' = rs_n st + 1"
    using run_iter_Continue_n [OF assms] by auto
  then have "unat (rs_n st) < unat (max_instructions cfg)" by (simp add: word_less_nat_alt)
  then show ?thesis using n unat_inc by simp
qed

datatype 'a run_res = RunDone 'a | RunPanic

function run_loop :: "(bytes \<Rightarrow> digest) \<Rightarrow> config \<Rightarrow> run_state \<Rightarrow> (exit_status \<times> run_state) run_res" where
  "run_loop blake3 cfg st =
     (case run_iter blake3 cfg st of
        Continue st' \<Rightarrow> run_loop blake3 cfg st'
      | Break s st' \<Rightarrow> RunDone (s, st')
      | Panicked \<Rightarrow> RunPanic)"
  by pat_completeness auto
termination
  by (relation "measure (\<lambda>(_, cfg, st). unat (max_instructions cfg) - unat (rs_n st))")
    (auto dest: run_iter_Continue_unat)

declare run_loop.simps [simp del]

text \<open>The output contract, applied once the loop is over.\<close>

definition finish_run :: "exit_status \<Rightarrow> run_state \<Rightarrow> run_outcome" where
  "finish_run s st =
     (let (s, chain, out, m) =
            (if s = Halted then
               (let (r, m) = mem_read (rs_mem st) OUTPUT_LEN_ADDR 8;
                    len = (case r of Inl _ \<Rightarrow> 0 | Inr v \<Rightarrow> v)
                in if len > OUTPUT_MAX
                   then (Trapped OutputTooLarge, butlast (rs_chain st), None, m)
                   else (s, rs_chain st,
                         (case read_region m OUTPUT_DATA_ADDR (unat len) of
                            Inl _ \<Rightarrow> None | Inr bs \<Rightarrow> Some bs), m))
             else (s, rs_chain st, None, rs_mem st))
      in \<lparr>status = s, chunk_hashes = chain, instructions = rs_n st, run_output = out,
          run_log = syscall_log m\<rparr>)"

definition run_start :: "cpu \<Rightarrow> mem \<Rightarrow> run_state" where
  "run_start c m =
     \<lparr>rs_cpu = c, rs_mem = m, rs_prev = GENESIS, rs_chain = [], rs_n = 0, rs_in_chunk = 0,
      rs_snaps = []\<rparr>"

definition run ::
    "(bytes \<Rightarrow> digest) \<Rightarrow> mem \<Rightarrow> u64 \<Rightarrow> bytes \<Rightarrow> config \<Rightarrow> (run_outcome \<times> run_state) run_res" where
  "run blake3 m entry input cfg =
     (let c = cpu_new entry STACK_TOP;
          (r1, m) = mem_write m INPUT_LEN_ADDR (le_bytes 8 (of_nat (length input) :: u64));
          (r2, m) = mem_write m INPUT_DATA_ADDR input
      in case (r1, r2) of
           (Inr _, Inr _) \<Rightarrow>
             (case run_loop blake3 cfg (run_start c m) of
                RunPanic \<Rightarrow> RunPanic
              | RunDone (s, st) \<Rightarrow> RunDone (finish_run s st, st))
         | _ \<Rightarrow> RunPanic)"

section \<open>Runs depend on contents only\<close>

definition rs_eq :: "run_state \<Rightarrow> run_state \<Rightarrow> bool" where
  "rs_eq s1 s2 \<longleftrightarrow>
     rs_cpu s1 = rs_cpu s2 \<and> cpu_ok (rs_cpu s2) \<and> mem_eq (rs_mem s1) (rs_mem s2) \<and>
     rs_prev s1 = rs_prev s2 \<and> rs_chain s1 = rs_chain s2 \<and> rs_n s1 = rs_n s2 \<and>
     rs_in_chunk s1 = rs_in_chunk s2 \<and> rs_snaps s1 = rs_snaps s2"

fun iter_eq :: "run_iter_res \<Rightarrow> run_iter_res \<Rightarrow> bool" where
  "iter_eq (Continue s1) (Continue s2) = rs_eq s1 s2"
| "iter_eq (Break e1 s1) (Break e2 s2) = (e1 = e2 \<and> rs_eq s1 s2)"
| "iter_eq Panicked Panicked = True"
| "iter_eq _ _ = False"

lemma capture_same: "mem_eq m1 m2 \<Longrightarrow> capture c m1 = capture c m2"
  by (simp add: capture_def mem_eq_def allocated_pages_iter)

lemma rs_eq_push_hash: "rs_eq s1 s2 \<Longrightarrow> rs_eq (push_hash blake3 s1) (push_hash blake3 s2)"
  using state_hash_cong [of "rs_cpu s1" "rs_cpu s2" "rs_mem s1" "rs_mem s2"] by (simp add: rs_eq_def)

lemma rs_eq_write_snapshot:
  "rs_eq s1 s2 \<Longrightarrow> rs_eq (write_snapshot cfg snap s1) (write_snapshot cfg snap s2)"
  by (simp add: rs_eq_def write_snapshot_def split: option.split)

lemma rs_eq_updates:
  assumes "rs_eq s1 s2"
  shows "rs_eq (s1\<lparr>rs_n := v\<rparr>) (s2\<lparr>rs_n := v\<rparr>)"
    and "rs_eq (s1\<lparr>rs_in_chunk := v\<rparr>) (s2\<lparr>rs_in_chunk := v\<rparr>)"
    and "cpu_ok c \<Longrightarrow> rs_eq (s1\<lparr>rs_cpu := c\<rparr>) (s2\<lparr>rs_cpu := c\<rparr>)"
    and "cpu_ok c \<Longrightarrow> mem_eq m1 m2 \<Longrightarrow>
         rs_eq (s1\<lparr>rs_cpu := c, rs_mem := m1\<rparr>) (s2\<lparr>rs_cpu := c, rs_mem := m2\<rparr>)"
  using assms by (simp_all add: rs_eq_def)

lemma cpu_ok_route [simp]: "cpu_ok (route_trap t c) = cpu_ok c"
  by (simp add: route_trap_def cpu_ok_def)

lemma rs_eqD:
  assumes "rs_eq s1 s2"
  shows "rs_cpu s1 = rs_cpu s2" "rs_n s1 = rs_n s2" "rs_in_chunk s1 = rs_in_chunk s2"
    "cpu_ok (rs_cpu s2)" "mem_eq (rs_mem s1) (rs_mem s2)"
  using assms by (simp_all add: rs_eq_def)

lemma run_dispatch_eq:
  assumes "rs_eq s1 s2"
  shows "iter_eq (run_dispatch blake3 cfg res snap s1) (run_dispatch blake3 cfg res snap s2)"
  using assms rs_eqD [OF assms]
  by (auto simp: run_dispatch_def Let_def split: step_res.split
      intro!: rs_eq_push_hash rs_eq_write_snapshot rs_eq_updates)

lemma run_iter_eq:
  assumes "rs_eq s1 s2"
  shows "iter_eq (run_iter blake3 cfg s1) (run_iter blake3 cfg s2)"
proof -
  note d = rs_eqD [OF assms]
  obtain res c m1 where 1: "step_mode (rs_cpu s1) (rs_mem s1) (syscalls cfg) (tohost_addr cfg) = (res, c, m1)"
    by (metis prod_cases3)
  obtain m2 where 2: "step_mode (rs_cpu s2) (rs_mem s2) (syscalls cfg) (tohost_addr cfg) = (res, c, m2)"
    and ok: "cpu_ok c" "mem_eq m1 m2"
    using step_mode_eq [OF d(4,5), of "syscalls cfg" "tohost_addr cfg"] 1 d(1)
    by (cases "step_mode (rs_cpu s2) (rs_mem s2) (syscalls cfg) (tohost_addr cfg)")
      (auto simp: out_eq_def)
  have u: "rs_eq (s1\<lparr>rs_cpu := c, rs_mem := m1\<rparr>) (s2\<lparr>rs_cpu := c, rs_mem := m2\<rparr>)"
    using rs_eq_updates(4) [OF assms ok] .
  show ?thesis
    unfolding run_iter_def 1 2 Let_def
    using d assms capture_same [OF ok(2), of c] rs_eq_push_hash [OF u] rs_eq_push_hash [OF assms]
      run_dispatch_eq [OF u] by simp
qed

fun done_eq :: "(exit_status \<times> run_state) run_res \<Rightarrow> (exit_status \<times> run_state) run_res \<Rightarrow> bool" where
  "done_eq (RunDone (e1, s1)) (RunDone (e2, s2)) = (e1 = e2 \<and> rs_eq s1 s2)"
| "done_eq RunPanic RunPanic = True"
| "done_eq _ _ = False"

lemma run_loop_eq: "rs_eq s1 s2 \<Longrightarrow> done_eq (run_loop blake3 cfg s1) (run_loop blake3 cfg s2)"
proof (induction blake3 cfg s1 arbitrary: s2 rule: run_loop.induct)
  case (1 blake3 cfg s1)
  have "iter_eq (run_iter blake3 cfg s1) (run_iter blake3 cfg s2)" using 1(2) by (rule run_iter_eq)
  then show ?case
    using 1(1)
    by (auto simp: run_loop.simps [of _ _ s1] run_loop.simps [of _ _ s2]
        split: run_iter_res.splits)
qed

lemma finish_run_eq:
  assumes "rs_eq s1 s2"
  shows "finish_run e s1 = finish_run e s2"
proof -
  have m: "rv_mem.same (rs_mem s1) (rs_mem s2)" using rs_eqD(5) [OF assms] by (simp add: mem_eq_same)
  note r = rv_mem.rd_same [OF m, of OUTPUT_LEN_ADDR 8]
  have reg: "read_region (snd (mem_read (rs_mem s1) OUTPUT_LEN_ADDR 8)) a n =
             read_region (snd (mem_read (rs_mem s2) OUTPUT_LEN_ADDR 8)) a n" for a n
    using rv_mem.region_same r by blast
  have log: "syscall_log (snd (mem_read (rs_mem s1) OUTPUT_LEN_ADDR 8)) =
             syscall_log (snd (mem_read (rs_mem s2) OUTPUT_LEN_ADDR 8))"
    using r by (simp add: rv_mem.same_def)
  show ?thesis
    using assms r reg log by (simp add: finish_run_def Let_def case_prod_unfold rs_eq_def mem_eq_def)
qed

section \<open>Invariants of the loop\<close>

text \<open>
  \<open>snap_ok\<close>: a snapshot file named after chain index \<open>i\<close> is the capture of a well-formed machine
  whose state hash, on top of the chain entry before it, is chain entry \<open>i\<close>.
\<close>

definition snap_ok :: "(bytes \<Rightarrow> digest) \<Rightarrow> digest list \<Rightarrow> nat \<times> bytes \<Rightarrow> bool" where
  "snap_ok blake3 chain sn \<longleftrightarrow>
     fst sn < length chain \<and>
     (\<exists>c m. cpu_ok c \<and> mem_ok m \<and> snd sn = capture c m \<and>
            chain ! fst sn = state_hash blake3 ((GENESIS # chain) ! fst sn) c m)"

definition run_inv :: "(bytes \<Rightarrow> digest) \<Rightarrow> run_state \<Rightarrow> bool" where
  "run_inv blake3 st \<longleftrightarrow>
     cpu_ok (rs_cpu st) \<and> mem_ok (rs_mem st) \<and>
     rs_prev st = (GENESIS # rs_chain st) ! length (rs_chain st) \<and>
     (\<forall>sn \<in> set (rs_snaps st). snap_ok blake3 (rs_chain st) sn)"

lemma snap_ok_append: "snap_ok blake3 chain sn \<Longrightarrow> snap_ok blake3 (chain @ hs) sn"
proof -
  assume ok: "snap_ok blake3 chain sn"
  then have i: "fst sn < length chain" by (simp add: snap_ok_def)
  have "(GENESIS # chain @ hs) ! fst sn = (GENESIS # chain) ! fst sn"
    using i nth_append_left [of "fst sn" "GENESIS # chain" hs] by simp
  then show ?thesis using ok i by (simp add: snap_ok_def nth_append)
qed

lemma nth_Cons_length_append: "(x # xs @ ys) ! length xs = (x # xs) ! length xs"
  using nth_append_left [of "length xs" "x # xs" ys] by simp

lemma snap_ok_new:
  assumes "cpu_ok c" and "mem_ok m" and "prev = (GENESIS # chain) ! length chain"
  shows "snap_ok blake3 (chain @ [state_hash blake3 prev c m]) (length chain, capture c m)"
  using assms by (auto simp: snap_ok_def nth_Cons_length_append)

lemma run_inv_push_hash:
  assumes "run_inv blake3 st"
  shows "run_inv blake3 (push_hash blake3 st)"
  using assms by (auto simp: run_inv_def intro: snap_ok_append)

lemma run_inv_push_snapshot:
  assumes "run_inv blake3 st" and "snap = None \<or> snap = Some (capture (rs_cpu st) (rs_mem st))"
  shows "run_inv blake3 (push_hash blake3 (write_snapshot cfg snap st))"
  using assms
  by (auto simp: run_inv_def write_snapshot_def split: option.split
      intro: snap_ok_append snap_ok_new)

lemma run_inv_updates [simp]:
  "run_inv blake3 (st\<lparr>rs_n := v\<rparr>) = run_inv blake3 st"
  "run_inv blake3 (st\<lparr>rs_in_chunk := v\<rparr>) = run_inv blake3 st"
  by (simp_all add: run_inv_def)

lemma run_inv_cpu:
  "run_inv blake3 st \<Longrightarrow> cpu_ok c \<Longrightarrow> run_inv blake3 (st\<lparr>rs_cpu := c\<rparr>)"
  "run_inv blake3 st \<Longrightarrow> cpu_ok c \<Longrightarrow> mem_ok m \<Longrightarrow> run_inv blake3 (st\<lparr>rs_cpu := c, rs_mem := m\<rparr>)"
  by (simp_all add: run_inv_def)

fun iter_inv :: "(bytes \<Rightarrow> digest) \<Rightarrow> run_iter_res \<Rightarrow> bool" where
  "iter_inv blake3 (Continue st) = run_inv blake3 st"
| "iter_inv blake3 (Break e st) = run_inv blake3 st"
| "iter_inv blake3 Panicked = True"

lemma run_dispatch_inv:
  assumes "run_inv blake3 st" and "snap = None \<or> snap = Some (capture (rs_cpu st) (rs_mem st))"
  shows "iter_inv blake3 (run_dispatch blake3 cfg res snap st)"
proof -
  have "run_inv blake3 (st\<lparr>rs_cpu := route_trap t (rs_cpu st)\<rparr>)" for t
    using assms(1) by (intro run_inv_cpu) (simp_all add: run_inv_def)
  moreover have p: "run_inv blake3 (push_hash blake3 (write_snapshot cfg snap
                      (st\<lparr>rs_n := a, rs_in_chunk := b\<rparr>)))" for a b
    using assms by (intro run_inv_push_snapshot) simp_all
  ultimately show ?thesis
    using assms run_inv_push_snapshot [of blake3 st snap cfg]
      run_inv_push_snapshot [of blake3 "st\<lparr>rs_n := rs_n st + 1\<rparr>" snap cfg] p
    by (simp add: run_dispatch_def Let_def split: step_res.split)
qed

lemma run_iter_inv:
  assumes "run_inv blake3 st"
  shows "iter_inv blake3 (run_iter blake3 cfg st)"
proof -
  obtain res c m where s: "step_mode (rs_cpu st) (rs_mem st) (syscalls cfg) (tohost_addr cfg) = (res, c, m)"
    by (metis prod_cases3)
  have "cpu_ok c" "mem_ok m" using step_mode_ok [OF _ _ s] assms by (simp_all add: run_inv_def)
  then have "run_inv blake3 (st\<lparr>rs_cpu := c, rs_mem := m\<rparr>)" using assms by (intro run_inv_cpu)
  then show ?thesis
    unfolding run_iter_def s Let_def
    using run_inv_push_hash [OF assms] run_inv_push_hash run_dispatch_inv
    by auto
qed

lemma run_loop_inv:
  "run_inv blake3 st \<Longrightarrow> run_loop blake3 cfg st = RunDone (e, st') \<Longrightarrow> run_inv blake3 st'"
proof (induction blake3 cfg st rule: run_loop.induct)
  case (1 blake3 cfg st)
  then show ?case
    using run_iter_inv [OF 1(2), of cfg]
    by (auto simp: run_loop.simps [of _ _ st] split: run_iter_res.splits)
qed

lemma run_inv_start: "cpu_ok c \<Longrightarrow> mem_ok m \<Longrightarrow> run_inv blake3 (run_start c m)"
  by (simp add: run_inv_def run_start_def)

text \<open>What a finished run went through: the installed input, the loop, the output contract.\<close>

lemma run_cases:
  assumes "run blake3 m entry input cfg = RunDone (out, st)" and "mem_ok m"
  obtains m0 e where "mem_ok m0" and "run_loop blake3 cfg (run_start (cpu_new entry STACK_TOP) m0) = RunDone (e, st)"
    and "out = finish_run e st"
proof -
  let ?w1 = "mem_write m INPUT_LEN_ADDR (le_bytes 8 (of_nat (length input) :: u64))"
  let ?w2 = "mem_write (snd ?w1) INPUT_DATA_ADDR input"
  have "mem_ok (snd ?w2)" using rv_mem.wr_state assms(2) by blast
  moreover obtain e where "run_loop blake3 cfg (run_start (cpu_new entry STACK_TOP) (snd ?w2)) = RunDone (e, st)"
    and "out = finish_run e st"
    using assms(1) by (auto simp: run_def Let_def case_prod_unfold split: sum.splits run_res.splits)
  ultimately show ?thesis by (rule that)
qed

section \<open>Iterations, bounds and chunk accounting\<close>

text \<open>\<open>k\<close> iterations of the loop, stopping early where the loop would.\<close>

fun run_iters :: "(bytes \<Rightarrow> digest) \<Rightarrow> config \<Rightarrow> nat \<Rightarrow> run_state \<Rightarrow> run_iter_res" where
  "run_iters blake3 cfg 0 st = Continue st"
| "run_iters blake3 cfg (Suc k) st =
     (case run_iter blake3 cfg st of Continue st' \<Rightarrow> run_iters blake3 cfg k st' | r \<Rightarrow> r)"

lemma run_loop_iters:
  "run_iters blake3 cfg k st = Continue st' \<Longrightarrow> run_loop blake3 cfg st = run_loop blake3 cfg st'"
  "run_iters blake3 cfg k st = Break e st' \<Longrightarrow> run_loop blake3 cfg st = RunDone (e, st')"
proof (induction k arbitrary: st)
  case (Suc k)
  {
    case 1
    then show ?case using Suc(1) by (simp add: run_loop.simps [of _ _ st] split: run_iter_res.splits)
  next
    case 2
    then show ?case using Suc(2) by (simp add: run_loop.simps [of _ _ st] split: run_iter_res.splits)
  }
qed simp_all

lemma run_iter_Break_n:
  assumes "run_iter blake3 cfg st = Break e st'" and "rs_n st \<le> max_instructions cfg"
  shows "rs_n st' \<le> max_instructions cfg \<and> (e = InstructionLimit \<longrightarrow> rs_n st' = max_instructions cfg)"
proof -
  have "rs_n st < max_instructions cfg \<Longrightarrow> rs_n st + 1 \<le> max_instructions cfg"
    by (simp add: inc_le)
  then show ?thesis
    using assms
    by (auto simp: run_iter_def run_dispatch_def Let_def split: if_splits prod.splits step_res.splits)
qed

lemma run_loop_n:
  "run_loop blake3 cfg st = RunDone (e, st') \<Longrightarrow> rs_n st \<le> max_instructions cfg \<Longrightarrow>
     rs_n st' \<le> max_instructions cfg \<and> (e = InstructionLimit \<longrightarrow> rs_n st' = max_instructions cfg)"
proof (induction blake3 cfg st rule: run_loop.induct)
  case (1 blake3 cfg st)
  show ?case
  proof (cases "run_iter blake3 cfg st")
    case (Continue s1)
    have "rs_n s1 \<le> max_instructions cfg"
      using run_iter_Continue_n [OF Continue] by (simp add: inc_le)
    then show ?thesis using 1 Continue by (simp add: run_loop.simps [of _ _ st])
  next
    case (Break e1 s1)
    then show ?thesis
      using 1(2,3) run_iter_Break_n [OF Break] by (simp add: run_loop.simps [of _ _ st])
  next
    case Panicked
    then show ?thesis using 1(2) by (simp add: run_loop.simps [of _ _ st])
  qed
qed

lemma finish_run_simps:
  "instructions (finish_run e st) = rs_n st"
  "status (finish_run e st) = InstructionLimit \<longleftrightarrow> e = InstructionLimit"
  "status (finish_run e st) = Halted \<Longrightarrow> chunk_hashes (finish_run e st) = rs_chain st"
  by (auto simp: finish_run_def Let_def case_prod_unfold split: if_splits)

text \<open>Iterations in which no trap is routed to a handler: every step is an ordinary one.\<close>

fun clean_run :: "(bytes \<Rightarrow> digest) \<Rightarrow> config \<Rightarrow> nat \<Rightarrow> run_state \<Rightarrow> run_state option" where
  "clean_run blake3 cfg 0 st = Some st"
| "clean_run blake3 cfg (Suc k) st =
     (if fst (step_mode (rs_cpu st) (rs_mem st) (syscalls cfg) (tohost_addr cfg)) \<noteq> StepOk False then None
      else (case run_iter blake3 cfg st of
              Continue st' \<Rightarrow> clean_run blake3 cfg k st'
            | _ \<Rightarrow> None))"

lemma run_iter_clean:
  assumes "run_iter blake3 cfg st = Continue st'"
    and "fst (step_mode (rs_cpu st) (rs_mem st) (syscalls cfg) (tohost_addr cfg)) = StepOk False"
  shows "if rs_in_chunk st + 1 = chunk_size cfg
         then rs_in_chunk st' = 0 \<and> length (rs_chain st') = Suc (length (rs_chain st))
         else rs_in_chunk st' = rs_in_chunk st + 1 \<and> rs_chain st' = rs_chain st"
  using assms
  by (auto simp: run_iter_def run_dispatch_def Let_def split: if_splits prod.splits)

lemma clean_run_count:
  assumes "clean_run blake3 cfg k st = Some st'" and "rs_in_chunk st < chunk_size cfg"
  shows "unat (rs_in_chunk st') < unat (chunk_size cfg) \<and>
         unat (chunk_size cfg) * length (rs_chain st') + unat (rs_in_chunk st') =
         unat (chunk_size cfg) * length (rs_chain st) + unat (rs_in_chunk st) + k"
  using assms
proof (induction k arbitrary: st)
  case 0
  then show ?case by (simp add: word_less_nat_alt)
next
  case (Suc k)
  from Suc.prems(1) obtain s1 where s1: "run_iter blake3 cfg st = Continue s1"
    "clean_run blake3 cfg k s1 = Some st'"
    and ok: "fst (step_mode (rs_cpu st) (rs_mem st) (syscalls cfg) (tohost_addr cfg)) = StepOk False"
    by (auto split: if_splits run_iter_res.splits)
  note c = run_iter_clean [OF s1(1) ok]
  have lt: "unat (rs_in_chunk st) < unat (chunk_size cfg)" using Suc.prems(2) by (simp add: word_less_nat_alt)
  then have u: "unat (rs_in_chunk st + 1) = Suc (unat (rs_in_chunk st))"
    by (rule unat_inc)
  show ?case
  proof (cases "rs_in_chunk st + 1 = chunk_size cfg")
    case True
    then have "unat (chunk_size cfg) = Suc (unat (rs_in_chunk st))" using u by simp
    moreover have "rs_in_chunk s1 < chunk_size cfg"
      using c True lt by (simp add: word_less_nat_alt)
    ultimately show ?thesis using Suc.IH [OF s1(2)] c True by simp
  next
    case False
    then have "unat (rs_in_chunk st + 1) \<noteq> unat (chunk_size cfg)" by (metis unsigned_word_eqI)
    then have "rs_in_chunk s1 < chunk_size cfg"
      using c False lt u by (simp add: word_less_nat_alt)
    then show ?thesis using Suc.IH [OF s1(2)] c False u by simp
  qed
qed

lemma run_iter_step:
  assumes "rs_n st < max_instructions cfg" and "tohost_addr cfg = None"
    and "step_mode (rs_cpu st) (rs_mem st) (syscalls cfg) None = (res, c, m)"
  obtains snap where
    "run_iter blake3 cfg st = run_dispatch blake3 cfg res snap (st\<lparr>rs_cpu := c, rs_mem := m\<rparr>)"
proof -
  have "run_iter blake3 cfg st = run_dispatch blake3 cfg res
          (if snapshot_dir cfg \<noteq> None \<and> (res \<noteq> StepOk False \<or> rs_in_chunk st + 1 = chunk_size cfg)
           then Some (capture c m) else None) (st\<lparr>rs_cpu := c, rs_mem := m\<rparr>)"
    using assms(2,3) assms(1) [folded not_le] by (simp add: run_iter_def Let_def)
  then show ?thesis by (rule that)
qed

text \<open>Past the end of a chunk the loop never meets the boundary test again.\<close>

lemma run_iter_past_boundary:
  assumes "run_iter blake3 cfg st = Continue st'" and "chunk_size cfg \<le> rs_in_chunk st"
    and "rs_in_chunk st \<le> rs_n st"
  shows "rs_chain st' = rs_chain st \<and> chunk_size cfg \<le> rs_in_chunk st' \<and> rs_in_chunk st' \<le> rs_n st'"
proof -
  note n = run_iter_Continue_n [OF assms(1)] and nu = run_iter_Continue_unat [OF assms(1)]
  have u: "unat (rs_in_chunk st + 1) = Suc (unat (rs_in_chunk st))"
    using assms(3) nu by (intro unat_inc [of _ "max_instructions cfg"]) (simp add: word_le_nat_alt)
  then have ne: "rs_in_chunk st + 1 \<noteq> chunk_size cfg"
    using assms(2) by (auto simp: word_le_nat_alt)
  have "rs_chain st' = rs_chain st \<and> rs_in_chunk st' = rs_in_chunk st + 1"
    using assms(1) ne
    by (auto simp: run_iter_def run_dispatch_def Let_def split: if_splits prod.splits step_res.splits)
  then show ?thesis using assms(2,3) n nu u by (simp add: word_le_nat_alt)
qed

lemma run_iters_past_boundary:
  assumes "run_iters blake3 cfg k st = Continue st'" and "chunk_size cfg \<le> rs_in_chunk st"
    and "rs_in_chunk st \<le> rs_n st"
  shows "rs_chain st' = rs_chain st"
  using assms
proof (induction k arbitrary: st)
  case (Suc k)
  from Suc.prems(1) obtain s1 where s1: "run_iter blake3 cfg st = Continue s1"
    "run_iters blake3 cfg k s1 = Continue st'" by (auto split: run_iter_res.splits)
  note p = run_iter_past_boundary [OF s1(1) Suc.prems(2,3)]
  show ?case using Suc.IH [OF s1(2)] p by simp
qed simp

section \<open>The judged chunk and the run agree\<close>

text \<open>
  What the judge's outcome says about the run it judges, from the run state \<open>st\<close> at the start of
  the chunk: the next hash the run emits is the judge's hash, with the corresponding ending. For
  a trap, the run ends there unless the guest installed a handler.
\<close>

fun agrees_with_run :: "(bytes \<Rightarrow> digest) \<Rightarrow> config \<Rightarrow> run_state \<Rightarrow> chunk_out \<Rightarrow> bool" where
  "agrees_with_run blake3 cfg st ChunkPanic = (\<exists>j. run_iters blake3 cfg j st = Panicked)"
| "agrees_with_run blake3 cfg st (ChunkOk h Boundary n) =
     (\<exists>j st'. run_iters blake3 cfg j st = Continue st' \<and> rs_chain st' = rs_chain st @ [h] \<and>
              rs_in_chunk st' = 0)"
| "agrees_with_run blake3 cfg st (ChunkOk h ChunkHalted n) =
     (\<exists>j st'. run_iters blake3 cfg j st = Break Halted st' \<and> rs_chain st' = rs_chain st @ [h])"
| "agrees_with_run blake3 cfg st (ChunkOk h (ChunkTrapped t) n) =
     (\<exists>j st1 c m. run_iters blake3 cfg j st = Continue st1 \<and> rs_chain st1 = rs_chain st \<and>
        step (rs_cpu st1) (rs_mem st1) = (StepErr t, c, m) \<and>
        (mtvec c = 0 \<longrightarrow>
           (\<exists>st'. run_iters blake3 cfg (Suc j) st = Break (Trapped t) st' \<and>
                  rs_chain st' = rs_chain st @ [h])))"

lemma agrees_step:
  assumes "run_iter blake3 cfg st = Continue s1" and "rs_chain s1 = rs_chain st"
    and "agrees_with_run blake3 cfg s1 out"
  shows "agrees_with_run blake3 cfg st out"
proof -
  have j: "run_iters blake3 cfg (Suc j) st = run_iters blake3 cfg j s1" for j using assms(1) by simp
  consider "out = ChunkPanic" | h n where "out = ChunkOk h Boundary n"
    | h n where "out = ChunkOk h ChunkHalted n" | h t n where "out = ChunkOk h (ChunkTrapped t) n"
    by (metis chunk_end.exhaust chunk_out.exhaust)
  then show ?thesis
  proof cases
    case 1
    then show ?thesis using assms(3) unfolding 1 agrees_with_run.simps unfolding j [symmetric] by blast
  next
    case 2
    then obtain i st' where "run_iters blake3 cfg i s1 = Continue st'"
      "rs_chain st' = rs_chain st @ [h]" "rs_in_chunk st' = 0" using assms(2,3) by auto
    then show ?thesis unfolding 2 agrees_with_run.simps unfolding j [symmetric] by blast
  next
    case 3
    then obtain i st' where "run_iters blake3 cfg i s1 = Break Halted st'"
      "rs_chain st' = rs_chain st @ [h]" using assms(2,3) by auto
    then show ?thesis unfolding 3 agrees_with_run.simps unfolding j [symmetric] by blast
  next
    case 4
    then obtain i st1 c m where *: "run_iters blake3 cfg i s1 = Continue st1" "rs_chain st1 = rs_chain st"
      "step (rs_cpu st1) (rs_mem st1) = (StepErr t, c, m)"
      "mtvec c = 0 \<longrightarrow> (\<exists>st'. run_iters blake3 cfg (Suc i) s1 = Break (Trapped t) st' \<and>
                               rs_chain st' = rs_chain st @ [h])"
      using assms(2,3) by auto
    show ?thesis unfolding 4 agrees_with_run.simps
      using * unfolding j [symmetric] by blast
  qed
qed

lemma run_iters_1: "run_iters blake3 cfg (Suc 0) st = run_iter blake3 cfg st"
  by (simp split: run_iter_res.split)

lemma step_pair:
  assumes "cpu_ok c" and "mem_eq m n"
  obtains res c' m' n' where "step c m = (res, c', m')" and "step c n = (res, c', n')"
    and "cpu_ok c'" and "mem_eq m' n'"
  using step_mode_eq [OF assms, of False None] that
  by (cases "step_mode c m False None"; cases "step_mode c n False None")
    (auto simp: out_eq_def step_def)

text \<open>
  The run's budget does not cut the current chunk short: the instructions left in the chunk fit, or
  the run is known to end otherwise than at the limit.
\<close>

definition in_budget :: "(bytes \<Rightarrow> digest) \<Rightarrow> config \<Rightarrow> run_state \<Rightarrow> bool" where
  "in_budget blake3 cfg st \<longleftrightarrow>
     unat (rs_n st) + (unat (chunk_size cfg) - unat (rs_in_chunk st)) \<le> unat (max_instructions cfg) \<or>
     (\<exists>e fin. run_loop blake3 cfg st = RunDone (e, fin) \<and> e \<noteq> InstructionLimit)"

lemma run_loop_limit:
  "rs_n st \<ge> max_instructions cfg \<Longrightarrow> run_loop blake3 cfg st = RunDone (InstructionLimit, push_hash blake3 st)"
  using run_loop.simps [of blake3 cfg st] by (simp add: run_iter_def)

lemma run_loop_Continue:
  "run_iter blake3 cfg st = Continue st' \<Longrightarrow> run_loop blake3 cfg st = run_loop blake3 cfg st'"
  using run_loop.simps [of blake3 cfg st] by simp

lemma in_budget_lt:
  assumes "in_budget blake3 cfg st" and "rs_in_chunk st < chunk_size cfg"
  shows "rs_n st < max_instructions cfg"
proof (rule ccontr)
  assume "\<not> rs_n st < max_instructions cfg"
  then have "max_instructions cfg \<le> rs_n st" by simp
  then show False
    using assms run_loop_limit [of cfg st blake3]
    by (auto simp: in_budget_def word_less_nat_alt word_le_nat_alt)
qed

lemma in_budget_next:
  assumes "in_budget blake3 cfg st" and "rs_in_chunk st < chunk_size cfg"
    and "run_iter blake3 cfg st = Continue s1" and "rs_in_chunk s1 = rs_in_chunk st + 1"
  shows "in_budget blake3 cfg s1"
proof -
  have "unat (rs_in_chunk s1) = Suc (unat (rs_in_chunk st))"
    using assms(2,4) unat_inc by (simp add: word_less_nat_alt)
  then show ?thesis
    using assms(1,2) run_iter_Continue_unat [OF assms(3)] run_loop_Continue [OF assms(3)]
    by (auto simp: in_budget_def word_less_nat_alt)
qed

text \<open>One instruction of the judge against one iteration of the run, for each way a step can end.\<close>

lemma agrees_panic:
  assumes "run_iter blake3 cfg st = run_dispatch blake3 cfg StepPanic snap s"
  shows "agrees_with_run blake3 cfg st ChunkPanic"
proof -
  have "run_iters blake3 cfg (Suc 0) st = Panicked"
    unfolding run_iters_1 using assms by (simp add: run_dispatch_def)
  then show ?thesis unfolding agrees_with_run.simps by blast
qed

lemma agrees_trap:
  assumes "run_iter blake3 cfg st =
      run_dispatch blake3 cfg (StepErr t) snap (st\<lparr>rs_cpu := c, rs_mem := m\<rparr>)"
    and "step (rs_cpu st) (rs_mem st) = (StepErr t, c, m)"
  shows "agrees_with_run blake3 cfg st (ChunkOk (state_hash blake3 (rs_prev st) c m) (ChunkTrapped t) n)"
proof -
  have "mtvec c = 0 \<Longrightarrow> \<exists>st'. run_iters blake3 cfg (Suc 0) st = Break (Trapped t) st' \<and>
          rs_chain st' = rs_chain st @ [state_hash blake3 (rs_prev st) c m]"
    unfolding run_iters_1 assms(1) by (simp add: run_dispatch_def)
  then show ?thesis unfolding agrees_with_run.simps using assms(2)
    by (intro exI [of _ 0] exI [of _ st] exI [of _ c] exI [of _ m]) simp
qed

lemma agrees_halt:
  assumes "run_iter blake3 cfg st =
      run_dispatch blake3 cfg (StepOk True) snap (st\<lparr>rs_cpu := c, rs_mem := m\<rparr>)"
  shows "agrees_with_run blake3 cfg st (ChunkOk (state_hash blake3 (rs_prev st) c m) ChunkHalted n)"
proof -
  have "\<exists>st'. run_iters blake3 cfg (Suc 0) st = Break Halted st' \<and>
          rs_chain st' = rs_chain st @ [state_hash blake3 (rs_prev st) c m]"
    unfolding run_iters_1 assms by (simp add: run_dispatch_def)
  then show ?thesis unfolding agrees_with_run.simps by blast
qed

lemma agrees_boundary:
  assumes "run_iter blake3 cfg st =
      run_dispatch blake3 cfg (StepOk False) snap (st\<lparr>rs_cpu := c, rs_mem := m\<rparr>)"
    and "rs_in_chunk st + 1 = chunk_size cfg"
  shows "agrees_with_run blake3 cfg st (ChunkOk (state_hash blake3 (rs_prev st) c m) Boundary n)"
proof -
  have "\<exists>st'. run_iters blake3 cfg (Suc 0) st = Continue st' \<and>
          rs_chain st' = rs_chain st @ [state_hash blake3 (rs_prev st) c m] \<and> rs_in_chunk st' = 0"
    unfolding run_iters_1 assms(1) using assms(2) by (simp add: run_dispatch_def)
  then show ?thesis unfolding agrees_with_run.simps by blast
qed

lemma chunk_sim:
  assumes "syscalls cfg = False" and "tohost_addr cfg = None"
    and "cpu_ok (rs_cpu st)" and "mem_eq m (rs_mem st)"
    and "rs_in_chunk st < chunk_size cfg" and "in_budget blake3 cfg st"
  shows "\<exists>out. chunk_loop blake3 (rs_prev st) (chunk_size cfg) (rs_cpu st) m nn (rs_in_chunk st) = Some out \<and>
               agrees_with_run blake3 cfg st out"
  using assms(3-)
proof (induction "unat (chunk_size cfg) - unat (rs_in_chunk st)" arbitrary: st m nn)
  case 0
  then show ?case by (simp add: word_less_nat_alt)
next
  case (Suc d)
  let ?i = "rs_in_chunk st" and ?cs = "chunk_size cfg"
  have lt: "unat ?i < unat ?cs" using Suc.prems(3) by (simp add: word_less_nat_alt)
  have n: "rs_n st < max_instructions cfg" using in_budget_lt [OF Suc.prems(4,3)] .
  obtain res c m1 m2 where s: "step (rs_cpu st) m = (res, c, m1)"
    "step (rs_cpu st) (rs_mem st) = (res, c, m2)" and ok: "cpu_ok c" "mem_eq m1 m2"
    using step_pair [OF Suc.prems(1,2)] .
  obtain snap where
    it: "run_iter blake3 cfg st = run_dispatch blake3 cfg res snap (st\<lparr>rs_cpu := c, rs_mem := m2\<rparr>)"
    using run_iter_step [OF n assms(2)] s(2) assms(1) by (metis step_def)
  have h: "state_hash blake3 prev c m1 = state_hash blake3 prev c m2" for prev
    using state_hash_cong [OF arch_eq_refl ok(2)] .
  note loop = chunk_loop.simps [of blake3 "rs_prev st" ?cs "rs_cpu st" m nn ?i]
  consider "res = StepPanic" | t where "res = StepErr t" | "res = StepOk True"
    | "res = StepOk False" "?i + 1 = ?cs" | "res = StepOk False" "?i + 1 \<noteq> ?cs"
    by (metis step_res.exhaust)
  then show ?case
  proof cases
    case 1
    then show ?thesis using agrees_panic it unfolding loop by (simp add: s del: agrees_with_run.simps)
  next
    case 2
    then show ?thesis using agrees_trap it s(2) unfolding loop by (simp add: s h del: agrees_with_run.simps)
  next
    case 3
    then show ?thesis using agrees_halt it unfolding loop by (simp add: s h del: agrees_with_run.simps)
  next
    case 4
    then show ?thesis using agrees_boundary it unfolding loop by (simp add: s h del: agrees_with_run.simps)
  next
    case 5
    let ?s1 = "st\<lparr>rs_cpu := c, rs_mem := m2, rs_n := rs_n st + 1, rs_in_chunk := ?i + 1\<rparr>"
    have cont: "run_iter blake3 cfg st = Continue ?s1" unfolding it using 5 by (simp add: run_dispatch_def)
    have ui: "unat (?i + 1) = Suc (unat ?i)" using lt by (rule unat_inc)
    have lt1: "rs_in_chunk ?s1 < ?cs" using word_inc_less [OF Suc.prems(3) 5(2)] by simp
    have b: "in_budget blake3 cfg ?s1" using in_budget_next [OF Suc.prems(4,3) cont] by simp
    have "d = unat ?cs - unat (rs_in_chunk ?s1)" using Suc.hyps(2) ui by simp
    then obtain out where o: "chunk_loop blake3 (rs_prev st) ?cs c m1 (nn + 1) (?i + 1) = Some out"
      "agrees_with_run blake3 cfg ?s1 out"
      using Suc.hyps(1) [of ?s1 m1 "nn + 1"] ok lt1 b by auto
    have "agrees_with_run blake3 cfg st out" by (rule agrees_step [OF cont _ o(2)]) simp
    then show ?thesis using 5 o(1) unfolding loop by (simp add: s)
  qed
qed

text \<open>Without syscalls and without the tohost device, log and latch stay empty.\<close>

definition plain_state :: "run_state \<Rightarrow> bool" where
  "plain_state st \<longleftrightarrow>
     cpu_ok (rs_cpu st) \<and> mem_ok (rs_mem st) \<and> tohost (rs_cpu st) = None \<and> syscall_log (rs_mem st) = []"

lemma run_iter_plain:
  assumes "syscalls cfg = False" and "tohost_addr cfg = None" and "plain_state st"
    and "run_iter blake3 cfg st = Continue st'"
  shows "plain_state st'"
proof -
  obtain res c m where s: "step_mode (rs_cpu st) (rs_mem st) (syscalls cfg) None = (res, c, m)"
    by (metis prod_cases3)
  have "rs_n st < max_instructions cfg" using run_iter_Continue_n [OF assms(4)] by simp
  then obtain snap where
    d: "run_iter blake3 cfg st = run_dispatch blake3 cfg res snap (st\<lparr>rs_cpu := c, rs_mem := m\<rparr>)"
    using run_iter_step [OF _ assms(2) s] by blast
  have p: "cpu_ok (rs_cpu st)" "mem_ok (rs_mem st)" using assms(3) by (simp_all add: plain_state_def)
  have "cpu_ok c \<and> mem_ok m" using step_mode_ok [OF p s] by simp
  moreover have "tohost c = None \<and> syscall_log m = []"
    using step_keeps [OF p(2), of "rs_cpu st"] s assms(1,3)
    by (simp add: step_def out_keeps_def plain_state_def)
  ultimately have "plain_state (st\<lparr>rs_cpu := c, rs_mem := m\<rparr>)" by (simp add: plain_state_def)
  then show ?thesis using assms(4) unfolding d
    by (auto simp: run_dispatch_def plain_state_def route_trap_def cpu_ok_def Let_def
        split: step_res.splits if_splits)
qed

lemma run_iters_plain:
  assumes "syscalls cfg = False" and "tohost_addr cfg = None" and "plain_state st"
    and "run_iters blake3 cfg k st = Continue st'"
  shows "plain_state st'"
  using assms(3,4)
  by (induction k arbitrary: st)
    (auto split: run_iter_res.splits dest: run_iter_plain [OF assms(1,2)])

lemma judge_reproduces_plain:
  assumes "syscalls cfg = False" and "tohost_addr cfg = None" and "plain_state st"
    and "allocated_pages (rs_mem st) < 2 ^ 31" and "0 < chunk_size cfg" and "rs_in_chunk st = 0"
    and "unat (rs_n st) + unat (chunk_size cfg) \<le> unat (max_instructions cfg)"
  shows "\<exists>out. execute_chunk_from blake3 (capture (rs_cpu st) (rs_mem st)) (rs_prev st) (chunk_size cfg) =
                 Some (Inr out) \<and> agrees_with_run blake3 cfg st out"
proof -
  have p: "cpu_ok (rs_cpu st)" "mem_ok (rs_mem st)" "(rs_cpu st)\<lparr>tohost := None\<rparr> = rs_cpu st"
    "(rs_mem st)\<lparr>syscall_log := []\<rparr> = rs_mem st"
    using assms(3) by (simp_all add: plain_state_def)
  obtain m where r: "restore (capture (rs_cpu st) (rs_mem st)) = Inr (rs_cpu st, m)"
    "mem_eq m (rs_mem st)" using restore_capture [OF p(1,2) assms(4)] p(3,4) by auto
  obtain out where "chunk_loop blake3 (rs_prev st) (chunk_size cfg) (rs_cpu st) m 0 (rs_in_chunk st) = Some out"
    "agrees_with_run blake3 cfg st out"
    using chunk_sim [OF assms(1,2) p(1) r(2), of blake3 0] assms(5-7) by (auto simp: in_budget_def)
  then show ?thesis using r(1) assms(6) by (simp add: execute_chunk_from_def)
qed

section \<open>Two small programs\<close>

text \<open>An empty memory decodes as the reserved all-zero instruction.\<close>

lemma preads_two: "preads P a 2 = [pbyte P a, pbyte P (a + 1)]"
  by (simp only: numeral_2_eq_2 preads.simps)

lemma step_on_zeros:
  assumes "mem_ok m" and "pages m 0 = None" and "cpu_pc c = 0"
  shows "step_mode c m sys th = (StepErr (IllegalInstruction 0 0), c, snd (mem_read m 0 2))"
proof -
  have "preads (pages m) 0 2 = [0, 0]" unfolding preads_two using assms(2) by (simp add: pbyte_def)
  then have "fst (mem_read m 0 2) = Inr 0" using assms(1) by (simp add: rv_mem.rd_result)
  then show ?thesis
    using assms(3)
    by (simp add: step_mode_def ADDR_SPACE_def Let_def case_prod_unfold step_c_def step_c_q0_def
        c_f3_def c_imm_4spn_def bad_def)
qed

lemma pwrites_page:
  assumes "unat a + length bs \<le> 2 ^ 32" and "\<And>i. i < length bs \<Longrightarrow> (unat a + i) div 4096 \<noteq> unat p"
  shows "pwrites P a bs p = P p"
  using assms
proof (induction bs arbitrary: P a)
  case (Cons b bs)
  have "unat (ucast (a div 4096) :: u32) = unat a div 4096"
    using Cons.prems(1) by (intro unat_page_no) simp
  then have ne: "p \<noteq> ucast (a div 4096)" using Cons.prems(2) [of 0] by auto
  have "pwrites (pwrite P a b) (a + 1) bs p = pwrite P a b p"
  proof (cases "bs = []")
    case False
    then have u: "unat (a + 1) = unat a + 1" using Cons.prems(1) by (cases bs) (simp_all add: unat_word_ariths)
    show ?thesis
      using Cons.prems(1) Cons.prems(2) [of "Suc _"] u by (intro Cons.IH) auto
  qed simp
  then show ?case using ne by (simp add: pwrite_def)
qed simp

lemma install_empty:
  obtains m0 where "mem_write mem_new INPUT_LEN_ADDR (le_bytes 8 (0 :: u64)) = (Inr (), m0)"
    and "mem_ok m0" and "pages m0 0 = None" and "syscall_log m0 = []"
proof -
  let ?w = "mem_write mem_new INPUT_LEN_ADDR (le_bytes 8 (0 :: u64))"
  have "?w = (Inr (), snd ?w)"
    by (rule prod_eqI) (simp_all add: rv_mem.wr_result mem_ok_new INPUT_LEN_ADDR_def)
  moreover have "mem_ok (snd ?w)" "pages (snd ?w) 0 = None" "syscall_log (snd ?w) = []"
    using rv_mem.wr_state [OF mem_ok_new, of INPUT_LEN_ADDR "le_bytes 8 (0 :: u64)"]
      pwrites_page [of INPUT_LEN_ADDR "le_bytes 8 (0 :: u64)" 0 Map.empty]
    by (simp_all add: mem_new_empty INPUT_LEN_ADDR_def)
  ultimately show ?thesis by (rule that)
qed

definition demo_cfg :: config where
  "demo_cfg =
     \<lparr>chunk_size = 1, max_instructions = 2, syscalls = False, snapshot_dir = Some ''snaps'',
      tohost_addr = None\<rparr>"

text \<open>A job image of zeros traps on its first instruction; the run writes one snapshot.\<close>

lemma demo_run:
  obtains out st b where "run blake3 mem_new 0 [] demo_cfg = RunDone (out, st)"
    and "(0, b) \<in> set (rs_snaps st)"
proof -
  obtain m0 where w: "mem_write mem_new INPUT_LEN_ADDR (le_bytes 8 (0 :: u64)) = (Inr (), m0)"
    and ok: "mem_ok m0" "pages m0 0 = None" using install_empty .
  have d: "mem_write m0 INPUT_DATA_ADDR [] = (Inr (), m0)"
    by (simp add: mem_write_def checked_add_len_le write_loop.simps INPUT_DATA_ADDR_def)
  let ?c = "cpu_new 0 STACK_TOP"
  have s: "step_mode ?c m0 False None = (StepErr (IllegalInstruction 0 0), ?c, snd (mem_read m0 0 2))"
    by (rule step_on_zeros [OF ok]) (simp add: cpu_new_def)
  have mt: "mtvec ?c = 0" by (simp add: cpu_new_def)
  have "\<exists>st. run_iter blake3 demo_cfg (run_start ?c m0) = Break (Trapped (IllegalInstruction 0 0)) st \<and>
             rs_snaps st = [(0, capture ?c (snd (mem_read m0 0 2)))]"
    using s mt by (simp add: run_iter_def run_start_def demo_cfg_def run_dispatch_def write_snapshot_def)
  then obtain st where l: "run_loop blake3 demo_cfg (run_start ?c m0) =
      RunDone (Trapped (IllegalInstruction 0 0), st)"
    and "rs_snaps st = [(0, capture ?c (snd (mem_read m0 0 2)))]"
    using run_loop.simps [of blake3 demo_cfg "run_start ?c m0"] by auto
  moreover have "run blake3 mem_new 0 [] demo_cfg =
      RunDone (finish_run (Trapped (IllegalInstruction 0 0)) st, st)"
    using w d l by (simp add: run_def)
  ultimately show ?thesis using that by simp
qed

text \<open>The two bytes of \<open>c.j 0\<close> at address 0: a program that spins.\<close>

definition spin_mem :: mem where
  "spin_mem = insert_page mem_new 0 ([0x01, 0xa0] @ replicate 4094 0)"

definition spins :: "mem \<Rightarrow> bool" where
  "spins m \<longleftrightarrow> mem_ok m \<and> pages m 0 = Some ([0x01, 0xa0] @ replicate 4094 0)"

lemma spin_mem_ok: "spins spin_mem \<and> syscall_log spin_mem = []"
  using insert_page_correct [OF mem_ok_new, of "[0x01, 0xa0] @ replicate 4094 0" 0]
  by (simp add: spin_mem_def spins_def mem_new_empty)

lemma step_spin:
  assumes "spins m" and "cpu_pc c = 0"
  obtains m' where "step_mode c m sys th = (StepOk False, c, m')" and "spins m'"
    and "allocated_pages m' = allocated_pages m"
proof -
  have "preads (pages m) 0 2 = [0x01, 0xa0]"
    unfolding preads_two using assms(1) by (simp add: pbyte_def spins_def)
  then have r: "fst (mem_read m 0 2) = Inr 0xa001"
    using assms(1) by (simp add: rv_mem.rd_result spins_def)
  have st: "mem_ok (snd (mem_read m 0 2)) \<and> pages (snd (mem_read m 0 2)) = pages m"
    using rv_mem.rd_state assms(1) by (simp add: spins_def)
  have "step_mode c m sys th = (StepOk False, c, snd (mem_read m 0 2))"
    using r assms(2)
    by (simp add: step_mode_def ADDR_SPACE_def Let_def case_prod_unfold step_c_def step_c_q1_def
        c_f3_def cj_imm_def)
  moreover have "page_iter (snd (mem_read m 0 2)) = page_iter m"
    using page_iter_eq_iff [of "snd (mem_read m 0 2)" m] st assms(1) by (simp add: spins_def)
  ultimately show ?thesis
    using that st assms(1) by (simp add: spins_def allocated_pages_iter)
qed

lemma step_spin_mem:
  assumes "spins m" and "cpu_pc c = 0"
  shows "fst (step_mode c m sys th) = StepOk False"
  using step_spin [OF assms, of sys th] by (metis fst_conv)

lemma clean_spin:
  assumes "spins (rs_mem st)" and "cpu_pc (rs_cpu st) = 0" and "tohost_addr cfg = None"
    and "unat (rs_n st) + k \<le> unat (max_instructions cfg)"
  shows "\<exists>st'. clean_run blake3 cfg k st = Some st'"
  using assms
proof (induction k arbitrary: st)
  case (Suc k)
  obtain m' where s: "step_mode (rs_cpu st) (rs_mem st) (syscalls cfg) None = (StepOk False, rs_cpu st, m')"
    and m': "spins m'" using step_spin [OF Suc.prems(1,2)] by metis
  have n: "rs_n st < max_instructions cfg" using Suc.prems(4) by (simp add: word_less_nat_alt)
  obtain snap where "run_iter blake3 cfg st =
      run_dispatch blake3 cfg (StepOk False) snap (st\<lparr>rs_cpu := rs_cpu st, rs_mem := m'\<rparr>)"
    using run_iter_step [OF n assms(3) s] .
  then obtain s1 where it: "run_iter blake3 cfg st = Continue s1" and "rs_cpu s1 = rs_cpu st" "rs_mem s1 = m'"
    by (simp add: run_dispatch_def Let_def split: if_splits)
  then have "\<exists>st'. clean_run blake3 cfg k s1 = Some st'"
    using Suc.prems run_iter_Continue_unat [OF it] m' by (intro Suc.IH) simp_all
  then show ?case using it s assms(3) by simp
qed simp

section \<open>Properties\<close>

text \<open>
  C1: the dispute fast path computes what the run computed. Take any state a run reaches at the
  start of a chunk, with the budget not running out inside that chunk. Judging the chunk from the
  snapshot of that state returns, and its hash is the next hash of the run's chain with the same
  ending: at the chunk boundary, at the halt, or at a trap when the guest has no handler.
\<close>

theorem judged_chunk_reproduces_run:
  assumes "syscalls cfg = False" and "tohost_addr cfg = None" and "0 < chunk_size cfg"
    and "mem_ok m" and "syscall_log m = []"
    and "run_iters blake3 cfg k (run_start (cpu_new entry sp) m) = Continue st"
    and "rs_in_chunk st = 0" and "allocated_pages (rs_mem st) < 2 ^ 31"
    and "unat (rs_n st) + unat (chunk_size cfg) \<le> unat (max_instructions cfg)"
  shows "\<exists>out. execute_chunk_from blake3 (capture (rs_cpu st) (rs_mem st)) (rs_prev st) (chunk_size cfg) =
                 Some (Inr out) \<and> agrees_with_run blake3 cfg st out"
proof -
  have "plain_state (run_start (cpu_new entry sp) m)"
    using assms(4,5) cpu_ok_new by (simp add: plain_state_def run_start_def) (simp add: cpu_new_def)
  then have "plain_state st" using run_iters_plain [OF assms(1,2) _ assms(6)] by simp
  then show ?thesis using judge_reproduces_plain assms by blast
qed

theorem judged_chunk_reproduces_run_witness:
  "\<exists>out. execute_chunk_from (take 32) (capture (cpu_new 0 0) spin_mem) GENESIS 2 = Some (Inr out) \<and>
         agrees_with_run (take 32) (demo_cfg\<lparr>chunk_size := 2\<rparr>) (run_start (cpu_new 0 0) spin_mem) out"
proof -
  let ?cfg = "demo_cfg\<lparr>chunk_size := 2\<rparr>" and ?st = "run_start (cpu_new 0 0) spin_mem"
  have i: "run_iters (take 32) ?cfg 0 ?st = Continue ?st" by simp
  have "allocated_pages spin_mem < 2 ^ 31"
    by (simp add: spin_mem_def insert_page_def mem_new_def allocated_pages_def Let_def)
  then show ?thesis
    using judged_chunk_reproduces_run [OF _ _ _ _ _ i] spin_mem_ok
    by (simp add: demo_cfg_def run_start_def spins_def)
qed

text \<open>
  C9: a run is determined by the entry point, the input, the configuration and what memory
  holds: on memories with the same pages and log, however allocated, it gives the same exit
  status, hash chain, instruction count, output and log, and writes the same snapshots.
\<close>

theorem run_determined:
  assumes "mem_ok m1" and "mem_ok m2" and "page_iter m1 = page_iter m2"
    and "syscall_log m1 = syscall_log m2"
  shows "(run blake3 m1 entry input cfg = RunPanic \<and> run blake3 m2 entry input cfg = RunPanic) \<or>
         (\<exists>out s1 s2. run blake3 m1 entry input cfg = RunDone (out, s1) \<and>
                     run blake3 m2 entry input cfg = RunDone (out, s2) \<and>
                     rs_snaps s1 = rs_snaps s2 \<and> page_iter (rs_mem s1) = page_iter (rs_mem s2))"
proof -
  let ?l = "le_bytes 8 (of_nat (length input) :: u64)"
  let ?c = "cpu_new entry STACK_TOP"
  obtain a1 n1 where a1: "mem_write m1 INPUT_LEN_ADDR ?l = (a1, n1)" by fastforce
  obtain a2 n2 where a2: "mem_write m2 INPUT_LEN_ADDR ?l = (a2, n2)" by fastforce
  obtain b1 k1 where b1: "mem_write n1 INPUT_DATA_ADDR input = (b1, k1)" by fastforce
  obtain b2 k2 where b2: "mem_write n2 INPUT_DATA_ADDR input = (b2, k2)" by fastforce
  have "rv_mem.same m1 m2" using assms(1-4) by (simp flip: mem_eq_same add: mem_eq_def)
  then have "rv_mem.same n1 n2" using rv_mem.wr_same [of m1 m2 INPUT_LEN_ADDR ?l] a1 a2 by simp
  then have k: "mem_eq k1 k2" and b: "b1 = b2"
    using rv_mem.wr_same [of n1 n2 INPUT_DATA_ADDR input] b1 b2 by (simp_all add: mem_eq_same)
  have a: "a1 = a2"
    using rv_mem.wr_same [of m1 m2 INPUT_LEN_ADDR ?l] a1 a2 assms by (simp flip: mem_eq_same add: mem_eq_def)
  have "rs_eq (run_start ?c k1) (run_start ?c k2)"
    using k by (simp add: rs_eq_def run_start_def cpu_ok_new)
  from run_loop_eq [OF this, of blake3 cfg]
  show ?thesis
    using a1 a2 b1 b2 a b finish_run_eq
    by (cases "run_loop blake3 cfg (run_start ?c k1)"; cases "run_loop blake3 cfg (run_start ?c k2)")
      (auto simp: run_def Let_def rs_eq_def mem_eq_def split: sum.splits)
qed

theorem run_determined_witness:
  "\<exists>out s1 s2. run (take 32) mem_new 0 [] demo_cfg = RunDone (out, s1) \<and>
               run (take 32) (snd (mem_read mem_new 0 2)) 0 [] demo_cfg = RunDone (out, s2) \<and>
               rs_snaps s1 = rs_snaps s2"
proof -
  let ?m = "snd (mem_read mem_new 0 2)"
  have s: "mem_ok ?m" "pages ?m = pages mem_new" "syscall_log mem_new = syscall_log ?m"
    using rv_mem.rd_state [OF mem_ok_new] by simp_all
  have "page_iter mem_new = page_iter ?m" using page_iter_eq_iff [OF mem_ok_new s(1)] s(2) by simp
  then show ?thesis
    using run_determined [OF mem_ok_new s(1) _ s(3), of "take 32" 0 "[]" demo_cfg]
      demo_run [of "take 32"] by auto
qed



text \<open>
  As long as no trap is routed to a handler, the chain has one hash per \<open>chunk_size\<close>
  instructions: after \<open>k\<close> iterations there are \<open>k div chunk_size\<close> hashes, and the position in
  the current chunk is \<open>k mod chunk_size\<close>.
\<close>

theorem chain_has_one_hash_per_chunk:
  assumes "0 < chunk_size cfg" and "clean_run blake3 cfg k (run_start c m) = Some st"
  shows "length (rs_chain st) = k div unat (chunk_size cfg) \<and>
         unat (rs_in_chunk st) = k mod unat (chunk_size cfg)"
proof -
  have "unat (rs_in_chunk st) < unat (chunk_size cfg) \<and>
        unat (chunk_size cfg) * length (rs_chain st) + unat (rs_in_chunk st) = k"
    using clean_run_count [OF assms(2)] assms(1) by (simp add: run_start_def)
  then show ?thesis by auto
qed

theorem chain_has_one_hash_per_chunk_witness:
  "\<exists>st. clean_run (take 32) (demo_cfg\<lparr>chunk_size := 2, max_instructions := 9\<rparr>) 5
          (run_start (cpu_new 0 0) spin_mem) = Some st \<and> length (rs_chain st) = 2"
proof -
  let ?cfg = "demo_cfg\<lparr>chunk_size := 2, max_instructions := 9\<rparr>"
  obtain st where c: "clean_run (take 32) ?cfg 5 (run_start (cpu_new 0 0) spin_mem) = Some st"
    using clean_spin [of "run_start (cpu_new 0 0) spin_mem" ?cfg 5 "take 32"] spin_mem_ok
    by (auto simp: run_start_def cpu_new_def demo_cfg_def)
  have "0 < chunk_size ?cfg" by simp
  from chain_has_one_hash_per_chunk [OF this c] c show ?thesis by simp
qed

text \<open>
  C39: when the last instruction of a chunk traps into an installed handler, the loop counts it
  without testing for the boundary: no hash is emitted for that chunk, and none for any later
  chunk, however long the run goes on.
\<close>

theorem routed_trap_ends_chunk_hashes:
  assumes "rs_n st < max_instructions cfg" and "rs_in_chunk st + 1 = chunk_size cfg"
    and "rs_in_chunk st \<le> rs_n st" and "tohost_addr cfg = None"
    and "step_mode (rs_cpu st) (rs_mem st) (syscalls cfg) None = (StepErr t, c, m)"
    and "mtvec c \<noteq> 0"
    and "run_iters blake3 cfg (Suc k) st = Continue st'"
  shows "rs_chain st' = rs_chain st"
proof -
  from assms(7) obtain s1 where s1: "run_iter blake3 cfg st = Continue s1"
    "run_iters blake3 cfg k s1 = Continue st'" by (auto split: run_iter_res.splits)
  obtain snap where
    d: "run_iter blake3 cfg st = run_dispatch blake3 cfg (StepErr t) snap (st\<lparr>rs_cpu := c, rs_mem := m\<rparr>)"
    using run_iter_step [OF assms(1,4,5)] .
  have r: "rs_chain s1 = rs_chain st \<and> rs_in_chunk s1 = chunk_size cfg \<and> rs_n s1 = rs_n st + 1"
    using s1(1) assms(2,6) unfolding d by (auto simp: run_dispatch_def)
  have "rs_in_chunk s1 \<le> rs_n s1"
    using r assms(3) run_iter_Continue_unat [OF s1(1)]
      unat_inc [of "rs_in_chunk st" "max_instructions cfg"]
    unfolding assms(2) [symmetric] by (simp add: word_le_nat_alt)
  then show ?thesis using run_iters_past_boundary [OF s1(2)] r by simp
qed

theorem routed_trap_ends_chunk_hashes_witness:
  "\<exists>st'. run_iters (take 32) demo_cfg (Suc 0) (run_start ((cpu_new 0 0)\<lparr>mtvec := 4\<rparr>) mem_new) = Continue st' \<and>
         rs_chain st' = []"
proof -
  let ?c = "(cpu_new 0 0)\<lparr>mtvec := 4\<rparr>" and ?m = "snd (mem_read mem_new 0 2)"
  let ?st = "run_start ?c mem_new"
  have s: "step_mode ?c mem_new False None = (StepErr (IllegalInstruction 0 0), ?c, ?m)"
    by (rule step_on_zeros [OF mem_ok_new]) (simp_all add: mem_new_empty cpu_new_def)
  obtain st' where it: "run_iters (take 32) demo_cfg (Suc 0) ?st = Continue st'"
    using s unfolding run_iters_1
    by (auto simp: run_iter_def run_start_def demo_cfg_def run_dispatch_def)
  have "rs_chain st' = rs_chain ?st"
    using s it
    by (intro routed_trap_ends_chunk_hashes [of ?st demo_cfg "IllegalInstruction 0 0" ?c ?m "take 32" 0])
      (simp_all add: run_start_def demo_cfg_def del: run_iters.simps)
  then show ?thesis using it by (auto simp: run_start_def simp del: run_iters.simps)
qed

text \<open>
  C23: A run that does not panic ends within the instruction budget, and reports
  \<open>InstructionLimit\<close> only when it has spent exactly that budget.
\<close>

theorem run_within_budget:
  assumes "mem_ok m" and "run blake3 m entry input cfg = RunDone (out, st)"
  shows "instructions out \<le> max_instructions cfg \<and>
         (status out = InstructionLimit \<longrightarrow> instructions out = max_instructions cfg)"
proof -
  obtain m0 e where l: "run_loop blake3 cfg (run_start (cpu_new entry STACK_TOP) m0) = RunDone (e, st)"
    and o: "out = finish_run e st" using run_cases [OF assms(2,1)] .
  show ?thesis using run_loop_n [OF l] by (simp add: o finish_run_simps run_start_def)
qed

theorem run_within_budget_witness:
  "\<exists>out st. mem_ok mem_new \<and> run (take 32) mem_new 0 [] demo_cfg = RunDone (out, st) \<and>
            instructions out \<le> 2"
proof -
  obtain out st bs where r: "run (take 32) mem_new 0 [] demo_cfg = RunDone (out, st)"
    using demo_run .
  show ?thesis using run_within_budget [OF mem_ok_new r] r mem_ok_new by (auto simp: demo_cfg_def)
qed

end
