(* ===== verification/Elf.thy ===== *)
theory Elf
  imports Memory
begin

text \<open>
  The ELF64 loader (\<open>crates/rvcore/src/elf.rs\<close>). Every offset comes from the file, so the model
  keeps \<open>usize\<close> arithmetic on 64-bit words with the source's checked operations, and an indexing
  or slicing expression that would panic is \<open>None\<close> of the outer option of \<open>parse\<close>.
  Main results: parsing never panics, accepted segments lie inside the file and the address
  space, and loading an accepted image cannot fail and places every segment.
\<close>

section \<open>Operations\<close>

definition PT_LOAD :: u32 where
  "PT_LOAD = 1"

definition EM_RISCV :: u16 where
  "EM_RISCV = 243"

definition ET_EXEC :: u16 where
  "ET_EXEC = 2"

record elf_image =
  elf_entry :: u64
  segments :: "(u64 \<times> bytes) list"
  elf_tohost :: "u64 option"

datatype elf_error =
    ElfTooShort
  | ElfBadMagic
  | ElfNot64
  | ElfNotLittleEndian
  | ElfMachine u16
  | ElfNotStatic
  | ElfPhentsize nat
  | ElfPhOverflow
  | ElfPhTruncated
  | ElfFileszGtMemsz
  | ElfSegOverflow
  | ElfSegExceeds
  | ElfSegBeyondFile
  | ElfNoLoad

definition u16le :: "bytes \<Rightarrow> nat \<Rightarrow> u16 option" where
  "u16le bs off = map_option from_le (slice bs off 2)"

definition u32le :: "bytes \<Rightarrow> nat \<Rightarrow> u32 option" where
  "u32le bs off = map_option from_le (slice bs off 4)"

definition u64le :: "bytes \<Rightarrow> nat \<Rightarrow> u64 option" where
  "u64le bs off = map_option from_le (slice bs off 8)"

fun position0 :: "bytes \<Rightarrow> nat option" where
  "position0 [] = None"
| "position0 (b # bs) = (if b = 0 then Some 0 else map_option Suc (position0 bs))"

text \<open>\<open>data.get(a..b)\<close>.\<close>

definition get_range :: "bytes \<Rightarrow> nat \<Rightarrow> nat \<Rightarrow> bytes option" where
  "get_range bs a b = (if a \<le> b then slice bs a (b - a) else None)"

definition tohost_name :: bytes where
  "tohost_name = [0x2e, 0x74, 0x6f, 0x68, 0x6f, 0x73, 0x74]"

text \<open>The section loop of \<open>find_tohost_section\<close>; the last argument counts the sections left.\<close>

fun tohost_sections :: "bytes \<Rightarrow> u64 \<Rightarrow> u64 \<Rightarrow> u64 \<Rightarrow> nat \<Rightarrow> nat \<Rightarrow> u64 option" where
  "tohost_sections bs shoff shentsize shstr_offset i 0 = None"
| "tohost_sections bs shoff shentsize shstr_offset i (Suc k) =
     Option.bind (checked_mul (of_nat i) shentsize) (\<lambda>o1.
     Option.bind (checked_add shoff o1) (\<lambda>base.
     Option.bind (checked_add base 64) (\<lambda>base_end.
       if unat base_end > length bs then None
       else
         Option.bind (u32le bs (unat base)) (\<lambda>sec_name.
         Option.bind (u32le bs (unat base + 4)) (\<lambda>sec_type.
         Option.bind (u64le bs (unat base + 16)) (\<lambda>sec_addr.
           if sec_type \<noteq> 1 then tohost_sections bs shoff shentsize shstr_offset (Suc i) k
           else
             Option.bind (checked_add shstr_offset (ucast sec_name)) (\<lambda>name_start.
             Option.bind (get_range bs (unat name_start) (length bs)) (\<lambda>tail.
               let name_end = (case position0 tail of
                                 Some p \<Rightarrow> unat name_start + p | None \<Rightarrow> unat name_start)
               in Option.bind (get_range bs (unat name_start) name_end) (\<lambda>name.
                    if name = tohost_name then Some sec_addr
                    else tohost_sections bs shoff shentsize shstr_offset (Suc i) k)))))))))"

definition find_tohost_section :: "bytes \<Rightarrow> u64 \<Rightarrow> u16 \<Rightarrow> u16 \<Rightarrow> u16 \<Rightarrow> u64 option" where
  "find_tohost_section bs shoff shentsize shnum shstrndx =
     (if shoff = 0 \<or> shnum = 0 \<or> shentsize = 0 then None
      else
        Option.bind (checked_mul (ucast shstrndx) (ucast shentsize)) (\<lambda>o1.
        Option.bind (checked_add shoff o1) (\<lambda>shstr_hdr.
        Option.bind (checked_add shstr_hdr 24) (\<lambda>a.
        Option.bind (checked_add shstr_hdr 32) (\<lambda>b.
        Option.bind (get_range bs (unat a) (unat b)) (\<lambda>field.
          tohost_sections bs shoff (ucast shentsize) (from_le field) 0 (unat shnum)))))))"

text \<open>
  One program header, at offset \<open>base\<close>: \<open>None\<close> a panic, \<open>Inl\<close> an error, \<open>Inr None\<close> a header that
  is skipped, \<open>Inr (Some (vaddr, data))\<close> a segment.
\<close>

definition parse_header :: "bytes \<Rightarrow> u64 \<Rightarrow> (elf_error + (u64 \<times> bytes) option) option" where
  "parse_header bs base =
     Option.bind (u32le bs (unat base)) (\<lambda>p_type.
       if p_type \<noteq> PT_LOAD then Some (Inr None)
       else
         Option.bind (u64le bs (unat base + 8)) (\<lambda>offset.
         Option.bind (u64le bs (unat base + 16)) (\<lambda>vaddr.
         Option.bind (u64le bs (unat base + 32)) (\<lambda>filesz.
         Option.bind (u64le bs (unat base + 40)) (\<lambda>memsz.
           if filesz > memsz then Some (Inl ElfFileszGtMemsz)
           else (case checked_add vaddr memsz of
                   None \<Rightarrow> Some (Inl ElfSegOverflow)
                 | Some mem_end \<Rightarrow>
                     if mem_end > ADDR_SPACE then Some (Inl ElfSegExceeds)
                     else (case checked_add offset filesz of
                             None \<Rightarrow> Some (Inl ElfSegBeyondFile)
                           | Some file_end \<Rightarrow>
                               if unat file_end > length bs then Some (Inl ElfSegBeyondFile)
                               else Option.bind (slice bs (unat offset) (unat filesz)) (\<lambda>data.
                                      Some (Inr (Some (vaddr, data)))))))))))"

fun parse_headers ::
    "bytes \<Rightarrow> u64 \<Rightarrow> nat \<Rightarrow> nat \<Rightarrow> (u64 \<times> bytes) list \<Rightarrow> (elf_error + (u64 \<times> bytes) list) option" where
  "parse_headers bs phoff i 0 segs = Some (Inr segs)"
| "parse_headers bs phoff i (Suc k) segs =
     (case Option.bind (checked_mul (of_nat i) 56) (checked_add phoff) of
        None \<Rightarrow> Some (Inl ElfPhOverflow)
      | Some base \<Rightarrow>
          (case checked_add base 56 of
             None \<Rightarrow> Some (Inl ElfPhOverflow)
           | Some base_end \<Rightarrow>
               if unat base_end > length bs then Some (Inl ElfPhTruncated)
               else (case parse_header bs base of
                       None \<Rightarrow> None
                     | Some (Inl e) \<Rightarrow> Some (Inl e)
                     | Some (Inr None) \<Rightarrow> parse_headers bs phoff (Suc i) k segs
                     | Some (Inr (Some seg)) \<Rightarrow> parse_headers bs phoff (Suc i) k (segs @ [seg]))))"

definition ELF_MAGIC :: bytes where
  "ELF_MAGIC = [0x7f, 0x45, 0x4c, 0x46]"

definition parse :: "bytes \<Rightarrow> (elf_error + elf_image) option" where
  "parse bs =
     (if length bs < 64 then Some (Inl ElfTooShort)
      else if take 4 bs \<noteq> ELF_MAGIC then Some (Inl ElfBadMagic)
      else if bs ! 4 \<noteq> 2 then Some (Inl ElfNot64)
      else if bs ! 5 \<noteq> 1 then Some (Inl ElfNotLittleEndian)
      else
        Option.bind (u16le bs 0x12) (\<lambda>machine.
        Option.bind (u16le bs 0x10) (\<lambda>e_type.
          if machine \<noteq> EM_RISCV then Some (Inl (ElfMachine machine))
          else if e_type \<noteq> ET_EXEC then Some (Inl ElfNotStatic)
          else
            Option.bind (u64le bs 0x18) (\<lambda>entry.
            Option.bind (u64le bs 0x28) (\<lambda>e_shoff.
            Option.bind (u16le bs 0x3a) (\<lambda>e_shentsize.
            Option.bind (u16le bs 0x3c) (\<lambda>e_shnum.
            Option.bind (u16le bs 0x3e) (\<lambda>e_shstrndx.
            Option.bind (u64le bs 0x20) (\<lambda>phoff.
            Option.bind (u16le bs 0x36) (\<lambda>phentsize.
            Option.bind (u16le bs 0x38) (\<lambda>phnum.
              if phentsize \<noteq> 56 then Some (Inl (ElfPhentsize (unat phentsize)))
              else (case parse_headers bs phoff 0 (unat phnum) [] of
                      None \<Rightarrow> None
                    | Some (Inl e) \<Rightarrow> Some (Inl e)
                    | Some (Inr segs) \<Rightarrow>
                        if segs = [] then Some (Inl ElfNoLoad)
                        else Some (Inr \<lparr>elf_entry = entry, segments = segs,
                               elf_tohost = find_tohost_section bs e_shoff e_shentsize e_shnum e_shstrndx\<rparr>)))))))))))))"

fun load_segments :: "mem \<Rightarrow> (u64 \<times> bytes) list \<Rightarrow> (mem_error + unit) \<times> mem" where
  "load_segments m [] = (Inr (), m)"
| "load_segments m ((vaddr, data) # segs) =
     (case load_image m vaddr data of
        (Inl e, m) \<Rightarrow> (Inl e, m)
      | (Inr _, m) \<Rightarrow> load_segments m segs)"

definition load :: "mem \<Rightarrow> elf_image \<Rightarrow> (mem_error + unit) \<times> mem" where
  "load m elf = load_segments m (segments elf)"

section \<open>Parsing is total and safe\<close>

lemma le_reads_None [simp]:
  "u16le bs off = None \<longleftrightarrow> length bs < off + 2"
  "u32le bs off = None \<longleftrightarrow> length bs < off + 4"
  "u64le bs off = None \<longleftrightarrow> length bs < off + 8"
  by (simp_all add: u16le_def u32le_def u64le_def slice_None_iff)

text \<open>A segment that may be loaded: file bytes, inside the address space.\<close>

definition seg_ok :: "bytes \<Rightarrow> u64 \<times> bytes \<Rightarrow> bool" where
  "seg_ok bs seg \<longleftrightarrow>
     unat (fst seg) + length (snd seg) \<le> 2 ^ 32 \<and>
     (\<exists>off. slice bs off (length (snd seg)) = Some (snd seg))"

lemma parse_header_total:
  assumes "unat base + 56 \<le> length bs"
  shows "parse_header bs base \<noteq> None"
proof
  assume "parse_header bs base = None"
  then show False
    using assms
    by (auto simp: parse_header_def bind_eq_None_conv slice_None_iff
        dest!: unat_checked_add split: if_splits option.splits)
qed

lemma seg_okI:
  assumes "checked_add vaddr memsz = Some mem_end" and "\<not> ADDR_SPACE < mem_end"
    and "\<not> memsz < filesz" and "slice bs off (unat filesz) = Some data"
  shows "seg_ok bs (vaddr, data)"
proof -
  have "unat vaddr + unat memsz \<le> 2 ^ 32"
    using unat_checked_add [OF assms(1)] assms(2) by (simp add: ADDR_SPACE_less_iff not_less)
  moreover have "unat filesz \<le> unat memsz" using assms(3) by (simp add: word_less_nat_alt not_less)
  moreover have "length data = unat filesz" using slice_SomeD [OF assms(4)] by simp
  ultimately show ?thesis using assms(4) by (auto simp: seg_ok_def)
qed

lemma parse_header_seg:
  assumes "parse_header bs base = Some (Inr (Some seg))"
  shows "seg_ok bs seg"
  using assms
  by (auto simp: parse_header_def bind_eq_Some_conv split: if_splits option.splits intro: seg_okI)

lemma parse_headers_total: "parse_headers bs phoff i k segs = None \<Longrightarrow> False"
proof (induction k arbitrary: i segs)
  case (Suc k)
  have "False" if "parse_header bs base = None" "checked_add base 56 = Some e" "\<not> unat e > length bs"
    for base e
    using that unat_checked_add [OF that(2)] parse_header_total [of base bs] by simp
  then show ?case using Suc by (auto split: option.splits sum.splits if_splits)
qed simp

lemma parse_headers_ok:
  assumes "parse_headers bs phoff i k segs = Some (Inr segs')" and "\<forall>seg \<in> set segs. seg_ok bs seg"
  shows "\<forall>seg \<in> set segs'. seg_ok bs seg"
  using assms
proof (induction k arbitrary: i segs)
  case (Suc k)
  obtain base where h: "parse_headers bs phoff (Suc i) k segs = Some (Inr segs') \<or>
      (\<exists>seg. parse_header bs base = Some (Inr (Some seg)) \<and>
             parse_headers bs phoff (Suc i) k (segs @ [seg]) = Some (Inr segs'))"
    using Suc.prems(1) by (auto split: option.splits sum.splits if_splits)
  then show ?case
  proof
    assume "parse_headers bs phoff (Suc i) k segs = Some (Inr segs')"
    then show ?thesis using Suc.IH Suc.prems(2) by blast
  next
    assume "\<exists>seg. parse_header bs base = Some (Inr (Some seg)) \<and>
             parse_headers bs phoff (Suc i) k (segs @ [seg]) = Some (Inr segs')"
    then obtain seg where s: "parse_header bs base = Some (Inr (Some seg))"
      "parse_headers bs phoff (Suc i) k (segs @ [seg]) = Some (Inr segs')" by blast
    show ?thesis using Suc.IH [OF s(2)] parse_header_seg [OF s(1)] Suc.prems(2) by auto
  qed
qed simp

lemma parse_never_panics: "parse bs \<noteq> None"
proof
  assume "parse bs = None"
  then show False
    by (auto simp: parse_def bind_eq_None_conv split: if_splits option.splits sum.splits
        dest: parse_headers_total)
qed

lemma parse_segments:
  assumes "parse bs = Some (Inr img)"
  shows "segments img \<noteq> [] \<and> (\<forall>seg \<in> set (segments img). seg_ok bs seg)"
proof -
  obtain phoff phnum where h: "parse_headers bs phoff 0 phnum [] = Some (Inr (segments img))"
    and n: "segments img \<noteq> []"
    using assms
    by (auto simp: parse_def bind_eq_Some_conv split: if_splits option.splits sum.splits)
  show ?thesis using parse_headers_ok [OF h] n by simp
qed

section \<open>Loading\<close>

lemma load_segments_Cons:
  assumes "mem_ok m" and "unat v + length d \<le> 2 ^ 32"
  shows "load_segments m ((v, d) # segs) = load_segments (snd (mem_write m v d)) segs"
  using rv_mem.wr_result [OF assms(1), of v d] assms(2)
  by (cases "mem_write m v d") (simp add: load_image_def)

lemma load_segments_ok:
  assumes "mem_ok m" and "\<forall>seg \<in> set segs. unat (fst seg) + length (snd seg) \<le> 2 ^ 32"
  shows "fst (load_segments m segs) = Inr () \<and> mem_ok (snd (load_segments m segs)) \<and>
         syscall_log (snd (load_segments m segs)) = syscall_log m"
  using assms
proof (induction segs arbitrary: m)
  case (Cons seg segs)
  obtain v d where seg: "seg = (v, d)" by (cases seg)
  show ?case
    using Cons.IH [of "snd (mem_write m v d)"] rv_mem.wr_state [OF Cons.prems(1), of v d] Cons.prems
    by (simp add: seg load_segments_Cons del: load_segments.simps(2))
qed simp

definition disjoint_segs :: "u64 \<times> bytes \<Rightarrow> u64 \<times> bytes \<Rightarrow> bool" where
  "disjoint_segs s t \<longleftrightarrow>
     unat (fst s) + length (snd s) \<le> unat (fst t) \<or> unat (fst t) + length (snd t) \<le> unat (fst s)"

lemma load_segments_frame:
  assumes "mem_ok m" and "\<forall>seg \<in> set segs. unat (fst seg) + length (snd seg) \<le> 2 ^ 32"
    and "\<forall>seg \<in> set segs. disjoint_segs (v, d) seg"
  shows "read_region (snd (load_segments m segs)) v (length d) = read_region m v (length d)"
  using assms
proof (induction segs arbitrary: m)
  case (Cons seg segs)
  obtain w e where seg: "seg = (w, e)" by (cases seg)
  have "read_region (snd (mem_write m w e)) v (length d) = read_region m v (length d)"
    using rv_mem.write_frame [OF Cons.prems(1), of v "length d" w e] Cons.prems(3)
    by (auto simp: seg disjoint_segs_def)
  moreover have "load_segments m (seg # segs) = load_segments (snd (mem_write m w e)) segs"
    unfolding seg using Cons.prems by (intro load_segments_Cons) (simp_all add: seg)
  ultimately show ?case
    using Cons.IH [of "snd (mem_write m w e)"] Cons.prems rv_mem.wr_state [OF Cons.prems(1), of w e] by simp
qed simp

lemma load_segments_places:
  assumes "mem_ok m" and "\<forall>seg \<in> set segs. unat (fst seg) + length (snd seg) \<le> 2 ^ 32"
    and "sorted_wrt disjoint_segs segs" and "(v, d) \<in> set segs"
  shows "read_region (snd (load_segments m segs)) v (length d) = Inr d"
  using assms
proof (induction segs arbitrary: m)
  case (Cons seg segs)
  obtain w e where seg: "seg = (w, e)" by (cases seg)
  let ?m = "snd (mem_write m w e)"
  have f: "fst (mem_write m w e) = Inr ()"
    using rv_mem.wr_result [OF Cons.prems(1), of w e] Cons.prems(2) by (simp add: seg)
  have ok: "mem_ok ?m" using rv_mem.wr_state [OF Cons.prems(1)] by blast
  have l: "load_segments m (seg # segs) = load_segments ?m segs"
    unfolding seg using Cons.prems by (intro load_segments_Cons) (simp_all add: seg)
  show ?case
  proof (cases "(v, d) = seg")
    case True
    have "read_region ?m v (length d) = Inr d"
      using rv_mem.read_after_write [OF Cons.prems(1) f] True by (simp add: seg)
    then show ?thesis
      using load_segments_frame [OF ok, of segs v d] Cons.prems True unfolding l by simp
  next
    case False
    then show ?thesis using Cons.IH [OF ok] Cons.prems unfolding l by simp
  qed
qed simp

section \<open>Properties\<close>

text \<open>
  Parsing arbitrary bytes never panics: no offset arithmetic overflows and no slice of the
  file is out of range, whatever the header fields say.
\<close>

theorem elf_parse_never_panics: "parse bs \<noteq> None"
  by (rule parse_never_panics)

text \<open>
  C36: an image that parses can always be loaded. Every segment is a slice of the file that fits
  below \<open>2^32\<close>; loading it into any well-formed memory succeeds, and where the segments do not
  overlap, memory afterwards holds every segment's file bytes at its address.
\<close>

theorem elf_load_places_segments:
  assumes "parse bs = Some (Inr img)" and "mem_ok m" and "load m img = (r, m')"
  shows "r = Inr () \<and> mem_ok m' \<and> segments img \<noteq> [] \<and>
         (\<forall>(v, d) \<in> set (segments img). \<exists>off. slice bs off (length d) = Some d) \<and>
         (sorted_wrt disjoint_segs (segments img) \<longrightarrow>
           (\<forall>(v, d) \<in> set (segments img). read_region m' v (length d) = Inr d))"
proof -
  note p = parse_segments [OF assms(1)]
  have r: "r = fst (load_segments m (segments img))" "m' = snd (load_segments m (segments img))"
    using assms(3) by (simp_all add: load_def)
  have b: "\<forall>seg \<in> set (segments img). unat (fst seg) + length (snd seg) \<le> 2 ^ 32"
    using p by (simp add: seg_ok_def)
  show ?thesis
    unfolding r using p load_segments_ok [OF assms(2) b] load_segments_places [OF assms(2) b]
    by (fastforce simp: seg_ok_def)
qed

text \<open>A minimal executable: one segment of four bytes at \<open>0x1000\<close>.\<close>

definition demo_elf :: bytes where
  "demo_elf =
     [127, 69, 76, 70, 2, 1, 0, 0, 0, 0, 0, 0, 0, 0, 0, 0, 2, 0, 243, 0, 0, 0, 0, 0, 0, 16, 0, 0,
      0, 0, 0, 0, 64, 0, 0, 0, 0, 0, 0, 0, 0, 0, 0, 0, 0, 0, 0, 0, 0, 0, 0, 0, 0, 0, 56, 0, 1, 0,
      0, 0, 0, 0, 0, 0, 1, 0, 0, 0, 0, 0, 0, 0, 120, 0, 0, 0, 0, 0, 0, 0, 0, 16, 0, 0, 0, 0, 0,
      0, 0, 0, 0, 0, 0, 0, 0, 0, 4, 0, 0, 0, 0, 0, 0, 0, 8, 0, 0, 0, 0, 0, 0, 0, 0, 0, 0, 0, 0,
      0, 0, 0, 1, 2, 3, 4]"

definition demo_image :: elf_image where
  "demo_image = \<lparr>elf_entry = 0x1000, segments = [(0x1000, [1, 2, 3, 4])], elf_tohost = None\<rparr>"

lemma demo_elf_length: "length demo_elf = 124"
  by (simp add: demo_elf_def)

lemma demo_elf_fields:
  "u16le demo_elf 0x12 = Some 243" "u16le demo_elf 0x10 = Some 2" "u64le demo_elf 0x18 = Some 0x1000"
  "u64le demo_elf 0x28 = Some 0" "u16le demo_elf 0x3a = Some 0" "u16le demo_elf 0x3c = Some 0"
  "u16le demo_elf 0x3e = Some 0" "u64le demo_elf 0x20 = Some 64" "u16le demo_elf 0x36 = Some 56"
  "u16le demo_elf 0x38 = Some 1"
  by (simp_all add: u16le_def u64le_def slice_def demo_elf_def)

lemma demo_elf_header:
  "u32le demo_elf 64 = Some 1" "u64le demo_elf 72 = Some 120" "u64le demo_elf 80 = Some 0x1000"
  "u64le demo_elf 96 = Some 4" "u64le demo_elf 104 = Some 8" "slice demo_elf 120 4 = Some [1, 2, 3, 4]"
  by (simp_all add: u32le_def u64le_def slice_def demo_elf_def)

lemma demo_elf_magic: "take 4 demo_elf = ELF_MAGIC" "demo_elf ! 4 = 2" "demo_elf ! 5 = 1"
  by (simp_all add: demo_elf_def ELF_MAGIC_def)

lemma demo_elf_segment: "parse_header demo_elf 64 = Some (Inr (Some (0x1000, [1, 2, 3, 4])))"
  by (simp add: parse_header_def demo_elf_header PT_LOAD_def checked_add_def ADDR_SPACE_def
      demo_elf_length)

lemma demo_elf_segments:
  "parse_headers demo_elf 64 0 (Suc 0) [] = Some (Inr [(0x1000, [1, 2, 3, 4])])"
  by (simp add: demo_elf_segment checked_add_def checked_mul_def demo_elf_length)

lemma demo_elf_parses: "parse demo_elf = Some (Inr demo_image)"
  using demo_elf_segments
  by (simp add: parse_def demo_elf_length demo_elf_magic demo_elf_fields EM_RISCV_def ET_EXEC_def
      find_tohost_section_def demo_image_def)

theorem elf_load_places_segments_witness:
  "\<exists>m'. parse demo_elf = Some (Inr demo_image) \<and> load mem_new demo_image = (Inr (), m') \<and> mem_ok m' \<and>
        read_region m' 0x1000 (length [1, 2, 3, 4 :: u8]) = Inr [1, 2, 3, 4]"
proof -
  obtain r m' where l: "load mem_new demo_image = (r, m')" by fastforce
  have "sorted_wrt disjoint_segs (segments demo_image)" by (simp add: demo_image_def)
  then show ?thesis
    using elf_load_places_segments [OF demo_elf_parses mem_ok_new l] l demo_elf_parses
    by (simp add: demo_image_def)
qed

end
