(* ===== verification/Dispute.thy ===== *)
theory Dispute
  imports Run Elf Contentstore
begin

text \<open>
  The dispute game (\<open>crates/coordinator/src/dispute.rs\<close>): two committed hash chains disagree, and a
  judge finds the first divergence, establishes the true hash there (from a snapshot that is
  checked against the agreed prefix, or by replaying the job) and names the honest side. Main
  results: whatever snapshot files the judge is given, the side that committed the chain of the
  real run wins at every divergence inside that chain, up to an explicit BLAKE3 collision; the
  judge always returns; and a chain padded after a halt wins on the snapshot path.
\<close>

section \<open>Operations\<close>

datatype chain_error = BadHashLength nat | BadHexAt nat

datatype malformed_reason = BadChain chain_error | NoHash

datatype verdict =
    Agreement
  | ClaimHonest nat
  | CounterHonest nat
  | BothDishonest nat
  | MalformedVerdict malformed_reason

text \<open>A call that may panic or, with a chunk size of 0, not return.\<close>

datatype 'a judged = Ret 'a | Panics | Diverges

record dispute_input =
  di_claim :: worker_result
  di_counter :: worker_result
  di_elf :: bytes
  di_entry :: u64
  di_input :: bytes
  di_chunk_size :: u64
  di_max_instructions :: u64
  di_snapshot_dir :: "string option"

text \<open>One hash of a chain: 32 slices of the string, each of which panics off a character boundary.\<close>

fun decode_hash_loop :: "string \<Rightarrow> nat \<Rightarrow> nat \<Rightarrow> (chain_error + digest) option" where
  "decode_hash_loop h i 0 = Some (Inr [])"
| "decode_hash_loop h i (Suc k) =
     (if \<not> (is_char_boundary h (i * 2) \<and> is_char_boundary h (i * 2 + 2)) then None
      else (case from_str_radix16 (h ! (i * 2)) (h ! (i * 2 + 1)) of
              None \<Rightarrow> Some (Inl (BadHexAt i))
            | Some b \<Rightarrow>
                (case decode_hash_loop h (Suc i) k of
                   Some (Inr bs) \<Rightarrow> Some (Inr (b # bs))
                 | r \<Rightarrow> r)))"

definition decode_hash :: "string \<Rightarrow> (chain_error + digest) option" where
  "decode_hash h =
     (if length h \<noteq> 64 then Some (Inl (BadHashLength (length h))) else decode_hash_loop h 0 32)"

fun decode_chain :: "string list \<Rightarrow> (chain_error + digest list) option" where
  "decode_chain [] = Some (Inr [])"
| "decode_chain (h # hs) =
     (case decode_hash h of
        None \<Rightarrow> None
      | Some (Inl e) \<Rightarrow> Some (Inl e)
      | Some (Inr d) \<Rightarrow>
          (case decode_chain hs of
             Some (Inr ds) \<Rightarrow> Some (Inr (d # ds))
           | r \<Rightarrow> r))"

text \<open>The loop over \<open>0..max(len)\<close>, with \<open>n\<close> rounds to go.\<close>

fun first_divergence_loop :: "digest list \<Rightarrow> digest list \<Rightarrow> nat \<Rightarrow> nat \<Rightarrow> nat option" where
  "first_divergence_loop a b i 0 = None"
| "first_divergence_loop a b i (Suc n) =
     (case (lget a i, lget b i) of
        (Some x, Some y) \<Rightarrow> if x = y then first_divergence_loop a b (Suc i) n else Some i
      | _ \<Rightarrow> Some i)"

definition first_divergence :: "digest list \<Rightarrow> digest list \<Rightarrow> nat option" where
  "first_divergence a b = first_divergence_loop a b 0 (max (length a) (length b))"

definition verdict_with_truth :: "digest list \<Rightarrow> digest list \<Rightarrow> nat \<Rightarrow> digest option \<Rightarrow> verdict" where
  "verdict_with_truth a b k truth =
     (case truth of
        None \<Rightarrow> MalformedVerdict NoHash
      | Some t \<Rightarrow>
          (case (lget a k = Some t, lget b k = Some t) of
             (True, False) \<Rightarrow> ClaimHonest k
           | (False, True) \<Rightarrow> CounterHonest k
           | (True, True) \<Rightarrow> Agreement
           | (False, False) \<Rightarrow> BothDishonest k))"

text \<open>\<open>Config { chunk_size, max_instructions, ..Default::default() }\<close>.\<close>

definition judge_config :: "u64 \<Rightarrow> u64 \<Rightarrow> config" where
  "judge_config cs mi = config_default\<lparr>chunk_size := cs, max_instructions := mi\<rparr>"

text \<open>What both replay functions share: parse, load, run.\<close>

definition replay ::
    "(bytes \<Rightarrow> digest) \<Rightarrow> bytes \<Rightarrow> u64 \<Rightarrow> bytes \<Rightarrow> u64 \<Rightarrow> u64 \<Rightarrow> run_outcome option judged" where
  "replay blake3 elf entry input cs mi =
     (case parse elf of
        None \<Rightarrow> Panics
      | Some (Inl _) \<Rightarrow> Ret None
      | Some (Inr img) \<Rightarrow>
          (case load mem_new img of
             (Inl _, _) \<Rightarrow> Ret None
           | (Inr _, m) \<Rightarrow>
               (case run blake3 m entry input (judge_config cs mi) of
                  RunPanic \<Rightarrow> Panics
                | RunDone (out, _) \<Rightarrow> Ret (Some out))))"

definition judge_by_replay ::
    "(bytes \<Rightarrow> digest) \<Rightarrow> bytes \<Rightarrow> u64 \<Rightarrow> bytes \<Rightarrow> u64 \<Rightarrow> u64 \<Rightarrow> digest list option judged" where
  "judge_by_replay blake3 elf entry input cs mi =
     (case replay blake3 elf entry input cs mi of
        Ret r \<Rightarrow> Ret (map_option chunk_hashes r)
      | Panics \<Rightarrow> Panics
      | Diverges \<Rightarrow> Diverges)"

definition replay_journal ::
    "(bytes \<Rightarrow> digest) \<Rightarrow> bytes \<Rightarrow> u64 \<Rightarrow> bytes \<Rightarrow> u64 \<Rightarrow> u64 \<Rightarrow> (u64 \<times> bytes) option judged" where
  "replay_journal blake3 elf entry input cs mi =
     (case replay blake3 elf entry input cs mi of
        Ret r \<Rightarrow>
          Ret (map_option (\<lambda>out. (instructions out,
                 case run_output out of None \<Rightarrow> [] | Some bs \<Rightarrow> bs)) r)
      | Panics \<Rightarrow> Panics
      | Diverges \<Rightarrow> Diverges)"

definition snap_name :: "nat \<Rightarrow> string" where
  "snap_name i = ''snap-'' @ dec_nat i @ ''.bin''"

definition judge_by_snapshot ::
    "('fs, 'e) os \<Rightarrow> (bytes \<Rightarrow> digest) \<Rightarrow> 'fs \<Rightarrow> string \<Rightarrow> nat \<Rightarrow> digest list \<Rightarrow> u64 \<Rightarrow>
     digest option judged" where
  "judge_by_snapshot os blake3 fs dir k agreed cs =
     (if k = 0 \<or> length agreed < k then Ret None
      else
        (case os_read os fs (join dir (snap_name (k - 1))) of
           Inl _ \<Rightarrow> Ret None
         | Inr bs \<Rightarrow>
             (case restore bs of
                Inl _ \<Rightarrow> Ret None
              | Inr (c, m) \<Rightarrow>
                  (let prev_boundary = (if k = 1 then GENESIS else agreed ! (k - 2))
                   in if state_hash blake3 prev_boundary c m \<noteq> agreed ! (k - 1) then Ret None
                      else
                        (case execute_chunk_from blake3 bs (agreed ! (k - 1)) cs of
                           None \<Rightarrow> Diverges
                         | Some (Inl _) \<Rightarrow> Ret None
                         | Some (Inr ChunkPanic) \<Rightarrow> Panics
                         | Some (Inr (ChunkOk h _ _)) \<Rightarrow> Ret (Some h))))))"

text \<open>The judge's truth: the snapshot path first, then the replay's hash at \<open>k\<close>.\<close>

definition judge_truth ::
    "('fs, 'e) os \<Rightarrow> (bytes \<Rightarrow> digest) \<Rightarrow> 'fs \<Rightarrow> dispute_input \<Rightarrow> digest list \<Rightarrow> nat \<Rightarrow>
     digest option judged" where
  "judge_truth os blake3 fs inp a k =
     (case (case di_snapshot_dir inp of
              None \<Rightarrow> Ret None
            | Some d \<Rightarrow> judge_by_snapshot os blake3 fs d k a (di_chunk_size inp)) of
        Ret None \<Rightarrow>
          (case judge_by_replay blake3 (di_elf inp) (di_entry inp) (di_input inp)
                  (di_chunk_size inp) (di_max_instructions inp) of
             Ret None \<Rightarrow> Ret None
           | Ret (Some ch) \<Rightarrow> Ret (lget ch k)
           | Panics \<Rightarrow> Panics
           | Diverges \<Rightarrow> Diverges)
      | r \<Rightarrow> r)"

definition resolve ::
    "('fs, 'e) os \<Rightarrow> (bytes \<Rightarrow> digest) \<Rightarrow> 'fs \<Rightarrow> dispute_input \<Rightarrow> verdict judged" where
  "resolve os blake3 fs inp =
     (case (decode_chain (wr_chunk_hashes (di_claim inp)),
            decode_chain (wr_chunk_hashes (di_counter inp))) of
        (None, _) \<Rightarrow> Panics
      | (_, None) \<Rightarrow> Panics
      | (Some (Inl e), _) \<Rightarrow> Ret (MalformedVerdict (BadChain e))
      | (_, Some (Inl e)) \<Rightarrow> Ret (MalformedVerdict (BadChain e))
      | (Some (Inr a), Some (Inr b)) \<Rightarrow>
          if a = b then Ret Agreement
          else
            (case first_divergence a b of
               None \<Rightarrow> Ret Agreement
             | Some k \<Rightarrow>
                 (case judge_truth os blake3 fs inp a k of
                    Ret truth \<Rightarrow> Ret (verdict_with_truth a b k truth)
                  | Panics \<Rightarrow> Panics
                  | Diverges \<Rightarrow> Diverges)))"

section \<open>Chains and divergence\<close>

lemma decode_hash_loop_content:
  "content_id_loop h i k = Some (Inr bs) \<Longrightarrow> decode_hash_loop h i k = Some (Inr bs)"
  by (induction h i k arbitrary: bs rule: content_id_loop.induct)
    (auto split: if_splits option.splits sum.splits)

lemma decode_hash_to_hex: "length d = 32 \<Longrightarrow> decode_hash (to_hex d) = Some (Inr d)"
  using content_id_loop_to_hex [of 0 32 d]
  by (auto simp: decode_hash_def dest: decode_hash_loop_content)

lemma decode_chain_to_hex:
  "(\<And>d. d \<in> set ds \<Longrightarrow> length d = 32) \<Longrightarrow> decode_chain (map to_hex ds) = Some (Inr ds)"
  by (induction ds) (simp_all add: decode_hash_to_hex)

lemma first_divergence_loop_Some:
  assumes "first_divergence_loop a b i n = Some k" and "i + n = max (length a) (length b)"
  shows "i \<le> k \<and> lget a k \<noteq> lget b k \<and> (\<forall>j. i \<le> j \<and> j < k \<longrightarrow> (\<exists>x. lget a j = Some x \<and> lget b j = Some x))"
  using assms
proof (induction n arbitrary: i)
  case (Suc n)
  show ?case
  proof (cases "\<exists>x. lget a i = Some x \<and> lget b i = Some x")
    case True
    then have "first_divergence_loop a b (Suc i) n = Some k" using Suc.prems by auto
    then show ?thesis using Suc.IH [of "Suc i"] True Suc.prems(2)
      by (metis Suc_leD Suc_leI add_Suc_shift le_neq_implies_less)
  next
    case False
    then have "k = i" using Suc.prems by (auto split: option.splits if_splits)
    moreover have "lget a i \<noteq> lget b i"
      using False Suc.prems(2) by (auto simp: lget_def split: if_splits)
    ultimately show ?thesis by auto
  qed
qed simp

lemma first_divergence_loop_None:
  assumes "first_divergence_loop a b i n = None" and "i \<le> j" and "j < i + n"
  shows "lget a j = lget b j"
  using assms
proof (induction n arbitrary: i)
  case (Suc n)
  then show ?case
    by (cases "i = j") (auto split: option.splits if_splits)
qed simp

lemma first_divergence_SomeD:
  assumes "first_divergence a b = Some k"
  shows "k \<le> length a" and "k \<le> length b" and "take k a = take k b" and "lget a k \<noteq> lget b k"
proof -
  note f = first_divergence_loop_Some [OF assms [unfolded first_divergence_def]]
  have same: "j < length a \<and> j < length b \<and> a ! j = b ! j" if "j < k" for j
    using f that by (auto simp: lget_eq_Some)
  show "k \<le> length a" "k \<le> length b" using same by (meson leI less_irrefl)+
  with same show "take k a = take k b" by (intro nth_take_lemma) auto
  show "lget a k \<noteq> lget b k" using f by simp
qed

lemma first_divergence_loop_commute: "first_divergence_loop a b i n = first_divergence_loop b a i n"
  by (induction n arbitrary: i) (auto split: option.split)

lemma first_divergence_commute: "first_divergence a b = first_divergence b a"
  by (simp add: first_divergence_def first_divergence_loop_commute [of a b] max.commute)

lemma first_divergence_None: "first_divergence a b = None \<longleftrightarrow> a = b"
proof
  assume n: "first_divergence a b = None"
  have "lget a j = lget b j" for j
  proof (cases "j < max (length a) (length b)")
    case True
    then show ?thesis using first_divergence_loop_None [OF n [unfolded first_divergence_def]] by simp
  next
    case False
    then show ?thesis by (auto simp: lget_def)
  qed
  then show "a = b" by (rule lget_ext)
next
  assume "a = b"
  then show "first_divergence a b = None"
    using first_divergence_SomeD(4) [of a a] by (cases "first_divergence a b") auto
qed

section \<open>The chain of a run and the states at its boundaries\<close>

lemma run_iter_ContinueE:
  assumes "run_iter blake3 cfg st = Continue st'"
  obtains (push) "rs_in_chunk st' = 0" "rs_prev st' = state_hash blake3 (rs_prev st) (rs_cpu st') (rs_mem st')"
      "rs_chain st' = rs_chain st @ [rs_prev st']"
    | (more) "rs_in_chunk st' = rs_in_chunk st + 1" "rs_prev st' = rs_prev st" "rs_chain st' = rs_chain st"
  using assms
  by (auto simp: run_iter_def run_dispatch_def Let_def split: if_splits prod.splits step_res.splits)

lemma run_iter_chain:
  assumes "run_iter blake3 cfg st = Continue st'"
  shows "rs_chain st' = rs_chain st \<or> (\<exists>h. rs_chain st' = rs_chain st @ [h]) \<and> rs_in_chunk st' = 0"
  using assms by (cases rule: run_iter_ContinueE) auto

lemma run_iter_Break_chain:
  assumes "run_iter blake3 cfg st = Break e st'"
  shows "\<exists>h. rs_chain st' = rs_chain st @ [h]"
  using assms
  by (auto simp: run_iter_def run_dispatch_def Let_def split: if_splits prod.splits step_res.splits)

lemma run_loop_chain:
  assumes "run_loop blake3 cfg st = RunDone (e, fin)"
  shows "\<exists>hs. rs_chain fin = rs_chain st @ hs"
  using assms
proof (induction blake3 cfg st rule: run_loop.induct)
  case (1 blake3 cfg st)
  show ?case
  proof (cases "run_iter blake3 cfg st")
    case (Continue s)
    then show ?thesis
      using 1 run_iter_chain [OF Continue] run_loop_Continue [OF Continue] by fastforce
  next
    case (Break e' s)
    then show ?thesis
      using 1(2) run_iter_Break_chain [OF Break] run_loop.simps [of blake3 cfg st] by auto
  next
    case Panicked
    then show ?thesis using 1(2) run_loop.simps [of blake3 cfg st] by simp
  qed
qed

text \<open>Every entry of the final chain but the last was emitted at a boundary the run passed.\<close>

lemma run_boundary:
  assumes "run_loop blake3 cfg st = RunDone (e, fin)" and "k < length (rs_chain fin)"
    and "length (rs_chain st) \<le> k" and "length (rs_chain st) = k \<Longrightarrow> rs_in_chunk st = 0"
  shows "\<exists>j st'. run_iters blake3 cfg j st = Continue st' \<and> rs_in_chunk st' = 0 \<and>
                 rs_chain st' = take k (rs_chain fin)"
  using assms
proof (induction blake3 cfg st rule: run_loop.induct)
  case (1 blake3 cfg st)
  show ?case
  proof (cases "length (rs_chain st) = k")
    case True
    then have "rs_chain st = take k (rs_chain fin)" using run_loop_chain [OF 1(2)] by auto
    then show ?thesis using 1(5) True by (intro exI [of _ 0] exI [of _ st]) simp
  next
    case False
    then have l: "length (rs_chain st) < k" using 1(4) by simp
    show ?thesis
    proof (cases "run_iter blake3 cfg st")
      case (Continue s)
      have "\<exists>j st'. run_iters blake3 cfg j s = Continue st' \<and> rs_in_chunk st' = 0 \<and>
                    rs_chain st' = take k (rs_chain fin)"
        using 1(2,3) l run_iter_chain [OF Continue] run_loop_Continue [OF Continue]
        by (intro 1(1) [OF Continue]) auto
      then obtain j st' where "run_iters blake3 cfg (Suc j) st = Continue st' \<and> rs_in_chunk st' = 0 \<and>
                    rs_chain st' = take k (rs_chain fin)" using Continue by auto
      then show ?thesis by blast
    next
      case (Break e' s)
      then show ?thesis
        using 1(2,3) l run_iter_Break_chain [OF Break] run_loop.simps [of blake3 cfg st] by auto
    next
      case Panicked
      then show ?thesis using 1(2) run_loop.simps [of blake3 cfg st] by simp
    qed
  qed
qed

text \<open>
  At a boundary the last chain entry is the hash of the machine, on top of the entry before it;
  and all entries are hash values.
\<close>

definition boundary_inv :: "(bytes \<Rightarrow> digest) \<Rightarrow> run_state \<Rightarrow> bool" where
  "boundary_inv blake3 st \<longleftrightarrow>
     unat (rs_in_chunk st) \<le> unat (rs_n st) \<and>
     rs_prev st = (GENESIS # rs_chain st) ! length (rs_chain st) \<and>
     (rs_in_chunk st = 0 \<and> rs_chain st \<noteq> [] \<longrightarrow>
        rs_prev st = state_hash blake3 ((GENESIS # rs_chain st) ! (length (rs_chain st) - 1))
                       (rs_cpu st) (rs_mem st)) \<and>
     set (rs_chain st) \<subseteq> range blake3"

lemma state_hash_range [simp]: "state_hash blake3 prev c m \<in> range blake3"
  by (simp add: state_hash_bytes)

lemma run_iter_boundary_inv:
  assumes "boundary_inv blake3 st" and "run_iter blake3 cfg st = Continue st'"
  shows "boundary_inv blake3 st'"
proof -
  have n: "unat (rs_n st') = Suc (unat (rs_n st))" "unat (rs_n st) < unat (max_instructions cfg)"
    using run_iter_Continue_unat [OF assms(2)] by auto
  have i: "unat (rs_in_chunk st) \<le> unat (rs_n st)" using assms(1) by (simp add: boundary_inv_def)
  then have "unat (rs_in_chunk st) < unat (max_instructions cfg)" using n(2) by simp
  then have u: "unat (rs_in_chunk st + 1) = Suc (unat (rs_in_chunk st))" by (rule unat_inc)
  then have nz: "rs_in_chunk st + 1 \<noteq> 0" by (metis nat.distinct(1) unat_0)
  show ?thesis
    using assms(2)
  proof (cases rule: run_iter_ContinueE)
    case push
    then show ?thesis using assms(1) by (simp add: boundary_inv_def nth_append nth_Cons_length_append)
  next
    case more
    then show ?thesis using assms(1) nz u n(1) by (simp add: boundary_inv_def)
  qed
qed

lemma run_iters_boundary_inv:
  assumes "boundary_inv blake3 st" and "run_iters blake3 cfg j st = Continue st'"
  shows "boundary_inv blake3 st'"
  using assms
  by (induction j arbitrary: st) (auto split: run_iter_res.splits dest: run_iter_boundary_inv)

lemma boundary_inv_start: "boundary_inv blake3 (run_start c m)"
  by (simp add: boundary_inv_def run_start_def)

section \<open>The judged truth is the run's hash\<close>

text \<open>The states a job passes through when it is replayed.\<close>

definition job_states ::
    "(bytes \<Rightarrow> digest) \<Rightarrow> bytes \<Rightarrow> u64 \<Rightarrow> bytes \<Rightarrow> config \<Rightarrow> run_state set" where
  "job_states blake3 elf entry input cfg =
     {st. \<exists>img m m1 m2 j.
        parse elf = Some (Inr img) \<and> load mem_new img = (Inr (), m) \<and>
        mem_write m INPUT_LEN_ADDR (le_bytes 8 (of_nat (length input) :: u64)) = (Inr (), m1) \<and>
        mem_write m1 INPUT_DATA_ADDR input = (Inr (), m2) \<and>
        run_iters blake3 cfg j (run_start (cpu_new entry STACK_TOP) m2) = Continue st}"

text \<open>No trap of the job finds a handler installed in \<open>mtvec\<close>.\<close>

definition handler_free ::
    "(bytes \<Rightarrow> digest) \<Rightarrow> bytes \<Rightarrow> u64 \<Rightarrow> bytes \<Rightarrow> config \<Rightarrow> bool" where
  "handler_free blake3 elf entry input cfg \<longleftrightarrow>
     (\<forall>st \<in> job_states blake3 elf entry input cfg. \<forall>t c m.
        step (rs_cpu st) (rs_mem st) = (StepErr t, c, m) \<longrightarrow> mtvec c = 0)"

lemma judge_config_simps [simp]:
  "chunk_size (judge_config cs mi) = cs" "max_instructions (judge_config cs mi) = mi"
  "syscalls (judge_config cs mi) = False" "tohost_addr (judge_config cs mi) = None"
  by (simp_all add: judge_config_def config_default_def)

lemma replay_cases:
  assumes "replay blake3 elf entry input cs mi = Ret (Some out)"
  obtains m e fin where "plain_state (run_start (cpu_new entry STACK_TOP) m)"
    and "run_loop blake3 (judge_config cs mi) (run_start (cpu_new entry STACK_TOP) m) = RunDone (e, fin)"
    and "out = finish_run e fin"
    and "\<forall>j st. run_iters blake3 (judge_config cs mi) j (run_start (cpu_new entry STACK_TOP) m) = Continue st \<longrightarrow>
           st \<in> job_states blake3 elf entry input (judge_config cs mi)"
proof -
  obtain img m fin where p: "parse elf = Some (Inr img)" and l: "load mem_new img = (Inr (), m)"
    and r: "run blake3 m entry input (judge_config cs mi) = RunDone (out, fin)"
    using assms by (auto simp: replay_def split: option.splits sum.splits prod.splits run_res.splits)
  have b: "\<forall>seg \<in> set (segments img). unat (fst seg) + length (snd seg) \<le> 2 ^ 32"
    using parse_segments [OF p] by (simp add: seg_ok_def)
  have m: "mem_ok m \<and> syscall_log m = []"
    using load_segments_ok [OF mem_ok_new b] l by (simp add: load_def mem_new_empty)
  obtain m1 m2 e where w1: "mem_write m INPUT_LEN_ADDR (le_bytes 8 (of_nat (length input) :: u64)) = (Inr (), m1)"
    and w2: "mem_write m1 INPUT_DATA_ADDR input = (Inr (), m2)"
    and loop: "run_loop blake3 (judge_config cs mi) (run_start (cpu_new entry STACK_TOP) m2) = RunDone (e, fin)"
    and out: "out = finish_run e fin"
    using r by (auto simp: run_def Let_def split: prod.splits sum.splits run_res.splits)
  have "mem_ok m1 \<and> syscall_log m1 = []" using rv_mem.wr_state [of m] m w1 by (metis snd_conv)
  then have "mem_ok m2 \<and> syscall_log m2 = []" using rv_mem.wr_state [of m1] w2 by (metis snd_conv)
  then have "plain_state (run_start (cpu_new entry STACK_TOP) m2)"
    using cpu_ok_new by (simp add: plain_state_def run_start_def) (simp add: cpu_new_def)
  then show ?thesis
    using loop out p l w1 w2 by (intro that [of m2 e fin]) (auto simp: job_states_def)
qed

text \<open>
  A snapshot that passes the hash check at a boundary is the machine of the run at that boundary,
  unless the two are a collision.
\<close>

definition forged_state :: "(bytes \<Rightarrow> digest) \<Rightarrow> bytes \<Rightarrow> run_state \<Rightarrow> bool" where
  "forged_state blake3 bs st \<longleftrightarrow>
     (\<exists>c m prev. restore bs = Inr (c, m) \<and> prev \<in> set (GENESIS # rs_chain st) \<and>
        (collision blake3 (state_bytes blake3 prev c m) (state_bytes blake3 prev (rs_cpu st) (rs_mem st)) \<or>
         collision blake3 (merkle_bytes (page_iter m)) (merkle_bytes (page_iter (rs_mem st)))))"

lemma checked_snapshot:
  assumes "\<And>x. length (blake3 x) = 32" and "plain_state st" and "boundary_inv blake3 st"
    and "rs_in_chunk st = 0" and "rs_chain st \<noteq> []"
    and "restore bs = Inr (c, m)" and "length bs < 2 ^ 43"
    and "state_hash blake3 ((GENESIS # rs_chain st) ! (length (rs_chain st) - 1)) c m = rs_prev st"
  shows "(c = rs_cpu st \<and> mem_eq m (rs_mem st)) \<or> forged_state blake3 bs st"
proof -
  let ?p = "(GENESIS # rs_chain st) ! (length (rs_chain st) - 1)"
  have pin: "?p \<in> set (GENESIS # rs_chain st)" by (intro nth_mem) simp
  then have "?p = GENESIS \<or> ?p \<in> range blake3" using assms(3) by (auto simp: boundary_inv_def)
  then have lp: "length ?p = 32" using assms(1) by (auto simp: GENESIS_def)
  note r = restore_InrD [OF assms(6,7)]
  have st: "cpu_ok (rs_cpu st)" "mem_ok (rs_mem st)" "tohost (rs_cpu st) = None" "syscall_log (rs_mem st) = []"
    using assms(2) by (simp_all add: plain_state_def)
  have "rs_prev st = state_hash blake3 ?p (rs_cpu st) (rs_mem st)"
    using assms(3-5) unfolding boundary_inv_def by blast
  with assms(8) have "state_hash blake3 ?p c m = state_hash blake3 ?p (rs_cpu st) (rs_mem st)"
    by (rule trans)
  then have "(arch_eq c (rs_cpu st) \<and> page_iter m = page_iter (rs_mem st)) \<or> forged_state blake3 bs st"
    using state_hash_inject [OF lp lp _ _ _ st(2), of c "rs_cpu st" m blake3] r st(1) assms(6) pin
    unfolding forged_state_def cpu_ok_def by blast
  moreover have "c = rs_cpu st" if "arch_eq c (rs_cpu st)"
    using that r st(3) by (intro cpu.equality) (simp_all add: arch_eq_def)
  ultimately show ?thesis using r st by (auto simp: mem_eq_def)
qed

lemma run_iters_add:
  "run_iters blake3 cfg j st = Continue st' \<Longrightarrow> run_iters blake3 cfg (j + i) st = run_iters blake3 cfg i st'"
  by (induction j arbitrary: st) (auto split: run_iter_res.splits)

lemma run_loop_panicked: "run_iters blake3 cfg j st = Panicked \<Longrightarrow> run_loop blake3 cfg st = RunPanic"
proof (induction j arbitrary: st)
  case (Suc j)
  then show ?case
    using run_loop.simps [of blake3 cfg st] by (simp split: run_iter_res.splits)
qed simp

text \<open>What the judge's chunk says about the chain of the whole run.\<close>

definition no_handler :: "(bytes \<Rightarrow> digest) \<Rightarrow> config \<Rightarrow> run_state \<Rightarrow> bool" where
  "no_handler blake3 cfg st \<longleftrightarrow>
     (\<forall>j s t c m. run_iters blake3 cfg j st = Continue s \<and>
        step (rs_cpu s) (rs_mem s) = (StepErr t, c, m) \<longrightarrow> mtvec c = 0)"

lemma agreed_hash_in_chain:
  assumes "agrees_with_run blake3 cfg st (ChunkOk h ce n)"
    and "run_loop blake3 cfg st = RunDone (e, fin)"
    and "no_handler blake3 cfg st"
  shows "length (rs_chain st) < length (rs_chain fin) \<and> rs_chain fin ! length (rs_chain st) = h"
proof -
  have ends: "length (rs_chain st) < length (rs_chain fin) \<and> rs_chain fin ! length (rs_chain st) = h"
    if "run_iters blake3 cfg j st = Break e' st'" and "rs_chain st' = rs_chain st @ [h]" for j e' st'
    using run_loop_iters(2) [OF that(1)] that(2) assms(2) by simp
  show ?thesis
  proof (cases ce)
    case Boundary
    then obtain j st' where i: "run_iters blake3 cfg j st = Continue st'"
      and c: "rs_chain st' = rs_chain st @ [h]"
      using assms(1) unfolding Boundary agrees_with_run.simps by blast
    have "run_loop blake3 cfg st' = RunDone (e, fin)" using run_loop_iters(1) [OF i] assms(2) by simp
    then show ?thesis using run_loop_chain c by (fastforce simp: nth_append)
  next
    case ChunkHalted
    then show ?thesis using assms(1) ends unfolding ChunkHalted agrees_with_run.simps by blast
  next
    case (ChunkTrapped t)
    then show ?thesis
      using assms(1,3) ends unfolding ChunkTrapped agrees_with_run.simps no_handler_def by blast
  qed
qed

lemma snapshot_truth:
  assumes "\<And>x. length (blake3 x) = 32" and "cfg = judge_config cs mi" and "0 < cs"
    and "plain_state st" and "boundary_inv blake3 st" and "rs_in_chunk st = 0"
    and "run_loop blake3 cfg st = RunDone (e, fin)" and "e \<noteq> InstructionLimit"
    and "no_handler blake3 cfg st"
    and "take k a = rs_chain st" and "k = length (rs_chain st)" and "k \<le> length a"
    and "\<And>p bs. os_read os fs p = Inr bs \<Longrightarrow> length bs < 2 ^ 43"
  shows "judge_by_snapshot os blake3 fs d k a cs \<in> {Ret None, Ret (Some (rs_chain fin ! k))} \<or>
         (\<exists>p bs. os_read os fs p = Inr bs \<and> forged_state blake3 bs st)"
proof (cases "judge_by_snapshot os blake3 fs d k a cs = Ret None")
  case False
  have k: "0 < k" using False by (cases k) (simp_all add: judge_by_snapshot_def)
  have e: "a ! i = rs_chain st ! i" if "i < k" for i using assms(10) that by (metis nth_take)
  have last: "a ! (k - 1) = rs_prev st"
    using assms(5,11) e [of "k - 1"] k by (simp add: boundary_inv_def nth_Cons')
  have prev: "(if k = 1 then GENESIS else a ! (k - 2)) = (GENESIS # rs_chain st) ! (k - 1)"
    using e [of "k - 2"] k by (simp add: nth_Cons' numeral_2_eq_2)
  let ?p = "(GENESIS # rs_chain st) ! (k - 1)"
  have j: "judge_by_snapshot os blake3 fs d k a cs =
      (case os_read os fs (join d (snap_name (k - 1))) of
           Inl _ \<Rightarrow> Ret None
         | Inr bs \<Rightarrow>
             (case restore bs of
                Inl _ \<Rightarrow> Ret None
              | Inr (c, m) \<Rightarrow>
                  if state_hash blake3 ?p c m \<noteq> rs_prev st then Ret None
                      else
                        (case execute_chunk_from blake3 bs (rs_prev st) cs of
                           None \<Rightarrow> Diverges
                         | Some (Inl _) \<Rightarrow> Ret None
                         | Some (Inr ChunkPanic) \<Rightarrow> Panics
                         | Some (Inr (ChunkOk h _ _)) \<Rightarrow> Ret (Some h))))"
    using k assms(12) unfolding judge_by_snapshot_def prev last Let_def by simp
  obtain bs c m where f: "os_read os fs (join d (snap_name (k - 1))) = Inr bs"
    and r: "restore bs = Inr (c, m)" and h: "state_hash blake3 ?p c m = rs_prev st"
    using False unfolding j by (auto split: sum.split_asm prod.split_asm if_split_asm)
  have "(c = rs_cpu st \<and> mem_eq m (rs_mem st)) \<or> forged_state blake3 bs st"
    using checked_snapshot [OF assms(1,4,5,6) _ r assms(13) [OF f]] h k assms(11) by simp
  then show ?thesis
  proof
    assume s: "c = rs_cpu st \<and> mem_eq m (rs_mem st)"
    have "in_budget blake3 cfg st" using assms(7,8) by (simp add: in_budget_def)
    then obtain out where o: "chunk_loop blake3 (rs_prev st) cs (rs_cpu st) m 0 0 = Some out"
      "agrees_with_run blake3 cfg st out"
      using chunk_sim [of cfg st m blake3 0] s assms(2-4,6) by (auto simp: plain_state_def)
    then have "judge_by_snapshot os blake3 fs d k a cs =
        (case out of ChunkPanic \<Rightarrow> Panics | ChunkOk h _ _ \<Rightarrow> Ret (Some h))"
      unfolding j using f r h s by (simp add: execute_chunk_from_def split: chunk_out.split)
    moreover obtain h ce n where "out = ChunkOk h ce n"
      using o(2) run_loop_panicked [of blake3 cfg _ st] assms(7) by (cases out) auto
    moreover have "rs_chain fin ! k = h"
      using agreed_hash_in_chain [OF _ assms(7,9)] o(2) assms(11) calculation(2) by blast
    ultimately show ?thesis by simp
  qed (use f in blast)
qed simp

lemma run_loop_range:
  assumes "run_loop blake3 cfg st = RunDone (e, fin)" and "set (rs_chain st) \<subseteq> range blake3"
  shows "set (rs_chain fin) \<subseteq> range blake3"
  using assms
proof (induction blake3 cfg st rule: run_loop.induct)
  case (1 blake3 cfg st)
  show ?case
  proof (cases "run_iter blake3 cfg st")
    case (Continue s)
    have "set (rs_chain s) \<subseteq> range blake3"
      using Continue 1(3) by (cases rule: run_iter_ContinueE) auto
    then show ?thesis using 1(1) [OF Continue] 1(2) run_loop_Continue [OF Continue] by simp
  next
    case (Break e' s)
    then have "set (rs_chain s) \<subseteq> range blake3"
      using 1(3)
      by (auto simp: run_iter_def run_dispatch_def Let_def split: if_splits prod.splits step_res.splits)
    then show ?thesis using Break 1(2) run_loop.simps [of blake3 cfg st] by simp
  next
    case Panicked
    then show ?thesis using 1(2) run_loop.simps [of blake3 cfg st] by simp
  qed
qed

lemma finish_run_chain:
  "chunk_hashes (finish_run e fin) = rs_chain fin \<or> chunk_hashes (finish_run e fin) = butlast (rs_chain fin)"
  by (simp add: finish_run_def Let_def case_prod_unfold)

lemma finish_run_nth:
  assumes "k < length (chunk_hashes (finish_run e fin))"
  shows "k < length (rs_chain fin) \<and> chunk_hashes (finish_run e fin) ! k = rs_chain fin ! k \<and>
         take k (chunk_hashes (finish_run e fin)) = take k (rs_chain fin)"
  using finish_run_chain [of e fin] assms by (elim disjE) (auto simp: nth_butlast take_butlast)

lemma replay_hash_lengths:
  assumes "\<And>x. length (blake3 x) = 32" and "replay blake3 elf entry input cs mi = Ret (Some out)"
    and "d \<in> set (chunk_hashes out)"
  shows "length d = 32"
proof -
  obtain m e fin where
    "run_loop blake3 (judge_config cs mi) (run_start (cpu_new entry STACK_TOP) m) = RunDone (e, fin)"
    and o: "out = finish_run e fin" using replay_cases [OF assms(2)] .
  then have "set (rs_chain fin) \<subseteq> range blake3" using run_loop_range by (fastforce simp: run_start_def)
  moreover have "set (chunk_hashes out) \<subseteq> set (rs_chain fin)"
    unfolding o using finish_run_chain [of e fin] by (auto dest: in_set_butlastD)
  ultimately show ?thesis using assms(1,3) by auto
qed

text \<open>A file that collides, as a snapshot, with a state of the disputed job.\<close>

definition snapshot_collision ::
    "('fs, 'e) os \<Rightarrow> (bytes \<Rightarrow> digest) \<Rightarrow> 'fs \<Rightarrow> dispute_input \<Rightarrow> bool" where
  "snapshot_collision os blake3 fs inp \<longleftrightarrow>
     (\<exists>p bs. os_read os fs p = Inr bs \<and>
        (\<exists>st \<in> job_states blake3 (di_elf inp) (di_entry inp) (di_input inp)
                   (judge_config (di_chunk_size inp) (di_max_instructions inp)).
           forged_state blake3 bs st))"

text \<open>The judge finds the replayed run's hash, whatever the snapshot files hold.\<close>

lemma judge_truth_is_replay:
  assumes "\<And>x. length (blake3 x) = 32" and "0 < di_chunk_size inp"
    and "replay blake3 (di_elf inp) (di_entry inp) (di_input inp) (di_chunk_size inp)
           (di_max_instructions inp) = Ret (Some out)"
    and "status out \<noteq> InstructionLimit"
    and "handler_free blake3 (di_elf inp) (di_entry inp) (di_input inp)
           (judge_config (di_chunk_size inp) (di_max_instructions inp))"
    and "k < length (chunk_hashes out)" and "take k a = take k (chunk_hashes out)" and "k \<le> length a"
    and "\<And>p bs. os_read os fs p = Inr bs \<Longrightarrow> length bs < 2 ^ 43"
  shows "judge_truth os blake3 fs inp a k = Ret (Some (chunk_hashes out ! k)) \<or> snapshot_collision os blake3 fs inp"
proof -
  let ?cfg = "judge_config (di_chunk_size inp) (di_max_instructions inp)"
  obtain m e fin where s: "plain_state (run_start (cpu_new (di_entry inp) STACK_TOP) m)"
    and l: "run_loop blake3 ?cfg (run_start (cpu_new (di_entry inp) STACK_TOP) m) = RunDone (e, fin)"
    and o: "out = finish_run e fin"
    and js: "\<forall>j st. run_iters blake3 ?cfg j (run_start (cpu_new (di_entry inp) STACK_TOP) m) = Continue st \<longrightarrow>
           st \<in> job_states blake3 (di_elf inp) (di_entry inp) (di_input inp) ?cfg"
    using replay_cases [OF assms(3)] .
  let ?st = "run_start (cpu_new (di_entry inp) STACK_TOP) m"
  note c = finish_run_nth [OF assms(6) [unfolded o]]
  obtain j st where i: "run_iters blake3 ?cfg j ?st = Continue st" "rs_in_chunk st = 0"
    "rs_chain st = take k (rs_chain fin)"
    using run_boundary [OF l conjunct1 [OF c]] by (auto simp: run_start_def)
  have "no_handler blake3 ?cfg st"
    unfolding no_handler_def
  proof (intro allI impI)
    fix j' s t c m
    assume "run_iters blake3 ?cfg j' st = Continue s \<and> step (rs_cpu s) (rs_mem s) = (StepErr t, c, m)"
    then show "mtvec c = 0" using run_iters_add [OF i(1)] js assms(5) unfolding handler_free_def by metis
  qed
  then have "judge_by_snapshot os blake3 fs d k a (di_chunk_size inp)
      \<in> {Ret None, Ret (Some (rs_chain fin ! k))} \<or>
      (\<exists>p bs. os_read os fs p = Inr bs \<and> forged_state blake3 bs st)" for d
    using c i(3) assms(4,7,8) l run_loop_iters(1) [OF i(1)] unfolding o finish_run_simps(2)
    by (intro snapshot_truth [OF assms(1) refl assms(2) run_iters_plain [OF _ _ s i(1)]
          run_iters_boundary_inv [OF boundary_inv_start i(1)] i(2) _ _ _ _ _ _ assms(9)]) auto
  then have snap: "judge_by_snapshot os blake3 fs d k a (di_chunk_size inp)
      \<in> {Ret None, Ret (Some (rs_chain fin ! k))} \<or> snapshot_collision os blake3 fs inp" for d
    unfolding snapshot_collision_def using js i(1) by blast
  have "judge_by_replay blake3 (di_elf inp) (di_entry inp) (di_input inp) (di_chunk_size inp)
      (di_max_instructions inp) = Ret (Some (chunk_hashes out))"
    using assms(3) by (simp add: judge_by_replay_def)
  then have rest: "judge_truth os blake3 fs inp a k = Ret (Some (chunk_hashes out ! k))"
    if "di_snapshot_dir inp = None \<or>
        (\<exists>d. di_snapshot_dir inp = Some d \<and>
             judge_by_snapshot os blake3 fs d k a (di_chunk_size inp) \<in> {Ret None, Ret (Some (rs_chain fin ! k))})"
    using that c assms(6) unfolding judge_truth_def o by (auto simp: lget_def)
  show ?thesis using rest snap by (cases "di_snapshot_dir inp") blast+
qed

section \<open>The judge returns\<close>

lemma chunk_loop_returns:
  assumes "in_chunk < cs"
  shows "\<exists>out. chunk_loop blake3 prev cs c m n in_chunk = Some out"
  using assms
proof (induction "unat cs - unat in_chunk" arbitrary: c m n in_chunk)
  case 0
  then show ?case by (simp add: word_less_nat_alt)
next
  case (Suc d)
  obtain res c' m' where s: "step c m = (res, c', m')" by (metis prod_cases3)
  have u: "unat (in_chunk + 1) = Suc (unat in_chunk)"
    using Suc.prems unat_inc by (simp add: word_less_nat_alt)
  have "\<exists>out. chunk_loop blake3 prev cs c' m' (n + 1) (in_chunk + 1) = Some out" if "in_chunk + 1 \<noteq> cs"
  proof (rule Suc.hyps(1))
    show "d = unat cs - unat (in_chunk + 1)" using Suc.hyps(2) u by simp
    show "in_chunk + 1 < cs" using Suc.prems that by (rule word_inc_less)
  qed
  then show ?case
    using chunk_loop.simps [of blake3 prev cs c m n in_chunk] s by (cases res) auto
qed

lemma resolve_not_Diverges:
  assumes "0 < di_chunk_size inp"
  shows "resolve os blake3 fs inp \<noteq> Diverges"
proof -
  have "execute_chunk_from blake3 bs h (di_chunk_size inp) = None \<Longrightarrow> False" for bs h
    using chunk_loop_returns [OF assms, of blake3 h]
    by (auto simp: execute_chunk_from_def split: sum.splits option.splits) (metis option.distinct(1))
  then have "judge_by_snapshot os blake3 fs d k a (di_chunk_size inp) \<noteq> Diverges" for d k a
    unfolding judge_by_snapshot_def Let_def
    by (simp split: sum.split option.split chunk_out.split) blast
  moreover have "judge_by_replay blake3 elf entry input cs mi \<noteq> Diverges" for elf entry input cs mi
    by (simp add: judge_by_replay_def replay_def split: option.split sum.split prod.split run_res.split)
  ultimately have "judge_truth os blake3 fs inp a k \<noteq> Diverges" for a k
    by (auto simp: judge_truth_def split: option.splits judged.splits)
  then show ?thesis by (auto simp: resolve_def split: option.splits sum.splits judged.splits)
qed

section \<open>Padding a halted chain\<close>

lemma first_divergence_loop_append:
  "i \<le> length a \<Longrightarrow> first_divergence_loop a (a @ [x]) i (Suc (length a) - i) = Some (length a)"
proof (induction "length a - i" arbitrary: i)
  case 0
  then show ?case by (simp add: lget_def)
next
  case (Suc d)
  then have n: "Suc (length a) - i = Suc (Suc (length a) - Suc i)" and i: "i < length a" by simp_all
  have "first_divergence_loop a (a @ [x]) (Suc i) (Suc (length a) - Suc i) = Some (length a)"
    using Suc by (intro Suc.hyps(1)) simp_all
  then show ?case unfolding n using i by (simp add: lget_def nth_append)
qed

lemma first_divergence_append: "first_divergence a (a @ [x]) = Some (length a)"
  using first_divergence_loop_append [of 0 a x] by (simp add: first_divergence_def)

text \<open>Judging from the snapshot of a halted machine executes the halting instruction again.\<close>

lemma halted_chunk:
  assumes "cpu_ok c" and "mem_ok m" and "tohost c = None" and "syscall_log m = []"
    and "allocated_pages m < 2 ^ 31" and "step c m = (StepOk True, c', m')"
  shows "\<exists>m''. restore (capture c' m') = Inr (c', m'') \<and> mem_eq m'' m' \<and>
               execute_chunk_from blake3 (capture c' m') h cs =
                 Some (Inr (ChunkOk (state_hash blake3 h c' m') ChunkHalted 1))"
proof -
  have e: "c' = c" "mem_eq m' m" using step_mode_halt assms(2,6) by (auto simp: step_def)
  have m': "mem_ok m'" "allocated_pages m' < 2 ^ 31" "syscall_log m' = []"
    using e(2) assms(4,5) by (simp_all add: mem_eq_def allocated_pages_iter)
  have "c\<lparr>tohost := None\<rparr> = c" "m'\<lparr>syscall_log := []\<rparr> = m'"
    using assms(3) m'(3) by (auto intro: cpu.equality mem.equality)
  then obtain m'' where r: "restore (capture c' m') = Inr (c', m'')" "mem_eq m'' m'"
    using restore_capture [OF assms(1) m'(1,2)] e(1) by auto
  obtain res c1 n1 n2 where s: "step c m'' = (res, c1, n1)" "step c m = (res, c1, n2)" "mem_eq n1 n2"
    using step_pair [OF assms(1) mem_eq_trans [OF r(2) e(2)]] .
  then have "res = StepOk True" "c1 = c'" "mem_eq n1 m'" using assms(6) by simp_all
  then have "chunk_loop blake3 h cs c' m'' 0 0 = Some (ChunkOk (state_hash blake3 h c' m') ChunkHalted 1)"
    using chunk_loop.simps [of blake3 h cs c' m'' 0 0] s(1) e(1) state_hash_cong [OF arch_eq_refl]
    by simp
  then show ?thesis using r by (simp add: execute_chunk_from_def)
qed

section \<open>Properties\<close>

text \<open>
  C2: The honest side of a dispute wins, whatever snapshot files the judge is shown. One party
  committed the chain of the job's real run, the other a chain that differs from it inside that
  run. The verdict names the honest party at the first divergence, on the snapshot path and on the
  replay path alike, or one of the files is, with a state of the job, an explicit BLAKE3
  collision. The job ends by itself, traps into no handler, and files are below \<open>2^43\<close> bytes.
\<close>

theorem honest_side_wins:
  assumes "\<forall>x. length (blake3 x) = 32" and "0 < di_chunk_size inp"
    and "replay blake3 (di_elf inp) (di_entry inp) (di_input inp) (di_chunk_size inp)
           (di_max_instructions inp) = Ret (Some out)"
    and "status out \<noteq> InstructionLimit"
    and "handler_free blake3 (di_elf inp) (di_entry inp) (di_input inp)
           (judge_config (di_chunk_size inp) (di_max_instructions inp))"
    and "wr_chunk_hashes honest = map to_hex (chunk_hashes out)"
    and "decode_chain (wr_chunk_hashes other) = Some (Inr b)"
    and "first_divergence (chunk_hashes out) b = Some k" and "k < length (chunk_hashes out)"
    and "\<forall>p bs. os_read os fs p = Inr bs \<longrightarrow> length bs < 2 ^ 43"
  shows "(di_claim inp = honest \<and> di_counter inp = other \<longrightarrow>
            resolve os blake3 fs inp = Ret (ClaimHonest k) \<or> snapshot_collision os blake3 fs inp) \<and>
         (di_claim inp = other \<and> di_counter inp = honest \<longrightarrow>
            resolve os blake3 fs inp = Ret (CounterHonest k) \<or> snapshot_collision os blake3 fs inp)"
proof -
  let ?h = "chunk_hashes out"
  note d = first_divergence_SomeD [OF assms(8)]
  have hx: "decode_chain (wr_chunk_hashes honest) = Some (Inr ?h)"
    unfolding assms(6) using replay_hash_lengths [OF _ assms(3)] assms(1) by (intro decode_chain_to_hex) auto
  have t: "judge_truth os blake3 fs inp a k = Ret (Some (?h ! k)) \<or> snapshot_collision os blake3 fs inp"
    if "a \<in> {?h, b}" for a
    using that d assms(1,10) by (intro judge_truth_is_replay [OF _ assms(2-5,9)]) auto
  have ne: "?h \<noteq> b" using d(4) by auto
  have "lget ?h k = Some (?h ! k)" using assms(9) by (simp add: lget_def)
  then have "verdict_with_truth ?h b k (Some (?h ! k)) = ClaimHonest k \<and>
             verdict_with_truth b ?h k (Some (?h ! k)) = CounterHonest k"
    using d(4) by (simp add: verdict_with_truth_def)
  moreover have "first_divergence b ?h = Some k" using assms(8) by (simp add: first_divergence_commute)
  ultimately show ?thesis
    using t [of ?h] t [of b] hx assms(7,8) ne by (auto simp: resolve_def)
qed

text \<open>A job whose first instruction is the reserved all-zero word.\<close>

lemma write_keeps_page0:
  assumes "mem_ok m" and "pages m 0 = None" and "4096 \<le> unat a" and "unat a + length bs \<le> 2 ^ 32"
  obtains m' where "mem_write m a bs = (Inr (), m')" and "mem_ok m'" and "pages m' 0 = None"
proof -
  have "mem_write m a bs = (Inr (), snd (mem_write m a bs))"
    using assms(1,4) by (intro prod_eqI) (simp_all add: rv_mem.wr_result)
  moreover have "mem_ok (snd (mem_write m a bs))" "pages (snd (mem_write m a bs)) 0 = None"
    using rv_mem.wr_state [OF assms(1), of a bs] assms(2-4) pwrites_page [of a bs 0 "pages m"] by simp_all
  ultimately show ?thesis by (rule that)
qed

lemma demo_replay:
  obtains out h where "replay blake3 demo_elf 0 [] 1 2 = Ret (Some out)"
    and "status out = Trapped (IllegalInstruction 0 0)" and "chunk_hashes out = [h]"
    and "handler_free blake3 demo_elf 0 [] (judge_config 1 2)"
proof -
  let ?cfg = "judge_config 1 2" and ?c = "cpu_new 0 STACK_TOP"
  obtain m where l: "mem_write mem_new 0x1000 [1, 2, 3, 4] = (Inr (), m)" "mem_ok m" "pages m 0 = None"
    by (rule write_keeps_page0 [OF mem_ok_new, where a = "0x1000" and bs = "[1, 2, 3, 4]"]) (simp_all add: mem_new_empty)
  obtain m1 where w1: "mem_write m INPUT_LEN_ADDR (le_bytes 8 (0 :: u64)) = (Inr (), m1)"
    "mem_ok m1" "pages m1 0 = None"
    by (rule write_keeps_page0 [OF l(2,3), where a = INPUT_LEN_ADDR and bs = "le_bytes 8 (0 :: u64)"]) (simp_all add: INPUT_LEN_ADDR_def)
  obtain m2 where w2: "mem_write m1 INPUT_DATA_ADDR [] = (Inr (), m2)" "mem_ok m2" "pages m2 0 = None"
    by (rule write_keeps_page0 [OF w1(2,3), where a = INPUT_DATA_ADDR and bs = "[]"]) (simp_all add: INPUT_DATA_ADDR_def)
  have ld: "load mem_new demo_image = (Inr (), m)"
    using l(1) by (simp add: load_def demo_image_def load_image_def)
  have s: "step_mode ?c m2 sys th = (StepErr (IllegalInstruction 0 0), ?c, snd (mem_read m2 0 2))" for sys th
    by (rule step_on_zeros [OF w2(2,3)]) (simp add: cpu_new_def)
  have mt: "mtvec ?c = 0" by (simp add: cpu_new_def)
  obtain st h where it: "run_iter blake3 ?cfg (run_start ?c m2) = Break (Trapped (IllegalInstruction 0 0)) st"
    and ch: "rs_chain st = [h]"
    using s mt by (simp add: run_iter_def run_start_def run_dispatch_def)
  have rl: "run_loop blake3 ?cfg (run_start ?c m2) = RunDone (Trapped (IllegalInstruction 0 0), st)"
    using run_loop.simps [of blake3 ?cfg "run_start ?c m2"] it by simp
  have r: "run blake3 m 0 [] ?cfg = RunDone (finish_run (Trapped (IllegalInstruction 0 0)) st, st)"
    using w1(1) w2(1) rl by (simp add: run_def)
  have "replay blake3 demo_elf 0 [] 1 2 = Ret (Some (finish_run (Trapped (IllegalInstruction 0 0)) st))"
    using demo_elf_parses ld r by (simp add: replay_def)
  moreover have "handler_free blake3 demo_elf 0 [] ?cfg"
  proof -
    have "rs_cpu st' = ?c \<and> rs_mem st' = m2" if "run_iters blake3 ?cfg j (run_start ?c m2) = Continue st'" for j st'
      using that it by (cases j) (auto simp: run_start_def)
    then have js: "rs_cpu st' = ?c \<and> rs_mem st' = m2" if "st' \<in> job_states blake3 demo_elf 0 [] ?cfg" for st'
      using that demo_elf_parses ld w1(1) w2(1) unfolding job_states_def by auto
    show ?thesis
      unfolding handler_free_def
    proof (intro ballI allI impI)
      fix st' t c m
      assume "st' \<in> job_states blake3 demo_elf 0 [] ?cfg" and "step (rs_cpu st') (rs_mem st') = (StepErr t, c, m)"
      then show "mtvec c = 0" using js [of st'] s mt by (simp add: step_def)
    qed
  qed
  ultimately show ?thesis using ch
    by (intro that [of "finish_run (Trapped (IllegalInstruction 0 0)) st" h]) (simp_all add: finish_run_def)
qed

theorem honest_side_wins_witness:
  "\<exists>out. replay pad32 demo_elf 0 [] 1 2 = Ret (Some out) \<and>
     resolve disk pad32 Map.empty
       \<lparr>di_claim = demo_result\<lparr>wr_chunk_hashes := map to_hex (chunk_hashes out)\<rparr>,
        di_counter = demo_result\<lparr>wr_chunk_hashes := []\<rparr>, di_elf = demo_elf, di_entry = 0,
        di_input = [], di_chunk_size = 1, di_max_instructions = 2, di_snapshot_dir = Some ''snaps''\<rparr> =
     Ret (ClaimHonest 0)"
proof -
  obtain out h0 where r: "replay pad32 demo_elf 0 [] 1 2 = Ret (Some out)"
    and s: "status out = Trapped (IllegalInstruction 0 0)" and c: "chunk_hashes out = [h0]"
    and h: "handler_free pad32 demo_elf 0 [] (judge_config 1 2)" using demo_replay .
  let ?honest = "demo_result\<lparr>wr_chunk_hashes := map to_hex (chunk_hashes out)\<rparr>"
  let ?other = "demo_result\<lparr>wr_chunk_hashes := []\<rparr>"
  let ?inp = "\<lparr>di_claim = ?honest, di_counter = ?other, di_elf = demo_elf, di_entry = 0,
        di_input = [], di_chunk_size = 1, di_max_instructions = 2, di_snapshot_dir = Some ''snaps''\<rparr>"
  have d: "first_divergence [h0] [] = Some 0" by (simp add: first_divergence_def lget_def)
  have e: "os_read disk Map.empty p = Inl ()" for p by (simp add: disk_def)
  have "\<not> snapshot_collision disk pad32 Map.empty ?inp" by (simp add: snapshot_collision_def e)
  moreover have "(di_claim ?inp = ?honest \<and> di_counter ?inp = ?other \<longrightarrow>
      resolve disk pad32 Map.empty ?inp = Ret (ClaimHonest 0) \<or> snapshot_collision disk pad32 Map.empty ?inp) \<and>
    (di_claim ?inp = ?other \<and> di_counter ?inp = ?honest \<longrightarrow>
      resolve disk pad32 Map.empty ?inp = Ret (CounterHonest 0) \<or> snapshot_collision disk pad32 Map.empty ?inp)"
    by (rule honest_side_wins [where out = out and b = "[]"]) (simp_all add: pad32_demo(4) r s h d c e)
  ultimately have "resolve disk pad32 Map.empty ?inp = Ret (ClaimHonest 0)"
    unfolding dispute_input.select_convs by blast
  then show ?thesis using r by blast
qed

text \<open>
  C17: A dispute is always decided or aborted, never undecided forever: with a positive chunk size
  every path of the judge returns, whatever the chains, the snapshot files and the program.
\<close>

theorem resolve_returns:
  assumes "0 < di_chunk_size inp"
  shows "resolve os blake3 fs inp = Panics \<or> (\<exists>v. resolve os blake3 fs inp = Ret v)"
  using resolve_not_Diverges [OF assms, of os blake3 fs] by (cases "resolve os blake3 fs inp") simp_all

theorem resolve_returns_witness:
  "resolve disk pad32 Map.empty
     \<lparr>di_claim = demo_result\<lparr>wr_chunk_hashes := []\<rparr>, di_counter = demo_result\<lparr>wr_chunk_hashes := []\<rparr>,
      di_elf = [], di_entry = 0, di_input = [], di_chunk_size = 1, di_max_instructions = 2,
      di_snapshot_dir = None\<rparr> = Ret Agreement"
proof -
  let ?inp = "\<lparr>di_claim = demo_result\<lparr>wr_chunk_hashes := []\<rparr>, di_counter = demo_result\<lparr>wr_chunk_hashes := []\<rparr>,
      di_elf = [], di_entry = 0, di_input = [], di_chunk_size = 1, di_max_instructions = 2,
      di_snapshot_dir = None\<rparr>"
  have "resolve disk pad32 Map.empty ?inp = Panics \<or> (\<exists>v. resolve disk pad32 Map.empty ?inp = Ret v)"
    by (rule resolve_returns) simp
  then show ?thesis by (simp add: resolve_def)
qed

text \<open>
  C38: A chain padded after a halt wins on the snapshot path. The claim is the chain of a run that
  halted; the counter is the same chain with one more entry, the final state hashed again. Given
  the snapshot the honest run wrote at its halt, the judge executes the halting instruction once
  more, gets the padding's hash, and names the padding party honest.
\<close>

theorem padded_chain_wins_by_snapshot:
  assumes "cpu_ok c" and "mem_ok m" and "tohost c = None" and "syscall_log m = []"
    and "allocated_pages m < 2 ^ 31" and "step c m = (StepOk True, c', m')"
    and "\<forall>x. length (blake3 x) = 32" and "\<forall>d \<in> set as. length d = 32"
    and "a = as @ [state_hash blake3 (last (GENESIS # as)) c' m']"
    and "wr_chunk_hashes (di_claim inp) = map to_hex a"
    and "wr_chunk_hashes (di_counter inp) = map to_hex (a @ [state_hash blake3 (last a) c' m'])"
    and "di_snapshot_dir inp = Some d"
    and "os_read os fs (join d (snap_name (length as))) = Inr (capture c' m')"
  shows "resolve os blake3 fs inp = Ret (CounterHonest (length a))"
proof -
  let ?h = "last a" and ?x = "state_hash blake3 (last a) c' m'"
  obtain m'' where r: "restore (capture c' m') = Inr (c', m'')" "mem_eq m'' m'"
    and ex: "execute_chunk_from blake3 (capture c' m') ?h (di_chunk_size inp) = Some (Inr (ChunkOk ?x ChunkHalted 1))"
    using halted_chunk [OF assms(1-6)] by blast
  have sh: "length (state_hash blake3 p q n) = 32" for p q n using assms(7) by (simp add: state_hash_bytes)
  have dec: "decode_chain (map to_hex a) = Some (Inr a)"
    "decode_chain (map to_hex (a @ [?x])) = Some (Inr (a @ [?x]))"
    using assms(8) sh by (intro decode_chain_to_hex; auto simp: assms(9))+
  have k: "length a = Suc (length as)" "a ! length as = ?h" using assms(9) by simp_all
  have p: "(if Suc (length as) = 1 then GENESIS else a ! (Suc (length as) - 2)) = last (GENESIS # as)"
    using assms(9) by (cases as rule: rev_cases) (simp_all add: nth_append)
  have "state_hash blake3 (last (GENESIS # as)) c' m'' = ?h"
    using state_hash_cong [OF arch_eq_refl r(2)] assms(9) by simp
  then have "judge_by_snapshot os blake3 fs d (length a) a (di_chunk_size inp) = Ret (Some ?x)"
    unfolding judge_by_snapshot_def k(1) p using assms(13) r(1) ex k by simp
  then have "judge_truth os blake3 fs inp a (length a) = Ret (Some ?x)"
    using assms(12) by (simp add: judge_truth_def)
  moreover have "verdict_with_truth a (a @ [?x]) (length a) (Some ?x) = CounterHonest (length a)"
    by (simp add: verdict_with_truth_def lget_def)
  ultimately show ?thesis
    unfolding resolve_def assms(10,11) dec using first_divergence_append [of a ?x] by simp
qed

text \<open>The two bytes of \<open>c.ebreak\<close> at address 0: a program that halts at once.\<close>

definition halt_mem :: mem where
  "halt_mem = insert_page mem_new 0 ([0x02, 0x90] @ replicate 4094 0)"

lemma halt_mem_ok: "mem_ok halt_mem \<and> syscall_log halt_mem = [] \<and> allocated_pages halt_mem < 2 ^ 31"
  using insert_page_correct [OF mem_ok_new, of "[0x02, 0x90] @ replicate 4094 0" 0]
  by (simp add: halt_mem_def mem_new_empty) (simp add: insert_page_def mem_new_def allocated_pages_def Let_def)

lemma step_halts:
  obtains m' where "step (cpu_new 0 0) halt_mem = (StepOk True, cpu_new 0 0, m')"
proof -
  let ?m = halt_mem and ?c = "cpu_new 0 0"
  have "pages ?m 0 = Some ([0x02, 0x90] @ replicate 4094 0)"
    using insert_page_correct [OF mem_ok_new, of "[0x02, 0x90] @ replicate 4094 0" 0]
    by (simp add: halt_mem_def mem_new_empty)
  then have "preads (pages ?m) 0 2 = [0x02, 0x90]" unfolding preads_two by (simp add: pbyte_def)
  then have "fst (mem_read ?m 0 2) = Inr 0x9002" using halt_mem_ok by (simp add: rv_mem.rd_result)
  then have "step ?c ?m = (StepOk True, ?c, snd (mem_read ?m 0 2))"
    by (simp add: step_def step_mode_def ADDR_SPACE_def Let_def case_prod_unfold step_c_def step_c_q2_def
        step_c_jr_mv_add_def c_f3_def c_rd_def c_rs2_def cpu_new_def)
  then show ?thesis by (rule that)
qed

theorem padded_chain_wins_by_snapshot_witness:
  "\<exists>c m h fs. h = state_hash pad32 GENESIS c m \<and>
     resolve disk pad32 fs
       \<lparr>di_claim = demo_result\<lparr>wr_chunk_hashes := map to_hex [h]\<rparr>,
        di_counter = demo_result\<lparr>wr_chunk_hashes := map to_hex [h, state_hash pad32 h c m]\<rparr>,
        di_elf = [], di_entry = 0, di_input = [], di_chunk_size = 8, di_max_instructions = 8,
        di_snapshot_dir = Some ''snaps''\<rparr> = Ret (CounterHonest 1)"
proof -
  obtain m where s: "step (cpu_new 0 0) halt_mem = (StepOk True, cpu_new 0 0, m)" using step_halts .
  let ?c = "cpu_new 0 0"
  let ?h = "state_hash pad32 GENESIS ?c m"
  let ?fs = "[join ''snaps'' (snap_name 0) \<mapsto> capture ?c m]"
  let ?inp = "\<lparr>di_claim = demo_result\<lparr>wr_chunk_hashes := map to_hex [?h]\<rparr>,
        di_counter = demo_result\<lparr>wr_chunk_hashes := map to_hex [?h, state_hash pad32 ?h ?c m]\<rparr>,
        di_elf = [], di_entry = 0, di_input = [], di_chunk_size = 8, di_max_instructions = 8,
        di_snapshot_dir = Some ''snaps''\<rparr>"
  have th: "tohost ?c = None" by (simp add: cpu_new_def)
  have f: "os_read disk ?fs (join ''snaps'' (snap_name 0)) = Inr (capture ?c m)" by (simp add: disk_def)
  have "resolve disk pad32 ?fs ?inp = Ret (CounterHonest (length [?h]))"
    by (rule padded_chain_wins_by_snapshot [where as = "[]" and inp = ?inp, OF cpu_ok_new _ th _ _ s])
      (use halt_mem_ok f pad32_demo(4) in simp_all)
  then show ?thesis by (intro exI [of _ ?c] exI [of _ m] exI [of _ ?h] exI [of _ ?fs]) simp
qed

lemma load_segments_mem_ok: "mem_ok m \<Longrightarrow> mem_ok (snd (load_segments m segs))"
proof (induction segs arbitrary: m)
  case (Cons seg segs)
  then show ?case
    using rv_mem.wr_state [OF Cons.prems, of "fst seg" "snd seg"]
    by (cases seg) (auto simp: load_image_def split: prod.splits sum.splits)
qed simp

lemma read_region_length: "read_region m a n = Inr bs \<Longrightarrow> length bs = n"
  by (auto simp: read_region_def split: if_splits option.splits)

lemma finish_run_output:
  assumes "run_output (finish_run e st) = Some bs"
  shows "status (finish_run e st) = Halted" and "length bs \<le> unat OUTPUT_MAX"
  using assms
  by (auto simp: finish_run_def Let_def case_prod_unfold not_less word_le_nat_alt dest!: read_region_length split: if_splits sum.splits)

text \<open>
  C16: A finished run of a loaded job is well typed, whatever the program did. The machine still
  has 32 registers with \<open>x0\<close> zero, the memory is a well-formed page table, every hash of the
  chain is a 32-byte digest, and output exists only for a halted job and is at most 1 MiB.
\<close>

theorem job_outcome_well_typed:
  assumes "\<forall>x. length (blake3 x) = 32" and "load mem_new img = (Inr (), m)"
    and "run blake3 m entry input cfg = RunDone (out, st)"
  shows "cpu_ok (rs_cpu st) \<and> mem_ok (rs_mem st) \<and> (\<forall>d \<in> set (chunk_hashes out). length d = 32) \<and>
         (\<forall>bs. run_output out = Some bs \<longrightarrow> status out = Halted \<and> length bs \<le> 2 ^ 20)"
proof -
  have m: "mem_ok m" using load_segments_mem_ok [OF mem_ok_new, of "segments img"] assms(2) by (simp add: load_def)
  obtain m0 e where m0: "mem_ok m0" and l: "run_loop blake3 cfg (run_start (cpu_new entry STACK_TOP) m0) = RunDone (e, st)"
    and o: "out = finish_run e st" using run_cases [OF assms(3) m] .
  have "run_inv blake3 st" using run_loop_inv [OF run_inv_start [OF cpu_ok_new m0] l] .
  moreover have "set (rs_chain st) \<subseteq> range blake3" using run_loop_range [OF l] by (simp add: run_start_def)
  moreover have "set (chunk_hashes out) \<subseteq> set (rs_chain st)"
    unfolding o using finish_run_chain [of e st] by (auto dest: in_set_butlastD)
  moreover have "unat OUTPUT_MAX = 2 ^ 20" by (simp add: OUTPUT_MAX_def)
  ultimately show ?thesis using assms(1) finish_run_output [of e st] by (auto simp: run_inv_def o)
qed

theorem job_outcome_well_typed_witness:
  "\<exists>m out st. load mem_new demo_image = (Inr (), m) \<and> run pad32 m 0 [] (judge_config 1 2) = RunDone (out, st) \<and>
     cpu_ok (rs_cpu st) \<and> mem_ok (rs_mem st)"
proof -
  obtain out h where "replay pad32 demo_elf 0 [] 1 2 = Ret (Some out)" using demo_replay .
  then obtain m st where "load mem_new demo_image = (Inr (), m)" "run pad32 m 0 [] (judge_config 1 2) = RunDone (out, st)"
    by (auto simp: replay_def demo_elf_parses split: sum.splits prod.splits run_res.splits)
  then show ?thesis using job_outcome_well_typed [of pad32] pad32_demo(4) by blast
qed

end
