(* ===== verification/Optimistic.thy ===== *)
theory Optimistic
  imports Dispute
begin

text \<open>
  Optimistic acceptance (\<open>crates/coordinator/src/optimistic.rs\<close>): a submitted result waits until
  its challenge window closes or a challenge takes it to the dispute game. The clock is the
  caller's: every event comes with the judgement whether the window is open. Main results: the
  first decisive event settles the state for good, and the recorded text names the verdict.
\<close>

section \<open>Operations\<close>

text \<open>\<open>{verdict:?}\<close>, the derived Debug text.\<close>

definition debug_field :: "string \<Rightarrow> nat \<Rightarrow> string" where
  "debug_field name k = name @ '' { first_divergence: '' @ dec_nat k @ '' }''"

definition chain_error_text :: "chain_error \<Rightarrow> string" where
  "chain_error_text e =
     (case e of
        BadHashLength n \<Rightarrow> ''bad hash length '' @ dec_nat n
      | BadHexAt i \<Rightarrow> ''bad hex at byte '' @ dec_nat i)"

definition malformed_text :: "malformed_reason \<Rightarrow> string" where
  "malformed_text r =
     (case r of
        BadChain e \<Rightarrow> chain_error_text e
      | NoHash \<Rightarrow> ''judge produced no hash at the divergence'')"

definition debug_verdict :: "verdict \<Rightarrow> string" where
  "debug_verdict v =
     (case v of
        Agreement \<Rightarrow> ''Agreement''
      | ClaimHonest k \<Rightarrow> debug_field ''ClaimHonest'' k
      | CounterHonest k \<Rightarrow> debug_field ''CounterHonest'' k
      | BothDishonest k \<Rightarrow> debug_field ''BothDishonest'' k
      | MalformedVerdict r \<Rightarrow> ''Malformed('' @ [CHR 0x22] @ malformed_text r @ [CHR 0x22] @ '')'')"

datatype opt_state = Awaiting | Accepted string | Disputed string

datatype opt_event = Challenge verdict | Expire string

datatype opt_error = NotExpiredYet | TooLate | TerminalState opt_state

definition transition :: "opt_state \<Rightarrow> opt_event \<Rightarrow> bool \<Rightarrow> opt_error + opt_state" where
  "transition st ev window_open =
     (case (st, ev) of
        (Awaiting, Expire h) \<Rightarrow> if window_open then Inl NotExpiredYet else Inr (Accepted h)
      | (Awaiting, Challenge v) \<Rightarrow>
          if \<not> window_open then Inl TooLate else Inr (Disputed (debug_verdict v))
      | _ \<Rightarrow> Inl (TerminalState st))"

definition expire :: "opt_state \<Rightarrow> string \<Rightarrow> opt_error + opt_state" where
  "expire st h = (case st of Awaiting \<Rightarrow> Inr (Accepted h) | _ \<Rightarrow> Inl (TerminalState st))"

section \<open>Sequences of events\<close>

text \<open>A caller keeps its state when an event is refused.\<close>

definition opt_step :: "opt_state \<Rightarrow> opt_event \<times> bool \<Rightarrow> opt_state" where
  "opt_step st e = (case transition st (fst e) (snd e) of Inl _ \<Rightarrow> st | Inr st' \<Rightarrow> st')"

definition decisive :: "opt_event \<times> bool \<Rightarrow> bool" where
  "decisive e = (case fst e of Expire _ \<Rightarrow> \<not> snd e | Challenge _ \<Rightarrow> snd e)"

fun outcome_of :: "opt_event \<Rightarrow> opt_state" where
  "outcome_of (Expire h) = Accepted h"
| "outcome_of (Challenge v) = Disputed (debug_verdict v)"

lemma opt_step_terminal: "st \<noteq> Awaiting \<Longrightarrow> foldl opt_step st es = st"
  by (induction es) (auto simp: opt_step_def transition_def split: opt_state.split)

lemma opt_step_Awaiting: "opt_step Awaiting e = (if decisive e then outcome_of (fst e) else Awaiting)"
  by (cases "fst e") (auto simp: opt_step_def transition_def decisive_def)

lemma outcome_terminal [simp]: "outcome_of ev \<noteq> Awaiting"
  by (cases ev) auto

lemma dec_nat_chars: "c \<in> set (dec_nat n) \<Longrightarrow> (of_char c :: nat) \<in> {48..57}"
proof (induction n rule: dec_nat.induct)
  case (1 n)
  then show ?case by (cases "n < 10") (auto simp: dec_nat.simps [of n])
qed

definition undec :: "string \<Rightarrow> nat" where
  "undec s = foldl (\<lambda>a c. a * 10 + (of_char c - 48)) 0 s"

lemma undec_dec [simp]: "undec (dec_nat n) = n"
proof (induction n rule: dec_nat.induct)
  case (1 n)
  then show ?case by (cases "n < 10") (auto simp: dec_nat.simps [of n] undec_def)
qed

lemma dec_nat_inject [simp]: "dec_nat m = dec_nat n \<longleftrightarrow> m = n"
  by (metis undec_dec)

lemma debug_verdict_inject: "debug_verdict v = debug_verdict w \<longleftrightarrow> v = w"
  by (cases v; cases w)
    (auto simp: debug_verdict_def debug_field_def malformed_text_def chain_error_text_def
      split: malformed_reason.splits chain_error.splits)

section \<open>Properties\<close>

text \<open>
  The first decisive event settles the outcome for good. From the awaiting state, after any
  sequence of events, the result is accepted with the hash of the first expiry after the window
  closed, or disputed with the verdict of the first challenge inside the window, whichever came
  first; events before it are refused and events after it change nothing. The expiry wrapper is
  the expiry event after the window.
\<close>

theorem first_decisive_event_settles:
  "foldl opt_step Awaiting es =
     (case find decisive es of None \<Rightarrow> Awaiting | Some e \<Rightarrow> outcome_of (fst e)) \<and>
   expire st h = transition st (Expire h) False"
proof
  show "foldl opt_step Awaiting es =
     (case find decisive es of None \<Rightarrow> Awaiting | Some e \<Rightarrow> outcome_of (fst e))"
    by (induction es) (simp_all add: opt_step_Awaiting opt_step_terminal)
  show "expire st h = transition st (Expire h) False"
    by (cases st) (simp_all add: expire_def transition_def)
qed

text \<open>
  The text a dispute leaves behind identifies its verdict: two challenges give the same
  disputed state only if their verdicts are equal, divergence index and error included.
\<close>

theorem disputed_text_names_verdict:
  assumes "transition st1 (Challenge v) w1 = Inr s" and "transition st2 (Challenge w) w2 = Inr s"
  shows "v = w"
  using assms by (auto simp: transition_def debug_verdict_inject split: opt_state.splits if_splits)

theorem disputed_text_names_verdict_witness:
  "transition Awaiting (Challenge (ClaimHonest 12)) True \<noteq> transition Awaiting (Challenge (ClaimHonest 1)) True"
proof
  assume e: "transition Awaiting (Challenge (ClaimHonest 12)) True = transition Awaiting (Challenge (ClaimHonest 1)) True"
  obtain s where s: "transition Awaiting (Challenge (ClaimHonest 12)) True = Inr s"
    by (simp add: transition_def)
  show False using disputed_text_names_verdict [OF s] s e by force
qed

end
