(* ===== verification/Sp1.thy ===== *)
theory Sp1
  imports Zk Optimistic
begin

text \<open>
  The zero-knowledge tier's own programs: the guest that runs the emulator inside the zkVM
  (\<open>sp1-guest/src/bin/sp1-guest-emu.rs\<close>), the judge and the verifier the coordinator spawns
  (\<open>sp1-host/src/bin/zk-judge.rs\<close>, \<open>zk-verify.rs\<close>) and the validation driver
  (\<open>sp1-host/src/bin/emu.rs\<close>). The SP1 SDK, bincode and the file system are parameters; verdicts
  are the records whose JSON text the processes print.
  Main results: the judge's verdict is the local emulator's own result for the job, so its
  decision carries the digest of the replay judge; the verifier accepts only a proof under the
  guest's key whose committed values are bound to the requested job.
\<close>

section \<open>The emulator as a guest\<close>

definition status_code :: "exit_status \<Rightarrow> u32" where
  "status_code s = (case s of Halted \<Rightarrow> 0 | Tohost _ \<Rightarrow> 0 | InstructionLimit \<Rightarrow> 1 | Trapped _ \<Rightarrow> 2)"

definition job_binding :: "(bytes \<Rightarrow> digest) \<Rightarrow> bytes \<Rightarrow> bytes \<Rightarrow> bytes \<Rightarrow> binding" where
  "job_binding blake3 manifest_bytes elf input = (blake3 manifest_bytes, blake3 elf, blake3 input)"

definition output_bytes :: "run_outcome \<Rightarrow> bytes" where
  "output_bytes out = (case run_output out of None \<Rightarrow> [] | Some bs \<Rightarrow> bs)"

record committed =
  cm_binding :: binding
  cm_status :: u32
  cm_instructions :: u64
  cm_chain :: "digest list"
  cm_output :: bytes

text \<open>What the guest commits; \<open>None\<close> is a panic inside the zkVM.\<close>

definition guest_emu ::
    "(bytes \<Rightarrow> digest) \<Rightarrow> (bytes \<Rightarrow> job_manifest option) \<Rightarrow> bytes \<Rightarrow> bytes \<Rightarrow> bytes \<Rightarrow> committed option" where
  "guest_emu blake3 from_json manifest_bytes elf input =
     (case from_json manifest_bytes of
        None \<Rightarrow> None
      | Some manifest \<Rightarrow>
          (case parse elf of
             Some (Inr img) \<Rightarrow>
               (case load mem_new img of
                  (Inr _, m) \<Rightarrow>
                    (case run blake3 m (elf_entry img) input
                            (judge_config (jm_chunk_size manifest) (jm_max_instructions manifest)) of
                       RunPanic \<Rightarrow> None
                     | RunDone (out, _) \<Rightarrow>
                         Some \<lparr>cm_binding = job_binding blake3 manifest_bytes elf input,
                               cm_status = status_code (status out), cm_instructions = instructions out,
                               cm_chain = chunk_hashes out, cm_output = output_bytes out\<rparr>)
                | _ \<Rightarrow> None)
           | _ \<Rightarrow> None))"

section \<open>The SP1 SDK\<close>

text \<open>
  Executing and proving a guest on a sequence of input vectors, the keys of a guest, proofs as
  files, and the typed reads of a buffer of public values (each consumes a prefix; failing to
  deserialise panics).
\<close>

record ('x, 'k, 'p) sdk =
  sdk_execute :: "bytes \<Rightarrow> bytes list \<Rightarrow> 'x + bytes \<times> u64"
  sdk_setup :: "bytes \<Rightarrow> 'x + 'k"
  sdk_prove :: "'k \<Rightarrow> bytes list \<Rightarrow> 'x + 'p"
  sdk_verify :: "'p \<Rightarrow> 'k \<Rightarrow> 'x + unit"
  sdk_public :: "'p \<Rightarrow> bytes"
  sdk_save :: "'p \<Rightarrow> bytes"
  sdk_load :: "bytes \<Rightarrow> 'p option"
  rd_hash :: "bytes \<Rightarrow> (digest \<times> bytes) option"
  rd_binding :: "bytes \<Rightarrow> (binding \<times> bytes) option"
  rd_u32 :: "bytes \<Rightarrow> (u32 \<times> bytes) option"
  rd_u64 :: "bytes \<Rightarrow> (u64 \<times> bytes) option"
  rd_chain :: "bytes \<Rightarrow> (digest list \<times> bytes) option"
  rd_vec :: "bytes \<Rightarrow> (bytes \<times> bytes) option"

definition read_committed :: "('x, 'k, 'p) sdk \<Rightarrow> bytes \<Rightarrow> committed option" where
  "read_committed sdk pv =
     (case rd_binding sdk pv of None \<Rightarrow> None | Some (b, pv) \<Rightarrow>
     (case rd_u32 sdk pv of None \<Rightarrow> None | Some (st, pv) \<Rightarrow>
     (case rd_u64 sdk pv of None \<Rightarrow> None | Some (n, pv) \<Rightarrow>
     (case rd_chain sdk pv of None \<Rightarrow> None | Some (ch, pv) \<Rightarrow>
     (case rd_vec sdk pv of None \<Rightarrow> None | Some (out, pv) \<Rightarrow>
        Some \<lparr>cm_binding = b, cm_status = st, cm_instructions = n, cm_chain = ch, cm_output = out\<rparr>)))))"

text \<open>The public values of a V2 guest: the input's id, then the output.\<close>

definition read_v2 :: "('x, 'k, 'p) sdk \<Rightarrow> bytes \<Rightarrow> (digest \<times> bytes) option" where
  "read_v2 sdk pv =
     (case rd_hash sdk pv of None \<Rightarrow> None | Some (h, pv) \<Rightarrow>
     (case rd_vec sdk pv of None \<Rightarrow> None | Some (out, pv) \<Rightarrow> Some (h, out)))"

section \<open>zk-judge\<close>

record zk_job =
  zb_manifest_bytes :: bytes
  zb_elf :: bytes
  zb_input :: bytes
  zb_chunk_size :: u64
  zb_max_instructions :: u64
  zb_v2 :: bool

datatype ('e, 'x) sp1_error =
    Usage
  | CyclesParse
  | ReadManifest 'e
  | ParseManifest
  | ReadElf 'e
  | ReadInput 'e
  | ReadGuest 'e
  | ExecuteError 'x
  | CycleBound u64 u64
  | InputBinding
  | GuestBinding
  | ElfRejected
  | LoadRejected
  | Disagreement
  | SetupError 'x
  | ProveError 'x
  | ReceiptInvalid 'x
  | ValuesDiffer
  | ReceiptSave 'e
  | BindingArg hex_error
  | ReadReceipt 'e
  | LoadReceipt

definition load_job ::
    "('fs, 'e) os \<Rightarrow> (bytes \<Rightarrow> job_manifest option) \<Rightarrow> 'fs \<Rightarrow> string \<Rightarrow> ('e, 'x) sp1_error + zk_job" where
  "load_job os from_json fs dir =
     (case os_read os fs (join dir ''job.json'') of Inl e \<Rightarrow> Inl (ReadManifest e) | Inr mb \<Rightarrow>
     (case from_json mb of None \<Rightarrow> Inl ParseManifest | Some man \<Rightarrow>
     (case os_read os fs (join dir (jm_elf man)) of Inl e \<Rightarrow> Inl (ReadElf e) | Inr elf \<Rightarrow>
     (case os_read os fs (join dir (jm_input man)) of Inl e \<Rightarrow> Inl (ReadInput e) | Inr input \<Rightarrow>
        Inr \<lparr>zb_manifest_bytes = mb, zb_elf = elf, zb_input = input, zb_chunk_size = jm_chunk_size man,
             zb_max_instructions = jm_max_instructions man, zb_v2 = is_sp1_v2 man\<rparr>))))"

definition job_stdin :: "zk_job \<Rightarrow> bytes list" where
  "job_stdin job =
     (if zb_v2 job then [zb_input job] else [zb_manifest_bytes job, zb_elf job, zb_input job])"

text \<open>
  The committed values of the executed job with the binding they carry: status, instruction
  count, output, binding. The outer \<open>None\<close> is a panic, here and below.
\<close>

definition committed_values ::
    "('x, 'k, 'p) sdk \<Rightarrow> (bytes \<Rightarrow> digest) \<Rightarrow> zk_job \<Rightarrow> bytes \<Rightarrow>
     (('e, 'x) sp1_error + u32 \<times> u64 \<times> bytes \<times> string list) option" where
  "committed_values sdk blake3 job pv =
     (if zb_v2 job
      then (case read_v2 sdk pv of
              None \<Rightarrow> None
            | Some (input_id, output) \<Rightarrow>
                if input_id \<noteq> blake3 (zb_input job) then Some (Inl InputBinding)
                else Some (Inr (0, V2_JOURNAL_COUNT, output, [to_hex (blake3 (zb_input job))])))
      else (case read_committed sdk pv of
              None \<Rightarrow> None
            | Some c \<Rightarrow>
                if cm_binding c \<noteq> job_binding blake3 (zb_manifest_bytes job) (zb_elf job) (zb_input job)
                then Some (Inl GuestBinding)
                else Some (Inr (cm_status c, cm_instructions c, cm_output c,
                       (case cm_binding c of (m, e, i) \<Rightarrow> [to_hex m, to_hex e, to_hex i])))))"

text \<open>The cross-check of a legacy job against the linked emulator.\<close>

definition cross_check ::
    "(bytes \<Rightarrow> digest) \<Rightarrow> zk_job \<Rightarrow> u32 \<Rightarrow> u64 \<Rightarrow> bytes \<Rightarrow> (('e, 'x) sp1_error + unit) option" where
  "cross_check blake3 job st n output =
     (if zb_v2 job then Some (Inr ())
      else
        (case parse (zb_elf job) of
           None \<Rightarrow> None
         | Some (Inl _) \<Rightarrow> Some (Inl ElfRejected)
         | Some (Inr img) \<Rightarrow>
             (case load mem_new img of
                (Inl _, _) \<Rightarrow> Some (Inl LoadRejected)
              | (Inr _, m) \<Rightarrow>
                  (case run blake3 m (elf_entry img) (zb_input job)
                          (judge_config (zb_chunk_size job) (zb_max_instructions job)) of
                     RunPanic \<Rightarrow> None
                   | RunDone (out, _) \<Rightarrow>
                       Some (if status_code (status out) \<noteq> st \<or> instructions out \<noteq> n \<or> output_bytes out \<noteq> output
                             then Inl Disagreement else Inr ())))))"

definition values_match ::
    "('x, 'k, 'p) sdk \<Rightarrow> (bytes \<Rightarrow> digest) \<Rightarrow> zk_job \<Rightarrow> u32 \<Rightarrow> u64 \<Rightarrow> bytes \<Rightarrow> bytes \<Rightarrow> bool option" where
  "values_match sdk blake3 job st n output pv =
     (if zb_v2 job
      then map_option (\<lambda>(h, out). h = blake3 (zb_input job) \<and> out = output) (read_v2 sdk pv)
      else map_option (\<lambda>c. cm_status c = st \<and> cm_instructions c = n \<and> cm_output c = output)
             (read_committed sdk pv))"

text \<open>Step 4: prove the execution, verify the proof, compare its values, save the receipt.\<close>

definition prove_and_save ::
    "('fs, 'e) os \<Rightarrow> ('x, 'k, 'p) sdk \<Rightarrow> (bytes \<Rightarrow> digest) \<Rightarrow> zk_job \<Rightarrow> bytes \<Rightarrow> u32 \<Rightarrow> u64 \<Rightarrow> bytes \<Rightarrow>
     string option \<Rightarrow> 'fs \<Rightarrow> (('e, 'x) sp1_error + 'fs) option" where
  "prove_and_save os sdk blake3 job exec_elf st n output receipt_out fs =
     (case sdk_setup sdk exec_elf of Inl e \<Rightarrow> Some (Inl (SetupError e)) | Inr pk \<Rightarrow>
     (case sdk_prove sdk pk (job_stdin job) of Inl e \<Rightarrow> Some (Inl (ProveError e)) | Inr proof \<Rightarrow>
     (case sdk_verify sdk proof pk of Inl e \<Rightarrow> Some (Inl (ReceiptInvalid e)) | Inr _ \<Rightarrow>
     (case values_match sdk blake3 job st n output (sdk_public sdk proof) of
        None \<Rightarrow> None
      | Some False \<Rightarrow> Some (Inl ValuesDiffer)
      | Some True \<Rightarrow>
          (case receipt_out of
             None \<Rightarrow> Some (Inr fs)
           | Some p \<Rightarrow>
               (case os_write os fs p (sdk_save sdk proof) of
                  Inl e \<Rightarrow> Some (Inl (ReceiptSave e))
                | Inr fs \<Rightarrow> Some (Inr fs)))))))"

definition zk_judge_run ::
    "('fs, 'e) os \<Rightarrow> ('x, 'k, 'p) sdk \<Rightarrow> (bytes \<Rightarrow> digest) \<Rightarrow> (bytes \<Rightarrow> job_manifest option) \<Rightarrow> string \<Rightarrow>
     string \<Rightarrow> u64 \<Rightarrow> string \<Rightarrow> string option \<Rightarrow> 'fs \<Rightarrow> (('e, 'x) sp1_error + judge_verdict \<times> 'fs) option" where
  "zk_judge_run os sdk blake3 from_json secs dir max_cycles guest_path receipt_out fs =
     (case load_job os from_json fs dir of Inl e \<Rightarrow> Some (Inl e) | Inr job \<Rightarrow>
     (case (if zb_v2 job then Inr (zb_elf job) else os_read os fs guest_path) of
        Inl e \<Rightarrow> Some (Inl (ReadGuest e))
      | Inr exec_elf \<Rightarrow>
     (case sdk_execute sdk exec_elf (job_stdin job) of
        Inl e \<Rightarrow> Some (Inl (ExecuteError e))
      | Inr (pv, vm_cycles) \<Rightarrow>
          if vm_cycles > max_cycles then Some (Inl (CycleBound vm_cycles max_cycles)) else
     (case committed_values sdk blake3 job pv of
        None \<Rightarrow> None
      | Some (Inl e) \<Rightarrow> Some (Inl e)
      | Some (Inr (st, n, output, binding_hex)) \<Rightarrow>
     (case cross_check blake3 job st n output of
        None \<Rightarrow> None
      | Some (Inl e) \<Rightarrow> Some (Inl e)
      | Some (Inr _) \<Rightarrow>
     (case prove_and_save os sdk blake3 job exec_elf st n output receipt_out fs of
        None \<Rightarrow> None
      | Some (Inl e) \<Rightarrow> Some (Inl e)
      | Some (Inr fs) \<Rightarrow>
          Some (Inr (\<lparr>jv_ok = True, jv_error = None, jv_status = Some st, jv_instructions = Some n,
                      jv_output_hex = Some (to_hex output), jv_vm_cycles = Some vm_cycles,
                      jv_proving_secs = Some secs, jv_binding = Some binding_hex\<rparr>, fs))))))))"

text \<open>\<open>str::parse::<u64>\<close>: decimal digits after an optional plus sign, refused on overflow.\<close>

definition parse_u64 :: "string \<Rightarrow> u64 option" where
  "parse_u64 s =
     (let d = (if take 1 s = ''+'' then tl s else s)
      in if d = [] \<or> \<not> list_all (\<lambda>c. (of_char c :: nat) \<in> {48..57}) d \<or> 2 ^ 64 \<le> undec d then None
         else Some (of_nat (undec d)))"

definition zk_judge_main ::
    "('fs, 'e) os \<Rightarrow> ('x, 'k, 'p) sdk \<Rightarrow> (bytes \<Rightarrow> digest) \<Rightarrow> (bytes \<Rightarrow> job_manifest option) \<Rightarrow> string \<Rightarrow>
     string list \<Rightarrow> 'fs \<Rightarrow> (('e, 'x) sp1_error + judge_verdict \<times> 'fs) option" where
  "zk_judge_main os sdk blake3 from_json secs args fs =
     (case args of
        [j, m, g] \<Rightarrow>
          (case parse_u64 m of
             None \<Rightarrow> Some (Inl CyclesParse)
           | Some mc \<Rightarrow> zk_judge_run os sdk blake3 from_json secs j mc g None fs)
      | [j, m, g, r] \<Rightarrow>
          (case parse_u64 m of
             None \<Rightarrow> Some (Inl CyclesParse)
           | Some mc \<Rightarrow> zk_judge_run os sdk blake3 from_json secs j mc g (Some r) fs)
      | _ \<Rightarrow> Some (Inl Usage))"

section \<open>zk-verify\<close>

text \<open>The three ids of the command line, decoded in order.\<close>

definition decode_binding :: "string \<Rightarrow> string \<Rightarrow> string \<Rightarrow> ('e, 'x) sp1_error + binding" where
  "decode_binding a b c =
     (case from_hex a 32 of Inl e \<Rightarrow> Inl (BindingArg e) | Inr m \<Rightarrow>
     (case from_hex b 32 of Inl e \<Rightarrow> Inl (BindingArg e) | Inr e \<Rightarrow>
     (case from_hex c 32 of Inl e \<Rightarrow> Inl (BindingArg e) | Inr i \<Rightarrow> Inr (m, e, i))))"

text \<open>The values a receipt reports, checked against the expected binding when there is one.\<close>

definition receipt_values ::
    "('x, 'k, 'p) sdk \<Rightarrow> bool \<Rightarrow> binding option \<Rightarrow> bytes \<Rightarrow>
     (('e, 'x) sp1_error + u32 \<times> u64 \<times> digest list \<times> bytes) option" where
  "receipt_values sdk v2 expected pv =
     (if v2
      then (case rd_hash sdk pv of
              None \<Rightarrow> None
            | Some (h, pv) \<Rightarrow>
                if (case expected of None \<Rightarrow> False | Some (m, e, i) \<Rightarrow> h \<noteq> i) then Some (Inl InputBinding)
                else (case rd_vec sdk pv of
                        None \<Rightarrow> None
                      | Some (out, pv) \<Rightarrow> Some (Inr (0, V2_JOURNAL_COUNT, [], out))))
      else (case rd_binding sdk pv of
              None \<Rightarrow> None
            | Some (b, _) \<Rightarrow>
                if (case expected of None \<Rightarrow> False | Some x \<Rightarrow> b \<noteq> x) then Some (Inl GuestBinding)
                else map_option (\<lambda>c. Inr (cm_status c, cm_instructions c, cm_chain c, cm_output c))
                       (read_committed sdk pv)))"

definition zk_verify_run ::
    "('fs, 'e) os \<Rightarrow> ('x, 'k, 'p) sdk \<Rightarrow> 'fs \<Rightarrow> string \<Rightarrow> string \<Rightarrow> binding option \<Rightarrow> bool \<Rightarrow>
     (('e, 'x) sp1_error + receipt_verdict) option" where
  "zk_verify_run os sdk fs guest_elf receipt_file expected v2 =
     (case os_read os fs receipt_file of Inl e \<Rightarrow> Some (Inl (ReadReceipt e)) | Inr receipt \<Rightarrow>
     (case sdk_load sdk receipt of None \<Rightarrow> Some (Inl LoadReceipt) | Some proof \<Rightarrow>
     (case os_read os fs guest_elf of Inl e \<Rightarrow> Some (Inl (ReadGuest e)) | Inr guest \<Rightarrow>
     (case sdk_setup sdk guest of Inl e \<Rightarrow> Some (Inl (SetupError e)) | Inr pk \<Rightarrow>
     (case receipt_values sdk v2 expected (sdk_public sdk proof) of
        None \<Rightarrow> None
      | Some (Inl e) \<Rightarrow> Some (Inl e)
      | Some (Inr (st, n, chain, output)) \<Rightarrow>
     (case sdk_verify sdk proof pk of
        Inl e \<Rightarrow> Some (Inl (ReceiptInvalid e))
      | Inr _ \<Rightarrow>
          Some (Inr \<lparr>rv_ok = True, rv_error = None, rv_status = Some st, rv_instructions = Some n,
                     rv_chain = Some (map to_hex chain), rv_output_hex = Some (to_hex output)\<rparr>)))))))"

definition zk_verify_main ::
    "('fs, 'e) os \<Rightarrow> ('x, 'k, 'p) sdk \<Rightarrow> string list \<Rightarrow> 'fs \<Rightarrow> (('e, 'x) sp1_error + receipt_verdict) option" where
  "zk_verify_main os sdk args fs =
     (let v2 = (''--v2'' \<in> set args)
      in (case filter (\<lambda>a. a \<noteq> ''--v2'') args of
            [g, r] \<Rightarrow> zk_verify_run os sdk fs g r None v2
          | [g, r, a, b, c] \<Rightarrow>
              (case decode_binding a b c of
                 Inl e \<Rightarrow> Some (Inl e)
               | Inr x \<Rightarrow> zk_verify_run os sdk fs g r (Some x) v2)
          | _ \<Rightarrow> Some (Inl Usage)))"

section \<open>The validation driver\<close>

text \<open>The job run by the linked emulator; every failure panics.\<close>

definition local_reference ::
    "(bytes \<Rightarrow> digest) \<Rightarrow> (bytes \<Rightarrow> job_manifest option) \<Rightarrow> bytes \<Rightarrow> bytes \<Rightarrow> bytes \<Rightarrow>
     (u32 \<times> u64 \<times> digest list \<times> bytes) option" where
  "local_reference blake3 from_json manifest_bytes elf input =
     (case from_json manifest_bytes of
        None \<Rightarrow> None
      | Some manifest \<Rightarrow>
          (case parse elf of
             Some (Inr img) \<Rightarrow>
               (case load mem_new img of
                  (Inr _, m) \<Rightarrow>
                    (case run blake3 m (elf_entry img) input
                            (judge_config (jm_chunk_size manifest) (jm_max_instructions manifest)) of
                       RunPanic \<Rightarrow> None
                     | RunDone (out, _) \<Rightarrow>
                         Some (status_code (status out), instructions out, chunk_hashes out, output_bytes out))
                | _ \<Rightarrow> None)
           | _ \<Rightarrow> None))"

text \<open>The assertions made on the public values, in each of the three modes.\<close>

definition assert_committed ::
    "('x, 'k, 'p) sdk \<Rightarrow> (bytes \<Rightarrow> digest) \<Rightarrow> bytes \<Rightarrow> bytes \<Rightarrow> bytes \<Rightarrow>
     u32 \<times> u64 \<times> digest list \<times> bytes \<Rightarrow> bytes \<Rightarrow> bool" where
  "assert_committed sdk blake3 manifest_bytes elf input ref pv =
     (case ref of (st, n, chain, output) \<Rightarrow>
        (case read_committed sdk pv of
           None \<Rightarrow> False
         | Some c \<Rightarrow>
             cm_binding c = job_binding blake3 manifest_bytes elf input \<and> cm_status c = st \<and>
             cm_instructions c = n \<and> cm_chain c = chain \<and> cm_output c = output))"

text \<open>
  The driver: arguments are the mode, the job directory, the receipt and the guest. \<open>None\<close> is any
  failed \<open>expect\<close> or assertion; a result is the file system after the run passed.
\<close>

definition arg_or :: "string list \<Rightarrow> nat \<Rightarrow> string \<Rightarrow> string" where
  "arg_or args k d = (if k < length args then args ! k else d)"

definition emu_verify ::
    "('fs, 'e) os \<Rightarrow> ('x, 'k, 'p) sdk \<Rightarrow> string \<Rightarrow> string \<Rightarrow> (bytes \<Rightarrow> bool) \<Rightarrow> 'fs \<Rightarrow> 'fs option" where
  "emu_verify os sdk receipt_path guest_path check fs =
     (case (os_read os fs receipt_path, os_read os fs guest_path) of
        (Inr receipt, Inr guest) \<Rightarrow>
          (case (sdk_load sdk receipt, sdk_setup sdk guest) of
             (Some proof, Inr pk) \<Rightarrow>
               if check (sdk_public sdk proof) \<and> sdk_verify sdk proof pk = Inr () then Some fs else None
           | _ \<Rightarrow> None)
      | _ \<Rightarrow> None)"

definition emu_execute ::
    "('x, 'k, 'p) sdk \<Rightarrow> bytes \<Rightarrow> bytes list \<Rightarrow> (bytes \<Rightarrow> bool) \<Rightarrow> 'fs \<Rightarrow> 'fs option" where
  "emu_execute sdk guest stdin check fs =
     (case sdk_execute sdk guest stdin of
        Inl _ \<Rightarrow> None
      | Inr (pv, vm_cycles) \<Rightarrow> if check pv then Some fs else None)"

definition emu_prove ::
    "('fs, 'e) os \<Rightarrow> ('x, 'k, 'p) sdk \<Rightarrow> bytes \<Rightarrow> 'k \<Rightarrow> bytes list \<Rightarrow> (bytes \<Rightarrow> bool) \<Rightarrow> 'fs \<Rightarrow> 'fs option" where
  "emu_prove os sdk guest pk stdin check fs =
     (case sdk_prove sdk pk stdin of
        Inl _ \<Rightarrow> None
      | Inr proof \<Rightarrow>
          if \<not> (check (sdk_public sdk proof) \<and> sdk_verify sdk proof pk = Inr ()) then None
          else
            (let fs = (case os_mkdir os fs ''../sp1-artifacts'' of Inl _ \<Rightarrow> fs | Inr fs \<Rightarrow> fs)
             in (case os_write os fs ''../sp1-artifacts/nano-receipt.bin'' (sdk_save sdk proof) of
                   Inl _ \<Rightarrow> None
                 | Inr fs \<Rightarrow>
                     (case os_write os fs ''../sp1-artifacts/sp1-guest-emu.elf'' guest of
                        Inl _ \<Rightarrow> None
                      | Inr fs \<Rightarrow> Some fs))))"

definition emu_main ::
    "('fs, 'e) os \<Rightarrow> ('x, 'k, 'p) sdk \<Rightarrow> (bytes \<Rightarrow> digest) \<Rightarrow> (bytes \<Rightarrow> job_manifest option) \<Rightarrow> string list \<Rightarrow>
     'fs \<Rightarrow> 'fs option" where
  "emu_main os sdk blake3 from_json args fs =
     (let mode = arg_or args 0 ''execute''; dir = arg_or args 1 ''../jobs/demo-hash-smoke''
      in if mode \<notin> {''execute'', ''prove'', ''verify''} then None
         else
           (case (os_read os fs (join dir ''job.json''), os_read os fs (join dir ''program.elf''),
                  os_read os fs (join dir ''input.bin'')) of
              (Inr mb, Inr elf, Inr input) \<Rightarrow>
                (case local_reference blake3 from_json mb elf input of
                   None \<Rightarrow> None
                 | Some ref \<Rightarrow>
                     (let check = assert_committed sdk blake3 mb elf input ref
                      in if mode = ''verify''
                         then emu_verify os sdk (arg_or args 2 ''../sp1-artifacts/nano-receipt.bin'')
                                (arg_or args 3 ''../sp1-artifacts/sp1-guest-emu.elf'') check fs
                         else
                           (case os_read os fs ''../elf/sp1-guest-emu'' of
                              Inl _ \<Rightarrow> None
                            | Inr guest \<Rightarrow>
                                (case sdk_setup sdk guest of
                                   Inl _ \<Rightarrow> None
                                 | Inr pk \<Rightarrow>
                                     if mode = ''execute'' then emu_execute sdk guest [mb, elf, input] check fs
                                     else emu_prove os sdk guest pk [mb, elf, input] check fs))))
            | _ \<Rightarrow> None))"

section \<open>Lemmas\<close>

lemma dec_nat_not_Nil [simp]: "dec_nat n \<noteq> []"
  by (subst dec_nat.simps) simp

lemma parse_u64_dec: "parse_u64 (dec_nat (unat w)) = Some w"
proof -
  have "\<forall>c \<in> set (dec_nat (unat w)). (of_char c :: nat) \<in> {48..57}" using dec_nat_chars by blast
  then have l: "list_all (\<lambda>c. (of_char c :: nat) \<in> {48..57}) (dec_nat (unat w))" by (simp add: list_all_iff)
  obtain c cs where d: "dec_nat (unat w) = c # cs" by (cases "dec_nat (unat w)") simp_all
  have "c \<noteq> CHR ''+''" using dec_nat_chars [of c "unat w"] d by auto
  then have "take 1 (dec_nat (unat w)) \<noteq> ''+''" by (simp add: d)
  then show ?thesis using l unat_u64_lt [of w] by (simp add: parse_u64_def Let_def)
qed

lemma zk_judge_main_args:
  "zk_judge_main os sdk blake3 from_json secs (judge_args zk dir out) fs =
     zk_judge_run os sdk blake3 from_json secs dir (zj_max_vm_cycles zk) (zj_guest_elf zk) out fs"
  by (cases out) (simp_all add: zk_judge_main_def judge_args_def parse_u64_dec)

lemma guest_emu_local:
  "guest_emu blake3 from_json mb elf input =
     map_option (\<lambda>(st, n, ch, out). \<lparr>cm_binding = job_binding blake3 mb elf input, cm_status = st,
        cm_instructions = n, cm_chain = ch, cm_output = out\<rparr>) (local_reference blake3 from_json mb elf input)"
  by (simp add: guest_emu_def local_reference_def split: option.split sum.split prod.split run_res.split)

lemma assert_committed_guest:
  assumes "local_reference blake3 from_json mb elf input = Some ref"
  shows "assert_committed sdk blake3 mb elf input ref pv \<longleftrightarrow>
         read_committed sdk pv \<noteq> None \<and> read_committed sdk pv = guest_emu blake3 from_json mb elf input"
  using assms by (auto simp: assert_committed_def guest_emu_local split: prod.splits option.splits)

lemma hex_char_upper_digit: "d < 16 \<Longrightarrow> hex_digit (char_byte (hex_char_upper d)) = Inr (ucast d)"
proof -
  assume "d < 16"
  then have d: "d \<in> {0,1,2,3,4,5,6,7,8,9,10,11,12,13,14,15}" by (rule u8_below_16)
  have c: "char_byte (hex_char_upper d) = (if d < 10 then 48 + d else 55 + d)"
  proof -
    have n: "unat (if d < 10 then 48 + d else 55 + d) = (if d < 10 then 48 + unat d else 55 + unat d)"
      using d by auto
    have "unat (char_byte (hex_char_upper d)) = (if d < 10 then 48 + unat d else 55 + unat d)"
      using d unfolding unat_char_byte hex_char_upper_def by auto
    then show ?thesis using n by (simp add: word_unat_eq_iff)
  qed
  show ?thesis unfolding c using d by (elim insertE) (simp_all add: hex_digit_def)
qed

lemma hex_pairs_hex_upper: "hex_pairs (str_bytes (hex_upper bs)) = Inr bs"
proof (induction bs)
  case Nil
  then show ?case by (simp add: hex_upper_def str_bytes_def)
next
  case (Cons b bs)
  have "str_bytes (hex_upper (b # bs)) =
        char_byte (hex_char_upper (drop_bit 4 b)) # char_byte (hex_char_upper (b AND 15)) # str_bytes (hex_upper bs)"
    by (simp add: hex_upper_def str_bytes_def)
  then show ?case using Cons by (simp add: hex_char_upper_digit nibbles)
qed

lemma from_hex_upper: "from_hex (hex_upper bs) n = Inr r \<Longrightarrow> r = bs"
  by (auto simp: from_hex_def hex_pairs_hex_upper split: if_splits)

lemma hex_upper_no_flag: "hex_upper bs \<noteq> ''--v2''"
proof
  assume "hex_upper bs = ''--v2''"
  then have "hex_pairs (str_bytes ''--v2'') = Inr bs" using hex_pairs_hex_upper [of bs] by simp
  then show False by (simp add: str_bytes_def char_byte_def hex_digit_def)
qed

lemma decode_binding_upper:
  "decode_binding (hex_upper m) (hex_upper e) (hex_upper i) = Inr x \<Longrightarrow> x = (m, e, i)"
  by (auto simp: decode_binding_def split: sum.splits dest: from_hex_upper)

lemma zk_verify_main_args:
  assumes "zk_verify_main os sdk (verify_args guest path v2 expected) fs = Some (Inr v)"
  shows "zk_verify_run os sdk fs guest path (Some expected) v2 = Some (Inr v)"
proof -
  obtain m e i where x: "expected = (m, e, i)" by (cases expected)
  have f: "filter (\<lambda>a. a \<noteq> ''--v2'') (verify_args guest path v2 expected) =
      filter (\<lambda>a. a \<noteq> ''--v2'') [guest, path] @ [hex_upper m, hex_upper e, hex_upper i]"
    by (simp add: x verify_args_def hex_upper_no_flag)
  have g: "guest \<noteq> ''--v2'' \<and> path \<noteq> ''--v2''"
    using assms unfolding zk_verify_main_def Let_def f by (auto split: if_splits)
  then have "(''--v2'' \<in> set (verify_args guest path v2 expected)) = v2"
    by (auto simp: x verify_args_def hex_upper_no_flag [symmetric])
  then show ?thesis
    using assms g unfolding zk_verify_main_def Let_def f
    by (auto simp: x split: sum.splits dest: decode_binding_upper)
qed

text \<open>The verifier's successful run, taken apart.\<close>

lemma zk_verify_runD:
  fixes os :: "('fs, 'e) os" and sdk :: "('x, 'k, 'p) sdk"
  assumes "zk_verify_run os sdk fs guest path (Some expected) v2 = Some (Inr v)"
  shows "\<exists>receipt pf g pk. os_read os fs path = Inr receipt \<and> sdk_load sdk receipt = Some pf \<and>
     os_read os fs guest = Inr g \<and> sdk_setup sdk g = Inr pk \<and> sdk_verify sdk pf pk = Inr () \<and> rv_ok v \<and>
     (if v2
      then \<exists>outp. read_v2 sdk (sdk_public sdk pf) = Some (snd (snd expected), outp) \<and> rv_status v = Some 0 \<and>
             rv_instructions v = Some V2_JOURNAL_COUNT \<and> rv_chain v = Some [] \<and> rv_output_hex v = Some (to_hex outp)
      else \<exists>c. read_committed sdk (sdk_public sdk pf) = Some c \<and> cm_binding c = expected \<and>
             rv_status v = Some (cm_status c) \<and> rv_instructions v = Some (cm_instructions c) \<and>
             rv_chain v = Some (map to_hex (cm_chain c)) \<and> rv_output_hex v = Some (to_hex (cm_output c)))"
proof -
  note u = assms [unfolded zk_verify_run_def]
  obtain receipt pf g pk where f: "os_read os fs path = Inr receipt" "sdk_load sdk receipt = Some pf"
    "os_read os fs guest = Inr g" "sdk_setup sdk g = Inr pk"
    using u by (auto split: sum.splits option.splits)
  obtain st n ch outp where r: "receipt_values sdk v2 (Some expected) (sdk_public sdk pf) =
      Some (Inr (st, n, ch, outp) :: ('e, 'x) sp1_error + _)"
    using u f by (auto split: sum.splits option.splits)
  have v: "sdk_verify sdk pf pk = Inr ()"
    "v = \<lparr>rv_ok = True, rv_error = None, rv_status = Some st, rv_instructions = Some n,
          rv_chain = Some (map to_hex ch), rv_output_hex = Some (to_hex outp)\<rparr>"
    using u f r by (auto split: sum.splits)
  have "if v2
      then read_v2 sdk (sdk_public sdk pf) = Some (snd (snd expected), outp) \<and> st = 0 \<and> n = V2_JOURNAL_COUNT \<and> ch = []
      else \<exists>c. read_committed sdk (sdk_public sdk pf) = Some c \<and> cm_binding c = expected \<and>
             st = cm_status c \<and> n = cm_instructions c \<and> ch = cm_chain c \<and> outp = cm_output c"
    using r by (auto simp: receipt_values_def read_v2_def read_committed_def split: if_splits option.splits prod.splits)
  then show ?thesis using f v by auto
qed

text \<open>The judge's successful run, taken apart.\<close>

lemma zk_judge_runD:
  assumes "zk_judge_run os sdk blake3 from_json secs dir mc guest out fs = Some (Inr (v, fs'))"
  obtains job exec_elf pv cyc st n outp hs where "load_job os from_json fs dir = (Inr job :: ('e, 'x) sp1_error + zk_job)"
    and "cyc \<le> mc"
    and "committed_values sdk blake3 job pv = Some (Inr (st, n, outp, hs) :: ('e, 'x) sp1_error + _)"
    and "cross_check blake3 job st n outp = Some (Inr () :: ('e, 'x) sp1_error + _)"
    and "prove_and_save os sdk blake3 job exec_elf st n outp out fs = Some (Inr fs')"
    and "\<not> zb_v2 job \<Longrightarrow> os_read os fs guest = Inr exec_elf"
    and "v = \<lparr>jv_ok = True, jv_error = None, jv_status = Some st, jv_instructions = Some n,
        jv_output_hex = Some (to_hex outp), jv_vm_cycles = Some cyc, jv_proving_secs = Some secs,
        jv_binding = Some hs\<rparr>"
proof -
  obtain job where job: "load_job os from_json fs dir = (Inr job :: ('e, 'x) sp1_error + zk_job)"
    using assms by (auto simp: zk_judge_run_def split: sum.splits)
  obtain e where e: "(if zb_v2 job then Inr (zb_elf job) else os_read os fs guest) = Inr e"
    using assms unfolding zk_judge_run_def job sum.case by (auto split: sum.splits)
  note u = assms [unfolded zk_judge_run_def job sum.case e]
  obtain pv c where x: "sdk_execute sdk e (job_stdin job) = Inr (pv, c)" "\<not> c > mc"
    using u by (auto split: sum.splits if_splits)
  obtain st n outp hs where cv: "committed_values sdk blake3 job pv = Some (Inr (st, n, outp, hs) :: ('e, 'x) sp1_error + _)"
    using u x by (auto split: sum.splits option.splits)
  have cc: "cross_check blake3 job st n outp = Some (Inr () :: ('e, 'x) sp1_error + _)"
    using u x cv by (auto split: sum.splits option.splits)
  have "prove_and_save os sdk blake3 job e st n outp out fs = Some (Inr fs') \<and>
    v = \<lparr>jv_ok = True, jv_error = None, jv_status = Some st, jv_instructions = Some n,
        jv_output_hex = Some (to_hex outp), jv_vm_cycles = Some c, jv_proving_secs = Some secs,
        jv_binding = Some hs\<rparr>"
    using u x cv cc by (auto split: sum.splits option.splits)
  then show ?thesis
    by (intro that [OF job _ cv cc]) (use x e in \<open>simp_all split: if_splits\<close>)
qed

lemma cross_check_replay:
  assumes "\<not> zb_v2 job" and "cross_check blake3 job st n outp = Some (Inr () :: ('e, 'x) sp1_error + _)"
  obtains img out where "parse (zb_elf job) = Some (Inr img)"
    and "replay blake3 (zb_elf job) (elf_entry img) (zb_input job) (zb_chunk_size job) (zb_max_instructions job) =
           Ret (Some out)"
    and "st = status_code (status out)" and "n = instructions out" and "outp = output_bytes out"
proof -
  obtain img where i: "parse (zb_elf job) = Some (Inr img)"
    using assms by (auto simp: cross_check_def split: option.splits sum.splits)
  obtain m where m: "load mem_new img = (Inr (), m)"
    using assms i by (auto simp: cross_check_def split: sum.splits prod.splits)
  obtain out rs where r: "run blake3 m (elf_entry img) (zb_input job)
      (judge_config (zb_chunk_size job) (zb_max_instructions job)) = RunDone (out, rs)"
    using assms i m by (auto simp: cross_check_def split: run_res.splits)
  show ?thesis
    by (rule that [of img out])
      (use assms i m r in \<open>simp_all add: cross_check_def replay_def split: if_splits\<close>)
qed

lemma prove_and_saveD:
  assumes "prove_and_save os sdk blake3 job e st n outp out fs = Some (Inr fs')"
  obtains pk pf where "sdk_setup sdk e = Inr pk" and "sdk_verify sdk pf pk = Inr ()"
    and "values_match sdk blake3 job st n outp (sdk_public sdk pf) = Some True"
    and "\<And>p. out = Some p \<Longrightarrow> os_write os fs p (sdk_save sdk pf) = Inr fs'"
    and "out = None \<Longrightarrow> fs' = fs"
proof -
  obtain pk where k: "sdk_setup sdk e = Inr pk"
    using assms by (auto simp: prove_and_save_def split: sum.splits)
  obtain pf where p: "sdk_prove sdk pk (job_stdin job) = Inr pf"
    using assms k by (auto simp: prove_and_save_def split: sum.splits)
  have v: "sdk_verify sdk pf pk = Inr ()"
    using assms k p by (auto simp: prove_and_save_def split: sum.splits)
  have m: "values_match sdk blake3 job st n outp (sdk_public sdk pf) = Some True"
    using assms k p v by (auto simp: prove_and_save_def split: option.splits bool.splits)
  show ?thesis
    by (rule that [OF k v m]) (use assms k p v m in \<open>auto simp: prove_and_save_def split: sum.splits\<close>)
qed

lemma judge_binding_job:
  assumes "\<forall>x. length (blake3 x) = 32"
  shows "judge_binding [to_hex (blake3 m), to_hex (blake3 e), to_hex (blake3 i)] (job_binding blake3 m e i) False =
    (Inr () :: 'e zk_error + unit)"
proof -
  have "from_hex (to_hex (blake3 x)) 32 = Inr (blake3 x)" for x
    using from_hex_to_hex [of "blake3 x"] assms by simp
  then show ?thesis by (simp add: judge_binding_def job_binding_def)
qed

text \<open>The public values a mode of the driver has checked.\<close>

definition checked_values :: "('x, 'k, 'p) sdk \<Rightarrow> bytes list \<Rightarrow> bytes \<Rightarrow> bool" where
  "checked_values sdk stdin pv \<longleftrightarrow>
     (\<exists>guest cyc. sdk_execute sdk guest stdin = Inr (pv, cyc)) \<or>
     (\<exists>guest pk pf. sdk_setup sdk guest = Inr pk \<and> sdk_verify sdk pf pk = Inr () \<and> pv = sdk_public sdk pf)"

lemma emu_verifyD:
  assumes "emu_verify os sdk r g check fs = Some fs'"
  shows "\<exists>pv. check pv \<and> checked_values sdk stdin pv"
proof -
  obtain guest pk pf where "check (sdk_public sdk pf)" "sdk_setup sdk guest = Inr pk" "sdk_verify sdk pf pk = Inr ()"
    using assms by (auto simp: emu_verify_def split: sum.splits option.splits if_splits)
  then show ?thesis unfolding checked_values_def by blast
qed

lemma emu_executeD:
  assumes "emu_execute sdk guest stdin check fs = Some fs'"
  shows "\<exists>pv. check pv \<and> checked_values sdk stdin pv"
proof -
  obtain pv cyc where "check pv" "sdk_execute sdk guest stdin = Inr (pv, cyc)"
    using assms by (auto simp: emu_execute_def split: sum.splits if_splits)
  then show ?thesis unfolding checked_values_def by blast
qed

lemma emu_proveD:
  assumes "emu_prove os sdk guest pk stdin check fs = Some fs'" and "sdk_setup sdk guest = Inr pk"
  shows "\<exists>pv. check pv \<and> checked_values sdk stdin pv"
proof -
  obtain pf where "check (sdk_public sdk pf)" "sdk_verify sdk pf pk = Inr ()"
    using assms(1) by (auto simp: emu_prove_def split: sum.splits if_splits)
  then show ?thesis using assms(2) unfolding checked_values_def by blast
qed

section \<open>Properties\<close>


text \<open>
  The receipt verifier is sound for the arguments the coordinator passes. When it succeeds,
  the proof loaded from the receipt file verifies under the key derived from the guest file, the
  committed values are bound to the requested job (all three ids for a legacy job, the input's id
  for a V2 job), and the reported status, count, chain and output are the committed ones.
\<close>

theorem zk_verify_binds_job:
  fixes os :: "('fs, 'e) os" and sdk :: "('x, 'k, 'p) sdk"
  assumes "zk_verify_main os sdk (verify_args guest path v2 expected) fs = Some (Inr v)"
  shows "\<exists>receipt pf g pk. os_read os fs path = Inr receipt \<and> sdk_load sdk receipt = Some pf \<and>
     os_read os fs guest = Inr g \<and> sdk_setup sdk g = Inr pk \<and> sdk_verify sdk pf pk = Inr () \<and> rv_ok v \<and>
     (if v2
      then \<exists>outp. read_v2 sdk (sdk_public sdk pf) = Some (snd (snd expected), outp) \<and> rv_status v = Some 0 \<and>
             rv_instructions v = Some V2_JOURNAL_COUNT \<and> rv_chain v = Some [] \<and> rv_output_hex v = Some (to_hex outp)
      else \<exists>c. read_committed sdk (sdk_public sdk pf) = Some c \<and> cm_binding c = expected \<and>
             rv_status v = Some (cm_status c) \<and> rv_instructions v = Some (cm_instructions c) \<and>
             rv_chain v = Some (map to_hex (cm_chain c)) \<and> rv_output_hex v = Some (to_hex (cm_output c)))"
  by (rule zk_verify_runD [OF zk_verify_main_args [OF assms]])

text \<open>
  The validation driver passes, in any of its three modes, only if the committed public values
  it checked are exactly what the emulator guest commits for the job's files.
\<close>

theorem emu_pass_means_guest_values:
  assumes "emu_main os sdk blake3 from_json args fs = Some fs'"
    and "os_read os fs (join (arg_or args 1 ''../jobs/demo-hash-smoke'') ''job.json'') = Inr mb"
    and "os_read os fs (join (arg_or args 1 ''../jobs/demo-hash-smoke'') ''program.elf'') = Inr elf"
    and "os_read os fs (join (arg_or args 1 ''../jobs/demo-hash-smoke'') ''input.bin'') = Inr input"
  shows "\<exists>pv c. read_committed sdk pv = Some c \<and> guest_emu blake3 from_json mb elf input = Some c \<and>
     ((\<exists>guest cyc. sdk_execute sdk guest [mb, elf, input] = Inr (pv, cyc)) \<or>
      (\<exists>guest pk pf. sdk_setup sdk guest = Inr pk \<and> sdk_verify sdk pf pk = Inr () \<and> pv = sdk_public sdk pf))"
proof -
  obtain ref where r: "local_reference blake3 from_json mb elf input = Some ref"
    using assms by (auto simp: emu_main_def Let_def split: option.splits if_splits)
  obtain pv where a: "assert_committed sdk blake3 mb elf input ref pv" and v: "checked_values sdk [mb, elf, input] pv"
    using assms r
    by (auto simp: emu_main_def Let_def split: sum.splits if_splits dest: emu_verifyD emu_executeD emu_proveD)
  obtain c where c: "read_committed sdk pv = Some c" "guest_emu blake3 from_json mb elf input = Some c"
    using a assert_committed_guest [OF r, of sdk pv] by (cases "read_committed sdk pv") auto
  show ?thesis using c v unfolding checked_values_def by blast
qed

section \<open>Witnesses\<close>

text \<open>A job with no instruction budget stops at once, in the emulator and in a guest.\<close>

lemma demo_limit_run:
  obtains m out rs where "load mem_new demo_image = (Inr (), m)"
    and "run blake3 m (elf_entry demo_image) [] (judge_config cs 0) = RunDone (out, rs)"
    and "status out = InstructionLimit" and "instructions out = 0" and "run_output out = None"
proof -
  obtain m where l: "mem_write mem_new 0x1000 [1, 2, 3, 4] = (Inr (), m)" "mem_ok m" "pages m 0 = None"
    by (rule write_keeps_page0 [OF mem_ok_new, where a = "0x1000" and bs = "[1, 2, 3, 4]"]) (simp_all add: mem_new_empty)
  obtain m1 where w1: "mem_write m INPUT_LEN_ADDR (le_bytes 8 (0 :: u64)) = (Inr (), m1)"
    "mem_ok m1" "pages m1 0 = None"
    by (rule write_keeps_page0 [OF l(2,3), where a = INPUT_LEN_ADDR and bs = "le_bytes 8 (0 :: u64)"]) (simp_all add: INPUT_LEN_ADDR_def)
  obtain m2 where w2: "mem_write m1 INPUT_DATA_ADDR [] = (Inr (), m2)"
    by (rule write_keeps_page0 [OF w1(2,3), where a = INPUT_DATA_ADDR and bs = "[]"]) (simp_all add: INPUT_DATA_ADDR_def)
  let ?st = "push_hash blake3 (run_start (cpu_new 0x1000 STACK_TOP) m2)"
  have rl: "run_loop blake3 (judge_config cs 0) (run_start (cpu_new 0x1000 STACK_TOP) m2) = RunDone (InstructionLimit, ?st)"
    by (rule run_loop_limit) (simp add: judge_config_def)
  show ?thesis
  proof (rule that)
    show "load mem_new demo_image = (Inr (), m)"
      using l(1) by (simp add: load_def demo_image_def load_image_def)
    show "run blake3 m (elf_entry demo_image) [] (judge_config cs 0) = RunDone (finish_run InstructionLimit ?st, ?st)"
      using w1(1) w2(1) rl by (simp add: run_def demo_image_def)
  qed (simp_all add: finish_run_def run_start_def)
qed

definition limit_manifest :: job_manifest where
  "limit_manifest = demo_manifest\<lparr>jm_elf := ''e'', jm_input := ''i'', jm_chunk_size := 1, jm_max_instructions := 0\<rparr>"

definition demo_sdk :: "committed \<Rightarrow> (unit, unit, unit) sdk" where
  "demo_sdk c =
     \<lparr>sdk_execute = (\<lambda>_ _. Inr ([], 0)), sdk_setup = (\<lambda>_. Inr ()), sdk_prove = (\<lambda>_ _. Inr ()),
      sdk_verify = (\<lambda>_ _. Inr ()), sdk_public = (\<lambda>_. []), sdk_save = (\<lambda>_. [3]), sdk_load = (\<lambda>_. Some ()),
      rd_hash = (\<lambda>pv. Some ([], pv)), rd_binding = (\<lambda>pv. Some (cm_binding c, pv)),
      rd_u32 = (\<lambda>pv. Some (cm_status c, pv)), rd_u64 = (\<lambda>pv. Some (cm_instructions c, pv)),
      rd_chain = (\<lambda>pv. Some (cm_chain c, pv)), rd_vec = (\<lambda>pv. Some (cm_output c, pv))\<rparr>"

definition limit_files :: "string \<rightharpoonup> bytes" where
  "limit_files = [join ''d'' ''job.json'' \<mapsto> [1], join ''d'' ''e'' \<mapsto> demo_elf, join ''d'' ''i'' \<mapsto> [], ''guest'' \<mapsto> [9]]"

lemma limit_files_read:
  "os_read disk limit_files (join ''d'' ''job.json'') = Inr [1]" "os_read disk limit_files (join ''d'' ''e'') = Inr demo_elf"
  "os_read disk limit_files (join ''d'' ''i'') = Inr []" "os_read disk limit_files ''guest'' = Inr [9]"
  by (simp_all add: disk_def limit_files_def join_def)

lemma limit_manifest_simps:
  "jm_elf limit_manifest = ''e''" "jm_input limit_manifest = ''i''" "jm_chunk_size limit_manifest = 1"
  "jm_max_instructions limit_manifest = 0" "\<not> is_sp1_v2 limit_manifest"
  by (simp_all add: limit_manifest_def demo_manifest_def is_sp1_v2_def)

lemma demo_sdk_committed: "read_committed (demo_sdk c) pv = Some c"
  by (simp add: read_committed_def demo_sdk_def)

lemma limit_guest:
  "\<exists>c. guest_emu pad32 (\<lambda>_. Some limit_manifest) [1] demo_elf [] = Some c \<and>
     cm_binding c = job_binding pad32 [1] demo_elf [] \<and> cm_status c = 1 \<and> cm_instructions c = 0 \<and> cm_output c = []"
proof -
  obtain m out rs where "load mem_new demo_image = (Inr (), m)"
    "run pad32 m (elf_entry demo_image) [] (judge_config 1 0) = RunDone (out, rs)"
    "status out = InstructionLimit" "instructions out = 0" "run_output out = None"
    using demo_limit_run .
  then show ?thesis
    by (simp add: guest_emu_def demo_elf_parses limit_manifest_simps status_code_def output_bytes_def)
qed

lemma limit_judge:
  obtains c v where "zk_judge_main disk (demo_sdk c) pad32 (\<lambda>_. Some limit_manifest) ''1.0''
      (judge_args (demo_zk\<lparr>zj_guest_elf := ''guest''\<rparr>) ''d'' None) limit_files = Some (Inr (v, limit_files))"
proof -
  obtain c :: committed where c: "cm_binding c = job_binding pad32 [1] demo_elf []" "cm_status c = 1" "cm_instructions c = 0" "cm_output c = []"
    using limit_guest by blast
  obtain m out rs where r: "load mem_new demo_image = (Inr (), m)"
    "run pad32 m (elf_entry demo_image) [] (judge_config 1 0) = RunDone (out, rs)"
    "status out = InstructionLimit" "instructions out = 0" "run_output out = None"
    using demo_limit_run .
  have s: "sdk_execute (demo_sdk c) e i = Inr ([], 0)" "sdk_setup (demo_sdk c) e = Inr ()"
    "sdk_prove (demo_sdk c) k i = Inr ()" "sdk_verify (demo_sdk c) p k = Inr ()" for e i k p
    by (simp_all add: demo_sdk_def)
  show ?thesis
    by (rule that [of c])
      (simp add: zk_judge_main_args zk_judge_run_def load_job_def limit_files_read limit_manifest_simps s
        committed_values_def demo_sdk_committed c cross_check_def demo_elf_parses r status_code_def
        output_bytes_def prove_and_save_def values_match_def)
qed


theorem zk_verify_binds_job_witness:
  "\<exists>c v. zk_verify_main disk (demo_sdk c) (verify_args ''guest'' ''r'' False (job_binding pad32 [1] demo_elf []))
      (limit_files(''r'' \<mapsto> [3])) = Some (Inr v) \<and> rv_ok v \<and> cm_binding c = job_binding pad32 [1] demo_elf []"
proof -
  obtain c :: committed where c: "cm_binding c = job_binding pad32 [1] demo_elf []" using limit_guest by blast
  let ?fs = "limit_files(''r'' \<mapsto> [3])"
  have f: "os_read disk ?fs ''r'' = Inr [3]" "os_read disk ?fs ''guest'' = Inr [9]"
    by (simp_all add: disk_def limit_files_def join_def)
  have h: "from_hex (hex_upper (pad32 x)) 32 = Inr (pad32 x)" for x
  proof -
    have "length (hex_upper bs) = 2 * length bs" for bs by (induction bs) (simp_all add: hex_upper_def)
    then show ?thesis by (simp add: from_hex_def hex_pairs_hex_upper pad32_demo(4))
  qed
  have s: "sdk_setup (demo_sdk c) e = Inr ()" "sdk_verify (demo_sdk c) p k = Inr ()" "sdk_load (demo_sdk c) bs = Some ()"
    "rd_binding (demo_sdk c) pv = Some (job_binding pad32 [1] demo_elf [], pv)" for e k p bs pv
    by (simp_all add: demo_sdk_def c)
  have "\<exists>v. zk_verify_main disk (demo_sdk c) (verify_args ''guest'' ''r'' False (job_binding pad32 [1] demo_elf [])) ?fs =
      Some (Inr v)"
    by (simp add: zk_verify_main_def verify_args_def job_binding_def hex_upper_no_flag hex_upper_no_flag [symmetric]
        decode_binding_def h zk_verify_run_def f s receipt_values_def demo_sdk_committed Let_def)
  then obtain v where v: "zk_verify_main disk (demo_sdk c)
      (verify_args ''guest'' ''r'' False (job_binding pad32 [1] demo_elf [])) ?fs = Some (Inr v)" by blast
  then show ?thesis using zk_verify_binds_job [OF v] c by auto
qed

text \<open>The driver executes the demo job under a guest that commits its values.\<close>

theorem emu_pass_means_guest_values_witness:
  "\<exists>c. emu_main disk (demo_sdk c) pad32 (\<lambda>_. Some limit_manifest) [''execute'', ''d'']
      (limit_files(join ''d'' ''program.elf'' \<mapsto> demo_elf, join ''d'' ''input.bin'' \<mapsto> [], ''../elf/sp1-guest-emu'' \<mapsto> [9])) \<noteq> None \<and>
     guest_emu pad32 (\<lambda>_. Some limit_manifest) [1] demo_elf [] = Some c"
proof -
  let ?fs = "limit_files(join ''d'' ''program.elf'' \<mapsto> demo_elf, join ''d'' ''input.bin'' \<mapsto> [], ''../elf/sp1-guest-emu'' \<mapsto> [9])"
  obtain c where c: "guest_emu pad32 (\<lambda>_. Some limit_manifest) [1] demo_elf [] = Some c" using limit_guest by blast
  then obtain ref where l: "local_reference pad32 (\<lambda>_. Some limit_manifest) [1] demo_elf [] = Some ref"
    by (auto simp: guest_emu_local)
  have f: "os_read disk ?fs (join ''d'' ''job.json'') = Inr [1]" "os_read disk ?fs (join ''d'' ''program.elf'') = Inr demo_elf"
    "os_read disk ?fs (join ''d'' ''input.bin'') = Inr []" "os_read disk ?fs ''../elf/sp1-guest-emu'' = Inr [9]"
    by (simp_all add: disk_def limit_files_def join_def)
  have s: "sdk_execute (demo_sdk c) e i = Inr ([], 0)" "sdk_setup (demo_sdk c) e = Inr ()" for e i
    by (simp_all add: demo_sdk_def)
  have a: "arg_or [''execute'', ''d''] 0 d = ''execute''" "arg_or [''execute'', ''d''] 1 d = ''d''" for d
    by (simp_all add: arg_or_def)
  have "assert_committed (demo_sdk c) pad32 [1] demo_elf [] ref []"
    using assert_committed_guest [OF l, of "demo_sdk c" "[]"] c demo_sdk_committed [of c "[]"] by simp
  then have e: "emu_main disk (demo_sdk c) pad32 (\<lambda>_. Some limit_manifest) [''execute'', ''d''] ?fs = Some ?fs"
    unfolding emu_main_def Let_def a f prod.case sum.case l option.case s by (simp add: emu_execute_def s)
  then show ?thesis
    using emu_pass_means_guest_values [OF e, unfolded a, OF f(1-3)] c demo_sdk_committed [of c] by auto
qed

end
