(* ===== verification/Ledger.thy ===== *)
theory Ledger
  imports Quorum "HOL-Library.List_Lexorder" "HOL-Library.Char_ord"
begin

text \<open>
  The persistent bond ledger (\<open>crates/coordinator/src/ledger.rs\<close>): balances per worker and the
  history of decisions. Balances are \<open>i64\<close>, kept as 64-bit words (the sum wraps as in a release
  build). Main results: an application adds exactly the deltas, the balances are at every moment
  the sums over the recorded history, and a saved ledger loads again.
\<close>

section \<open>Operations\<close>

record ledger_entry =
  le_job_id :: string
  le_decision :: string
  le_deltas :: "(string \<times> u64) list"

record ledger =
  balances :: "(string \<times> u64) list"
  history :: "ledger_entry list"

definition ledger_default :: ledger where
  "ledger_default = \<lparr>balances = [], history = []\<rparr>"

text \<open>\<open>not_found\<close> tells the missing-file error from the others.\<close>

datatype 'e ledger_error = LedgerIo 'e | LedgerParse

definition ledger_load ::
    "('fs, 'e) os \<Rightarrow> ('e \<Rightarrow> bool) \<Rightarrow> (bytes \<Rightarrow> ledger option) \<Rightarrow> 'fs \<Rightarrow> string \<Rightarrow> 'e ledger_error + ledger" where
  "ledger_load os not_found from_json fs path =
     (case os_read os fs path of
        Inr bs \<Rightarrow> (case from_json bs of None \<Rightarrow> Inl LedgerParse | Some l \<Rightarrow> Inr l)
      | Inl e \<Rightarrow> if not_found e then Inr ledger_default else Inl (LedgerIo e))"

definition ledger_save ::
    "('fs, 'e) os \<Rightarrow> (ledger \<Rightarrow> bytes) \<Rightarrow> 'fs \<Rightarrow> string \<Rightarrow> ledger \<Rightarrow> 'e ledger_error + 'fs" where
  "ledger_save os to_json fs path l =
     (case os_write os fs path (to_json l) of Inl e \<Rightarrow> Inl (LedgerIo e) | Inr fs \<Rightarrow> Inr fs)"

text \<open>\<open>*balances.entry(id).or_insert(0) += delta\<close>.\<close>

definition add_balance :: "(string \<times> u64) list \<Rightarrow> string \<times> u64 \<Rightarrow> (string \<times> u64) list" where
  "add_balance bal d =
     (case d of (w, delta) \<Rightarrow>
        bt_insert w ((case map_of bal w of None \<Rightarrow> 0 | Some v \<Rightarrow> v) + delta) bal)"

definition ledger_apply :: "ledger \<Rightarrow> string \<Rightarrow> string \<Rightarrow> (string \<times> u64) list \<Rightarrow> ledger" where
  "ledger_apply l job_id dec deltas =
     \<lparr>balances = foldl add_balance (balances l) deltas,
      history = history l @ [\<lparr>le_job_id = job_id, le_decision = dec, le_deltas = deltas\<rparr>]\<rparr>"

section \<open>Balances are sums over the history\<close>

definition balance :: "ledger \<Rightarrow> string \<Rightarrow> u64" where
  "balance l w = (case map_of (balances l) w of None \<Rightarrow> 0 | Some v \<Rightarrow> v)"

definition delta_sum :: "string \<Rightarrow> (string \<times> u64) list \<Rightarrow> u64" where
  "delta_sum w ds = sum_list (map snd (filter (\<lambda>d. fst d = w) ds))"

definition ledger_ok :: "ledger \<Rightarrow> bool" where
  "ledger_ok l \<longleftrightarrow>
     bt_sorted (balances l) \<and>
     (\<forall>w. balance l w = delta_sum w (concat (map le_deltas (history l)))) \<and>
     fst ` set (balances l) = fst ` set (concat (map le_deltas (history l)))"

lemma delta_sum_append [simp]: "delta_sum w (ds @ es) = delta_sum w ds + delta_sum w es"
  by (simp add: delta_sum_def)

lemma add_balance_correct:
  assumes "bt_sorted bal"
  shows "bt_sorted (add_balance bal d)"
    and "(case map_of (add_balance bal d) w of None \<Rightarrow> 0 | Some v \<Rightarrow> v) =
           (case map_of bal w of None \<Rightarrow> 0 | Some v \<Rightarrow> v) + (if fst d = w then snd d else 0)"
    and "fst ` set (add_balance bal d) = insert (fst d) (fst ` set bal)"
  using assms by (cases d; simp add: add_balance_def)+

lemma add_balances_correct:
  assumes "bt_sorted bal"
  shows "bt_sorted (foldl add_balance bal ds) \<and>
         (case map_of (foldl add_balance bal ds) w of None \<Rightarrow> 0 | Some v \<Rightarrow> v) =
           (case map_of bal w of None \<Rightarrow> 0 | Some v \<Rightarrow> v) + delta_sum w ds \<and>
         fst ` set (foldl add_balance bal ds) = fst ` set bal \<union> fst ` set ds"
  using assms
proof (induction ds arbitrary: bal)
  case Nil
  then show ?case by (simp add: delta_sum_def)
next
  case (Cons d ds)
  note c = add_balance_correct [OF Cons.prems, of d]
  show ?case
    using Cons.IH [OF c(1)] c(2) [of w] c(3) by (auto simp: delta_sum_def add.assoc)
qed

lemma ledger_apply_ok:
  assumes "ledger_ok l"
  shows "ledger_ok (ledger_apply l job_id dec deltas)"
proof -
  have s: "bt_sorted (balances l)" using assms by (simp add: ledger_ok_def)
  note c = add_balances_correct [OF s, of deltas]
  have "balance (ledger_apply l job_id dec deltas) w = balance l w + delta_sum w deltas" for w
    using c [of w] by (simp add: balance_def ledger_apply_def)
  then show ?thesis using assms c by (simp add: ledger_ok_def ledger_apply_def image_Un)
qed

text \<open>
  C40: applying a decision changes each worker's balance by exactly the sum of that worker's
  deltas and leaves all other balances alone, appends one history entry, and keeps the ledger
  auditable: every balance is the sum of the deltas recorded for that worker in the history.
\<close>

theorem ledger_apply_auditable:
  assumes "ledger_ok l"
  shows "ledger_ok (ledger_apply l job_id dec deltas) \<and>
         balance (ledger_apply l job_id dec deltas) w = balance l w + delta_sum w deltas \<and>
         history (ledger_apply l job_id dec deltas) =
           history l @ [\<lparr>le_job_id = job_id, le_decision = dec, le_deltas = deltas\<rparr>]"
proof -
  have "bt_sorted (balances l)" using assms by (simp add: ledger_ok_def)
  from add_balances_correct [OF this, of deltas w]
  have "balance (ledger_apply l job_id dec deltas) w = balance l w + delta_sum w deltas"
    by (simp add: balance_def ledger_apply_def)
  then show ?thesis using ledger_apply_ok [OF assms] by (simp add: ledger_apply_def)
qed

lemma ledger_default_ok: "ledger_ok ledger_default"
  by (simp add: ledger_ok_def ledger_default_def balance_def delta_sum_def)

theorem ledger_apply_auditable_witness:
  "ledger_ok ledger_default \<and>
   balance (ledger_apply ledger_default ''j1'' ''accept'' [(''a'', 10), (''b'', - 100), (''a'', 10)]) ''a'' = 20"
  using ledger_apply_auditable [OF ledger_default_ok, of "''j1''" "''accept''"
      "[(''a'', 10), (''b'', - 100), (''a'', 10)]" "''a''"] ledger_default_ok
  by (simp add: balance_def ledger_default_def delta_sum_def)

text \<open>
  A saved ledger loads again unchanged, and a file that does not parse is an error, never an
  empty ledger.
\<close>

theorem ledger_save_load:
  assumes "os_ok os" and "from_json (to_json l) = Some l" and "ledger_save os to_json fs path l = Inr fs'"
  shows "ledger_load os not_found from_json fs' path = Inr l \<and>
         (os_read os fs2 path = Inr bs \<and> from_json bs = None \<longrightarrow>
            ledger_load os not_found from_json fs2 path = Inl LedgerParse)"
proof -
  have "os_write os fs path (to_json l) = Inr fs'" using assms(3) by (simp add: ledger_save_def split: sum.splits)
  then have "os_read os fs' path = Inr (to_json l)" by (rule os_okD(1) [OF assms(1)])
  then show ?thesis using assms(2) by (simp add: ledger_load_def)
qed

theorem ledger_save_load_witness:
  "\<exists>fs'. ledger_save disk (\<lambda>_. [7]) Map.empty ''ledger.json'' ledger_default = Inr fs' \<and>
         ledger_load disk (\<lambda>_. True) (\<lambda>_. Some ledger_default) fs' ''ledger.json'' = Inr ledger_default"
proof -
  obtain fs' where s: "ledger_save disk (\<lambda>_. [7]) Map.empty ''ledger.json'' ledger_default = Inr fs'"
    by (simp add: ledger_save_def disk_def)
  show ?thesis using ledger_save_load [OF disk_ok _ s, of "\<lambda>_. Some ledger_default" "\<lambda>_. True"] s by auto
qed

end
