(* ===== verification/Netconn.thy ===== *)
theory Netconn
  imports Zk Ledger "HOL-Library.Multiset"
begin

text \<open>
  The connection side of the network coordinator (\<open>crates/coordinator/src/net.rs\<close>): its
  configuration and state, and the event handlers that serve one connection: greeting, admission
  (proof of work and nonce signature), blob requests and uploads, job submission, and signed
  results and receipt claims up to the pending job. Channels to the session threads are the lists
  of messages sent; random numbers and the clock are arguments.
\<close>

section \<open>Configuration, environment and state\<close>

record zk_verify =
  zv_cmd :: string
  zv_guest_elf :: string

text \<open>Times are in milliseconds. The transport and monitoring fields are not part of the model.\<close>

record serve_config =
  cfg_jobs_dir :: string
  cfg_store_dir :: string
  cfg_deadline :: nat
  cfg_ledger :: "string option"
  cfg_require_identity :: bool
  cfg_zk :: "zk_verify option"
  cfg_zk_judge :: "zk_judge option"
  cfg_zk_prover :: "zk_judge option"
  cfg_accept_submissions :: bool
  cfg_results_dir :: "string option"
  cfg_pow_bits :: u32
  cfg_pool :: "nat option"
  cfg_max_jobs :: "nat option"
  cfg_round1_size :: "nat option"
  cfg_round1_ids :: "string list option"

text \<open>Why an upload is refused.\<close>

datatype 'e upload_error =
    UploadLimit | BlobTooBig | BlobHex hex_error | BlobIdHex hex_error | HashMismatch | UploadStore "'e store_error"

text \<open>
  The code outside the repository: system calls, hash functions, Ed25519, serde for each type
  that is read or written, and the texts of errors (which embed those of the system and of serde).
\<close>

record ('fs, 'e, 'vk) env =
  e_sys :: "('fs, 'e) sys"
  e_blake3 :: "bytes \<Rightarrow> digest"
  e_sha256 :: "bytes \<Rightarrow> digest"
  e_vk_from_bytes :: "bytes \<Rightarrow> 'vk option"
  e_vk_verify :: "'vk \<Rightarrow> bytes \<Rightarrow> bytes \<Rightarrow> bool"
  e_manifest_json :: "bytes \<Rightarrow> job_manifest option"
  e_desc_from_json :: "bytes \<Rightarrow> job_descriptor option"
  e_desc_to_json :: "job_descriptor \<Rightarrow> bytes option"
  e_receipt_json :: "bytes \<Rightarrow> receipt_verdict option"
  e_judge_json :: "bytes \<Rightarrow> judge_verdict option"
  e_ledger_from_json :: "bytes \<Rightarrow> ledger option"
  e_ledger_to_json :: "ledger \<Rightarrow> bytes"
  e_not_found :: "'e \<Rightarrow> bool"
  e_outcome_json :: "string \<Rightarrow> decision \<Rightarrow> worker_result list \<Rightarrow> (string \<times> int) list \<Rightarrow> bytes"
  e_meta_json :: "string \<Rightarrow> string \<Rightarrow> judge_verdict \<Rightarrow> bytes"
  e_error_text :: "'e zk_error \<Rightarrow> string"
  e_upload_text :: "'e upload_error \<Rightarrow> string"

record job_outcome =
  jo_job_id :: string
  jo_decision :: decision
  jo_results :: "worker_result list"
  jo_bond_deltas :: "(string \<times> int) list"

record conn =
  c_outbound :: "server_to_client list"
  c_pubkey :: "string option"
  c_nonce :: "bytes option"
  c_worker_id :: string
  c_authed :: bool
  c_peer_addr :: "string option"
  c_peer_ip :: string
  c_role :: string
  c_uploads :: nat

record pending_job =
  pj_descriptor :: job_descriptor
  pj_targets :: "string list option"
  pj_path :: string
  pj_dispatched :: bool
  pj_escalated :: bool
  pj_dispatched_ids :: "string list"
  pj_reserves :: "string list"
  pj_results :: "worker_result list"
  pj_started :: nat
  pj_zk_accept :: "decision option"
  pj_receipt_claimed :: "string list"
  pj_subscribers :: "nat list"

datatype event =
    EvHello nat string string "u16 option" string
  | EvNonceSig nat "string option" u64
  | EvJobSubmission nat string job_descriptor string string bool
  | EvBlobUpload nat string string
  | EvReceiptClaim nat string string string string string
  | EvBlobRequest nat string
  | EvResult nat worker_result
  | EvClosed nat
  | EvProved pending_job decision

text \<open>
  The shared connection map, as the list its iteration yields, and the rest of what \<open>serve\<close> keeps:
  \<open>s_events\<close> is the event channel and \<open>s_queue\<close> the channel to the proving worker; \<open>s_fs\<close> and
  \<open>s_ctr\<close> are the file system and the counter of temporary files.
\<close>

type_synonym conns = "(nat \<times> conn) list"

record 'fs server =
  s_conns :: conns
  s_pending :: "pending_job option"
  s_outcomes :: "job_outcome list"
  s_jobs_done :: nat
  s_scan_errors :: "string \<rightharpoonup> nat"
  s_subs :: "string \<rightharpoonup> nat list"
  s_events :: "event list"
  s_queue :: "pending_job list"
  s_fs :: 'fs
  s_ctr :: u64

section \<open>Connections\<close>

definition new_conn :: "nat \<Rightarrow> string \<Rightarrow> conn" where
  "new_conn k peer_ip =
     \<lparr>c_outbound = [], c_pubkey = None, c_nonce = None, c_worker_id = ''w'' @ dec_nat k,
      c_authed = False, c_peer_addr = None, c_peer_ip = peer_ip, c_role = ''worker'', c_uploads = 0\<rparr>"

definition conn_send :: "server_to_client \<Rightarrow> conn \<Rightarrow> conn" where
  "conn_send msg c = c\<lparr>c_outbound := c_outbound c @ [msg]\<rparr>"

text \<open>\<open>if let Some(c) = map.get_mut(&k) { ... }\<close>.\<close>

definition conn_update :: "nat \<Rightarrow> (conn \<Rightarrow> conn) \<Rightarrow> conns \<Rightarrow> conns" where
  "conn_update k f cs = map (\<lambda>(i, c). (i, if i = k then f c else c)) cs"

definition conn_remove :: "nat \<Rightarrow> conns \<Rightarrow> conns" where
  "conn_remove k cs = filter (\<lambda>(i, _). i \<noteq> k) cs"

text \<open>\<open>if let Some(c) = map.values_mut().find(p) { c.outbound.send(msg) }\<close>; \<open>None\<close> if none is found.\<close>

fun send_first :: "(conn \<Rightarrow> bool) \<Rightarrow> server_to_client \<Rightarrow> conns \<Rightarrow> conns option" where
  "send_first p msg [] = None"
| "send_first p msg ((i, c) # cs) =
     (if p c then Some ((i, conn_send msg c) # cs)
      else map_option (\<lambda>cs. (i, c) # cs) (send_first p msg cs))"

definition broadcast_between_jobs :: "conns \<Rightarrow> conns" where
  "broadcast_between_jobs cs = map (\<lambda>(i, c). (i, conn_send BetweenJobs c)) cs"

definition shutdown_all :: "string \<Rightarrow> conns \<Rightarrow> conns" where
  "shutdown_all reason cs = map (\<lambda>(i, c). (i, conn_send (ShutDown reason) c)) cs"

section \<open>Greeting and admission\<close>

definition handle_hello ::
    "serve_config \<Rightarrow> bytes \<Rightarrow> nat \<Rightarrow> string \<Rightarrow> string \<Rightarrow> u16 option \<Rightarrow> string \<Rightarrow> conns \<Rightarrow> conns" where
  "handle_hello cfg nonce k pubkey wid listen_port role cs =
     conn_update k (\<lambda>c. conn_send (Nonce (to_hex nonce) (cfg_pow_bits cfg))
       (c\<lparr>c_pubkey := (if pubkey = [] then None else Some pubkey),
          c_worker_id := (if wid \<noteq> [] then wid else c_worker_id c),
          c_role := (if role = ''submitter'' then ''submitter'' else ''worker''),
          c_nonce := Some nonce,
          c_peer_addr := (case listen_port of
              Some port \<Rightarrow> Some (c_peer_ip c @ '':'' @ dec_nat (unat port))
            | None \<Rightarrow> c_peer_addr c)\<rparr>)) cs"

text \<open>\<open>verify_nonce\<close> and \<open>verify_claim_sig\<close> share the decoding and differ in the message.\<close>

definition verify_msg ::
    "('fs, 'e, 'vk) env \<Rightarrow> string \<Rightarrow> bytes \<Rightarrow> string \<Rightarrow> sig_error + unit" where
  "verify_msg env pk msg sig =
     (case from_hex pk 32 of
        Inl e \<Rightarrow> Inl (SigPubkeyHex e)
      | Inr pk_bytes \<Rightarrow>
          (case from_hex sig 64 of
             Inl e \<Rightarrow> Inl (SigHex e)
           | Inr sig_bytes \<Rightarrow>
               (case e_vk_from_bytes env pk_bytes of
                  None \<Rightarrow> Inl SigPubkey
                | Some vk \<Rightarrow> if e_vk_verify env vk msg sig_bytes then Inr () else Inl SigInvalid)))"

definition verify_nonce :: "('fs, 'e, 'vk) env \<Rightarrow> string \<Rightarrow> bytes \<Rightarrow> string \<Rightarrow> sig_error + unit" where
  "verify_nonce env pk nonce sig = verify_msg env pk nonce sig"

definition verify_claim_sig ::
    "('fs, 'e, 'vk) env \<Rightarrow> string \<Rightarrow> string \<Rightarrow> digest \<Rightarrow> string \<Rightarrow> sig_error + unit" where
  "verify_claim_sig env pk job_id receipt_hash sig =
     verify_msg env pk (receipt_claim_message job_id receipt_hash) sig"

text \<open>The admission test: proof of work on the connection's nonce, then the identity.\<close>

definition auth_ok ::
    "serve_config \<Rightarrow> ('fs, 'e, 'vk) env \<Rightarrow> conn \<Rightarrow> string option \<Rightarrow> u64 \<Rightarrow> bool" where
  "auth_ok cfg env c sig pow_counter \<longleftrightarrow>
     (case c_nonce c of
        Some nonce \<Rightarrow> verify_pow (e_blake3 env) nonce pow_counter (cfg_pow_bits cfg)
      | None \<Rightarrow> False) \<and>
     (case (c_pubkey c, sig, c_nonce c) of
        (Some pk, Some s, Some nonce) \<Rightarrow> verify_nonce env pk nonce s = Inr ()
      | (None, _, Some _) \<Rightarrow> \<not> cfg_require_identity cfg
      | _ \<Rightarrow> False)"

text \<open>A worker admitted after dispatch joins the reserves of an untargeted job.\<close>

definition join_reserves :: "string \<Rightarrow> pending_job \<Rightarrow> pending_job" where
  "join_reserves wid job =
     (if pj_dispatched job \<and> \<not> pj_escalated job \<and> pj_targets job = None \<and> wid \<notin> set (pj_dispatched_ids job)
      then job\<lparr>pj_reserves := pj_reserves job @ [wid]\<rparr> else job)"

definition handle_nonce_sig ::
    "serve_config \<Rightarrow> ('fs, 'e, 'vk) env \<Rightarrow> nat \<Rightarrow> string option \<Rightarrow> u64 \<Rightarrow> 'fs server \<Rightarrow> 'fs server" where
  "handle_nonce_sig cfg env k sig pow_counter s =
     (case map_of (s_conns s) k of
        None \<Rightarrow> s
      | Some c \<Rightarrow>
          if auth_ok cfg env c sig pow_counter
          then s\<lparr>s_conns := conn_update k (\<lambda>c. conn_send (AuthOk (c_worker_id c)) (c\<lparr>c_authed := True\<rparr>)) (s_conns s),
                 s_pending := map_option (join_reserves (c_worker_id c)) (s_pending s)\<rparr>
          else s\<lparr>s_conns := conn_update k
                   (\<lambda>c. conn_send (ShutDown ''auth failed'') (conn_send (AuthFailed ''nonce signature invalid'') c))
                   (s_conns s)\<rparr>)"

section \<open>Blobs\<close>

text \<open>The panic of \<open>&s[..n]\<close> off a character boundary or past the end is \<open>False\<close>.\<close>

definition prefix_ok :: "string \<Rightarrow> nat \<Rightarrow> bool" where
  "prefix_ok s n \<longleftrightarrow> is_char_boundary s n"

definition lookup_blob :: "('fs, 'e, 'vk) env \<Rightarrow> serve_config \<Rightarrow> 'fs \<Rightarrow> string \<Rightarrow> bytes option option" where
  "lookup_blob env cfg fs hex =
     (case content_id_from_hex hex of
        None \<Rightarrow> None
      | Some (Inl _) \<Rightarrow> Some None
      | Some (Inr cid) \<Rightarrow>
          (case store_get (sys_os (e_sys env)) (e_blake3 env) (cfg_store_dir cfg) fs cid of
             Inl _ \<Rightarrow> Some None
           | Inr data \<Rightarrow> Some (Some data)))"

definition handle_blob_request ::
    "serve_config \<Rightarrow> ('fs, 'e, 'vk) env \<Rightarrow> nat \<Rightarrow> string \<Rightarrow> 'fs server \<Rightarrow> 'fs server option" where
  "handle_blob_request cfg env k hex s =
     (case map_of (s_conns s) k of
        None \<Rightarrow> Some s
      | Some _ \<Rightarrow>
          (case lookup_blob env cfg (s_fs s) hex of
             None \<Rightarrow> None
           | Some data \<Rightarrow>
               if \<not> prefix_ok hex (min 12 (length hex)) then None
               else Some (s\<lparr>s_conns := conn_update k (conn_send (Blob (map_option to_hex data))) (s_conns s)\<rparr>)))"

definition MAX_BLOB_BYTES :: nat where
  "MAX_BLOB_BYTES = 16 * 1024 * 1024"

definition MAX_UPLOADS_PER_CONN :: nat where
  "MAX_UPLOADS_PER_CONN = 8"

definition store_upload ::
    "serve_config \<Rightarrow> ('fs, 'e, 'vk) env \<Rightarrow> string \<Rightarrow> string \<Rightarrow> 'fs \<Rightarrow> 'e upload_error + 'fs" where
  "store_upload cfg env id_hex bytes_hex fs =
     (if length bytes_hex > 2 * MAX_BLOB_BYTES then Inl BlobTooBig
      else
        (case from_hex bytes_hex (length bytes_hex div 2) of
           Inl e \<Rightarrow> Inl (BlobHex e)
         | Inr bs \<Rightarrow>
             (case from_hex id_hex 32 of
                Inl e \<Rightarrow> Inl (BlobIdHex e)
              | Inr claimed \<Rightarrow>
                  if claimed \<noteq> e_blake3 env bs then Inl HashMismatch
                  else
                    (case store_put (sys_os (e_sys env)) (e_blake3 env) (cfg_store_dir cfg) fs bs of
                       Inl e \<Rightarrow> Inl (UploadStore e)
                     | Inr (_, fs) \<Rightarrow> Inr fs))))"

definition handle_blob_upload ::
    "serve_config \<Rightarrow> ('fs, 'e, 'vk) env \<Rightarrow> nat \<Rightarrow> string \<Rightarrow> string \<Rightarrow>
     'fs server \<Rightarrow> 'fs server" where
  "handle_blob_upload cfg env k id_hex bytes_hex s =
     (case map_of (s_conns s) k of
        None \<Rightarrow> s
      | Some c \<Rightarrow>
          if \<not> c_authed c then s
          else if c_uploads c \<ge> MAX_UPLOADS_PER_CONN
          then s\<lparr>s_conns := conn_update k (conn_send (BlobAck id_hex False (Some (e_upload_text env UploadLimit)))) (s_conns s)\<rparr>
          else
            (let cs = conn_update k (\<lambda>c. c\<lparr>c_uploads := c_uploads c + 1\<rparr>) (s_conns s)
             in (case store_upload cfg env id_hex bytes_hex (s_fs s) of
                   Inl e \<Rightarrow> s\<lparr>s_conns := conn_update k (conn_send (BlobAck id_hex False (Some (e_upload_text env e)))) cs\<rparr>
                 | Inr fs \<Rightarrow>
                     s\<lparr>s_conns := conn_update k (conn_send (BlobAck id_hex True None)) cs, s_fs := fs\<rparr>)))"

section \<open>Job submission\<close>

datatype blob_check = BlobsPanic | BlobsBadId | BlobsMissing string string | BlobsPresent

fun check_blobs ::
    "serve_config \<Rightarrow> ('fs, 'e, 'vk) env \<Rightarrow> 'fs \<Rightarrow> (string \<times> string) list \<Rightarrow> blob_check" where
  "check_blobs cfg env fs [] = BlobsPresent"
| "check_blobs cfg env fs ((label, id_hex) # rest) =
     (case content_id_from_hex id_hex of
        None \<Rightarrow> BlobsPanic
      | Some (Inl _) \<Rightarrow> BlobsBadId
      | Some (Inr cid) \<Rightarrow>
          if store_has (sys_os (e_sys env)) (cfg_store_dir cfg) fs cid then check_blobs cfg env fs rest
          else BlobsMissing label id_hex)"

text \<open>The UTF-8 bytes of the dash in the messages.\<close>

definition em_dash :: string where
  "em_dash = [CHR 0xE2, CHR 0x80, CHR 0x94]"

definition missing_text :: "string \<Rightarrow> string \<Rightarrow> string" where
  "missing_text label id_hex =
     ''blob missing: '' @ label @ '' ('' @ id_hex @ '') '' @ em_dash @ '' send BlobUpload first''"

definition no_prover_text :: string where
  "no_prover_text =
     ''coordinator does not run a zk prover '' @ em_dash @ '' high-assurance submissions refused''"

definition ack_submission :: "nat \<Rightarrow> string \<Rightarrow> bool \<Rightarrow> string option \<Rightarrow> bool \<Rightarrow> conns \<Rightarrow> conns" where
  "ack_submission k job_id accepted reason proving cs =
     conn_update k (conn_send (SubmissionAck job_id accepted reason proving)) cs"

text \<open>The gates before the blobs: configuration, connection, key, signature, job id.\<close>

definition submission_allowed ::
    "serve_config \<Rightarrow> ('fs, 'e, 'vk) env \<Rightarrow> conns \<Rightarrow> nat \<Rightarrow> job_descriptor \<Rightarrow> string \<Rightarrow> string \<Rightarrow> bytes option" where
  "submission_allowed cfg env cs k desc pubkey sig =
     (if \<not> cfg_accept_submissions cfg then None
      else
        (case map_of cs k of
           None \<Rightarrow> None
         | Some c \<Rightarrow>
             if \<not> c_authed c then None
             else if (case c_pubkey c of Some pk \<Rightarrow> pk \<noteq> pubkey | None \<Rightarrow> False) then None
             else
               (case e_desc_to_json env desc of
                  None \<Rightarrow> None
                | Some json \<Rightarrow>
                    (case verify_msg env pubkey (submission_message (jd_job_id desc) (e_blake3 env json)) sig of
                       Inl _ \<Rightarrow> None
                     | Inr _ \<Rightarrow>
                         (case confined_name (jd_job_id desc) of Inl _ \<Rightarrow> None | Inr _ \<Rightarrow> Some json)))))"

definition proving_job :: "serve_config \<Rightarrow> nat \<Rightarrow> nat \<Rightarrow> job_descriptor \<Rightarrow> pending_job" where
  "proving_job cfg now k desc =
     \<lparr>pj_descriptor = desc, pj_targets = None, pj_path = join (cfg_jobs_dir cfg) ''zk-proving'',
      pj_dispatched = True, pj_escalated = False, pj_dispatched_ids = [], pj_reserves = [],
      pj_results = [], pj_started = now, pj_zk_accept = None, pj_receipt_claimed = [],
      pj_subscribers = [k]\<rparr>"

definition submitted_path :: "serve_config \<Rightarrow> job_descriptor \<Rightarrow> string" where
  "submitted_path cfg desc = join (cfg_jobs_dir cfg) (''submitted-'' @ jd_job_id desc @ ''.desc.json'')"

definition subscribe :: "nat \<Rightarrow> string \<Rightarrow> pending_job \<Rightarrow> pending_job" where
  "subscribe k job_id p =
     (if jd_job_id (pj_descriptor p) = job_id \<and> k \<notin> set (pj_subscribers p)
      then p\<lparr>pj_subscribers := pj_subscribers p @ [k]\<rparr> else p)"

text \<open>Landing the descriptor in the watched directory, never over an existing file.\<close>

definition land_submission ::
    "serve_config \<Rightarrow> ('fs, 'e, 'vk) env \<Rightarrow> nat \<Rightarrow> job_descriptor \<Rightarrow> bytes \<Rightarrow> 'fs server \<Rightarrow> 'fs server" where
  "land_submission cfg env k desc json s =
     (let path = submitted_path cfg desc; job_id = jd_job_id desc
      in (case create_new (e_sys env) (s_fs s) path of
            Inl _ \<Rightarrow> s
          | Inr fs \<Rightarrow>
              (case write_all (e_sys env) fs path json of
                 (Some _, fs) \<Rightarrow> s\<lparr>s_fs := remove_file (e_sys env) fs path\<rparr>
               | (None, fs) \<Rightarrow>
                   s\<lparr>s_fs := fs,
                     s_conns := ack_submission k job_id True None False (s_conns s),
                     s_subs := (s_subs s)(job_id \<mapsto>
                        (case s_subs s job_id of None \<Rightarrow> [] | Some ks \<Rightarrow> ks) @ [k]),
                     s_pending := map_option (subscribe k job_id) (s_pending s)\<rparr>)))"

definition handle_job_submission ::
    "serve_config \<Rightarrow> ('fs, 'e, 'vk) env \<Rightarrow> nat \<Rightarrow> nat \<Rightarrow> job_descriptor \<Rightarrow> string \<Rightarrow> string \<Rightarrow> bool \<Rightarrow>
     'fs server \<Rightarrow> 'fs server option" where
  "handle_job_submission cfg env now k desc pubkey sig require_zk s =
     (case submission_allowed cfg env (s_conns s) k desc pubkey sig of
        None \<Rightarrow> Some s
      | Some json \<Rightarrow>
          (case check_blobs cfg env (s_fs s)
                  [(''manifest'', jd_manifest desc), (''elf'', jd_elf desc), (''input'', jd_input desc)] of
             BlobsPanic \<Rightarrow> None
           | BlobsBadId \<Rightarrow> Some s
           | BlobsMissing label id_hex \<Rightarrow>
               Some (s\<lparr>s_conns :=
                 ack_submission k (jd_job_id desc) False (Some (missing_text label id_hex)) False (s_conns s)\<rparr>)
           | BlobsPresent \<Rightarrow>
               if require_zk
               then
                 (case cfg_zk_prover cfg of
                    None \<Rightarrow>
                      Some (s\<lparr>s_conns :=
                        ack_submission k (jd_job_id desc) False (Some no_prover_text) False (s_conns s)\<rparr>)
                  | Some _ \<Rightarrow>
                      Some (s\<lparr>s_queue := s_queue s @ [proving_job cfg now k desc],
                              s_conns := ack_submission k (jd_job_id desc) True None True (s_conns s)\<rparr>))
               else Some (land_submission cfg env k desc json s)))"

section \<open>Results and receipt claims\<close>

text \<open>The identity gate of a result: connection, worker id, key, signature.\<close>

definition result_allowed ::
    "serve_config \<Rightarrow> ('fs, 'e, 'vk) env \<Rightarrow> conns \<Rightarrow> nat \<Rightarrow> worker_result \<Rightarrow> bool" where
  "result_allowed cfg env cs k r \<longleftrightarrow>
     (case map_of cs k of
        None \<Rightarrow> False
      | Some c \<Rightarrow>
          c_authed c \<and> worker_id r = c_worker_id c \<and>
          (case (c_pubkey c, pubkey_hex r) of
             (Some pk, Some claimed) \<Rightarrow> pk = claimed
           | (None, _) \<Rightarrow> \<not> cfg_require_identity cfg
           | _ \<Rightarrow> True) \<and>
          verify_signature (e_vk_from_bytes env) (e_vk_verify env) r = Inr ())"

definition handle_result ::
    "serve_config \<Rightarrow> ('fs, 'e, 'vk) env \<Rightarrow> nat \<Rightarrow> worker_result \<Rightarrow> 'fs server \<Rightarrow> 'fs server option" where
  "handle_result cfg env k r s =
     (if \<not> result_allowed cfg env (s_conns s) k r then Some s
      else
        (case s_pending s of
           None \<Rightarrow> Some s
         | Some job \<Rightarrow>
             if wr_job_id r \<noteq> jd_job_id (pj_descriptor job) then Some s
             else if worker_id r \<notin> set (pj_dispatched_ids job) then Some s
             else if worker_id r \<in> worker_id ` set (pj_results job) then Some s
             else if \<not> prefix_ok (result_hash r) 12 then None
             else Some (s\<lparr>s_pending := Some (job\<lparr>pj_results := pj_results job @ [r]\<rparr>)\<rparr>)))"

definition receipt_claim_gate :: "string list \<Rightarrow> string \<Rightarrow> bool \<times> string list" where
  "receipt_claim_gate claimed wid = (if wid \<in> set claimed then (False, claimed) else (True, claimed @ [wid]))"

definition decode_hex32 :: "string \<Rightarrow> hex_error + digest" where
  "decode_hex32 h = from_hex h 32"

definition descriptor_binding :: "job_descriptor \<Rightarrow> hex_error + binding" where
  "descriptor_binding desc =
     (case decode_hex32 (jd_manifest desc) of
        Inl e \<Rightarrow> Inl e
      | Inr m \<Rightarrow>
          (case decode_hex32 (jd_elf desc) of
             Inl e \<Rightarrow> Inl e
           | Inr e \<Rightarrow> (case decode_hex32 (jd_input desc) of Inl e \<Rightarrow> Inl e | Inr i \<Rightarrow> Inr (m, e, i))))"

text \<open>A verified receipt with status 0 decides the job.\<close>

definition receipt_accept :: "string \<Rightarrow> receipt_outcome \<Rightarrow> decision" where
  "receipt_accept wid ro =
     Accept (if ro_chunk_hashes ro = [] then [] else last (ro_chunk_hashes ro))
       (Some (ro_output_hex ro)) [wid] True"

text \<open>The gates of a claim before the attempt is consumed; the result is the decoded receipt.\<close>

definition claim_allowed ::
    "('fs, 'e, 'vk) env \<Rightarrow> pending_job option \<Rightarrow> string \<Rightarrow> string \<Rightarrow> string \<Rightarrow> string \<Rightarrow> string \<Rightarrow>
     (pending_job \<times> bytes) option" where
  "claim_allowed env pending wid job_id pubkey sig receipt_hex =
     (if length receipt_hex > 2 * MAX_RECEIPT_BYTES then None
      else
        (case from_hex receipt_hex (length receipt_hex div 2) of
           Inl _ \<Rightarrow> None
         | Inr receipt \<Rightarrow>
             (case verify_claim_sig env pubkey job_id (e_blake3 env receipt) sig of
                Inl _ \<Rightarrow> None
              | Inr _ \<Rightarrow>
                  (case pending of
                     None \<Rightarrow> None
                   | Some job \<Rightarrow>
                       if job_id \<noteq> jd_job_id (pj_descriptor job) \<or> pj_zk_accept job \<noteq> None then None
                       else if wid \<notin> set (pj_dispatched_ids job) then None
                       else Some (job, receipt)))))"

definition handle_receipt_claim ::
    "serve_config \<Rightarrow> ('fs, 'e, 'vk) env \<Rightarrow> string \<Rightarrow> string \<Rightarrow> string \<Rightarrow> string \<Rightarrow> string \<Rightarrow>
     'fs server \<Rightarrow> 'fs server option" where
  "handle_receipt_claim cfg env wid job_id pubkey sig receipt_hex s =
     (case cfg_zk cfg of
        None \<Rightarrow> Some s
      | Some zk \<Rightarrow>
          (case claim_allowed env (s_pending s) wid job_id pubkey sig receipt_hex of
             None \<Rightarrow> Some s
           | Some (job, receipt) \<Rightarrow>
               (case receipt_claim_gate (pj_receipt_claimed job) wid of
                  (False, _) \<Rightarrow> Some s
                | (True, claimed) \<Rightarrow>
                    (let job = job\<lparr>pj_receipt_claimed := claimed\<rparr>
                     in (case descriptor_binding (pj_descriptor job) of
                           Inl _ \<Rightarrow> Some (s\<lparr>s_pending := Some job\<rparr>)
                         | Inr expected \<Rightarrow>
                             (case verify_receipt (e_sys env) (e_receipt_json env) (zv_cmd zk) receipt expected
                                     (zv_guest_elf zk) False (s_fs s, s_ctr s) of
                                (Inl _, fs, ctr) \<Rightarrow>
                                  Some (s\<lparr>s_pending := Some job, s_fs := fs, s_ctr := ctr\<rparr>)
                              | (Inr ro, fs, ctr) \<Rightarrow>
                                  if ro_status ro \<noteq> 0
                                  then Some (s\<lparr>s_pending := Some job, s_fs := fs, s_ctr := ctr\<rparr>)
                                  else
                                    (let hash = (if ro_chunk_hashes ro = [] then [] else last (ro_chunk_hashes ro))
                                     in if \<not> prefix_ok hash (min 12 (length hash)) then None
                                        else Some (s\<lparr>s_pending := Some (job\<lparr>pj_zk_accept := Some (receipt_accept wid ro)\<rparr>),
                                                     s_fs := fs, s_ctr := ctr\<rparr>)))))))) "

text \<open>The identity gate of \<open>serve\<close> before a claim is looked at.\<close>

definition handle_claim_event ::
    "serve_config \<Rightarrow> ('fs, 'e, 'vk) env \<Rightarrow> nat \<Rightarrow> string \<Rightarrow> string \<Rightarrow> string \<Rightarrow> string \<Rightarrow> string \<Rightarrow>
     'fs server \<Rightarrow> 'fs server option" where
  "handle_claim_event cfg env k wid job_id pubkey sig receipt_hex s =
     (case map_of (s_conns s) k of
        None \<Rightarrow> Some s
      | Some c \<Rightarrow>
          if \<not> c_authed c then Some s
          else if wid \<noteq> c_worker_id c then Some s
          else if (case c_pubkey c of Some pk \<Rightarrow> pk \<noteq> pubkey | None \<Rightarrow> False) then Some s
          else handle_receipt_claim cfg env wid job_id pubkey sig receipt_hex s)"

section \<open>Invariants of connections and of the pending job\<close>

definition conn_inv :: "conn \<Rightarrow> bool" where
  "conn_inv c \<longleftrightarrow>
     c_uploads c \<le> MAX_UPLOADS_PER_CONN \<and> (c_authed c \<longrightarrow> c_nonce c \<noteq> None) \<and>
     c_role c \<in> {''worker'', ''submitter''}"

definition conns_inv :: "conns \<Rightarrow> bool" where
  "conns_inv cs \<longleftrightarrow> distinct (map fst cs) \<and> list_all (\<lambda>(_, c). conn_inv c) cs"

lemma conn_send_simps [simp]:
  "c_uploads (conn_send msg c) = c_uploads c" "c_authed (conn_send msg c) = c_authed c"
  "c_nonce (conn_send msg c) = c_nonce c" "c_role (conn_send msg c) = c_role c"
  "c_worker_id (conn_send msg c) = c_worker_id c" "c_pubkey (conn_send msg c) = c_pubkey c"
  "c_peer_addr (conn_send msg c) = c_peer_addr c"
  by (simp_all add: conn_send_def)

lemma conn_inv_send [simp]: "conn_inv (conn_send msg c) = conn_inv c"
  by (simp add: conn_inv_def)

lemma keys_conn_update [simp]: "map fst (conn_update k f cs) = map fst cs"
  by (induction cs) (auto simp: conn_update_def)

lemma map_of_conn_update: "map_of (conn_update k f cs) i = (if i = k then map_option f (map_of cs i) else map_of cs i)"
  by (induction cs) (auto simp: conn_update_def)

lemma conns_inv_update:
  assumes "conns_inv cs" and "\<And>c. map_of cs k = Some c \<Longrightarrow> conn_inv c \<Longrightarrow> conn_inv (f c)"
  shows "conns_inv (conn_update k f cs)"
proof -
  have "conn_inv (if i = k then f c else c)" if "(i, c) \<in> set cs" for i c
    using that assms by (auto simp: conns_inv_def list_all_iff map_of_eq_Some_iff)
  then show ?thesis using assms(1)
    by (auto simp: conns_inv_def list_all_iff conn_update_def comp_def case_prod_unfold)
qed

lemma conns_inv_send: "conns_inv cs \<Longrightarrow> conns_inv (conn_update k (conn_send msg) cs)"
  by (rule conns_inv_update) simp_all

lemma conns_inv_all: "conns_inv cs \<Longrightarrow> (\<And>c. conn_inv (f c) = conn_inv c) \<Longrightarrow> conns_inv (map (\<lambda>(i, c). (i, f c)) cs)"
  by (auto simp: conns_inv_def list_all_iff comp_def case_prod_unfold)

lemma conns_inv_remove: "conns_inv cs \<Longrightarrow> conns_inv (conn_remove k cs)"
  by (auto simp: conns_inv_def conn_remove_def list_all_iff distinct_map intro: inj_on_subset)

lemma conns_inv_perm: "mset cs = mset cs' \<Longrightarrow> conns_inv cs = conns_inv cs'"
  unfolding conns_inv_def list_all_iff by (metis mset_eq_imp_distinct_iff mset_eq_setD mset_map)

lemma send_first_inv: "send_first p msg cs = Some cs' \<Longrightarrow> conns_inv cs \<Longrightarrow> conns_inv cs'"
proof (induction cs arbitrary: cs')
  case (Cons x cs)
  have keys: "send_first p msg cs = Some cs2 \<Longrightarrow> map fst cs2 = map fst cs" for cs2
    by (induction cs arbitrary: cs2) (auto split: if_splits)
  obtain i c where x: "x = (i, c)" by fastforce
  show ?case
  proof (cases "p c")
    case True
    then show ?thesis using Cons.prems x by (auto simp: conns_inv_def)
  next
    case False
    then obtain cs2 where c2: "send_first p msg cs = Some cs2" "cs' = (i, c) # cs2" using Cons.prems x by auto
    have "conns_inv cs" using Cons.prems x by (simp add: conns_inv_def)
    then show ?thesis using Cons.IH [OF c2(1)] keys [OF c2(1)] Cons.prems(2) c2(2) x
      by (simp add: conns_inv_def)
  qed
qed simp

text \<open>
  One vote per dispatched worker, each validly signed for this job; one receipt claim per dispatched
  worker; and a job decided by a receipt was decided by one that the verifier attested for it.
\<close>

definition signed_for :: "('fs, 'e, 'vk) env \<Rightarrow> string \<Rightarrow> worker_result list \<Rightarrow> bool" where
  "signed_for env job_id rs \<longleftrightarrow>
     distinct (map worker_id rs) \<and>
     list_all (\<lambda>r. wr_job_id r = job_id \<and> verify_signature (e_vk_from_bytes env) (e_vk_verify env) r = Inr ()) rs"

definition receipt_backed :: "serve_config \<Rightarrow> ('fs, 'e, 'vk) env \<Rightarrow> pending_job \<Rightarrow> decision \<Rightarrow> bool" where
  "receipt_backed cfg env job d \<longleftrightarrow>
     (\<exists>zk w receipt expected ro.
        cfg_zk cfg = Some zk \<and> w \<in> set (pj_receipt_claimed job) \<and>
        descriptor_binding (pj_descriptor job) = Inr expected \<and>
        (sys_ok (e_sys env) \<longrightarrow>
           attested (e_sys env) (e_receipt_json env) (zv_cmd zk) receipt expected (zv_guest_elf zk) False ro) \<and>
        ro_status ro = 0 \<and> d = receipt_accept w ro)"

definition job_inv :: "serve_config \<Rightarrow> ('fs, 'e, 'vk) env \<Rightarrow> pending_job \<Rightarrow> bool" where
  "job_inv cfg env job \<longleftrightarrow>
     signed_for env (jd_job_id (pj_descriptor job)) (pj_results job) \<and>
     worker_id ` set (pj_results job) \<subseteq> set (pj_dispatched_ids job) \<and>
     distinct (pj_receipt_claimed job) \<and> set (pj_receipt_claimed job) \<subseteq> set (pj_dispatched_ids job) \<and>
     (\<forall>d. pj_zk_accept job = Some d \<longrightarrow> receipt_backed cfg env job d)"

definition pending_inv :: "serve_config \<Rightarrow> ('fs, 'e, 'vk) env \<Rightarrow> 'fs server \<Rightarrow> bool" where
  "pending_inv cfg env s \<longleftrightarrow>
     conns_inv (s_conns s) \<and> (\<forall>job. s_pending s = Some job \<longrightarrow> job_inv cfg env job)"

lemma job_inv_mono:
  assumes "job_inv cfg env job"
    and "pj_descriptor job' = pj_descriptor job" "pj_results job' = pj_results job"
      "pj_receipt_claimed job' = pj_receipt_claimed job" "pj_zk_accept job' = pj_zk_accept job"
      "set (pj_dispatched_ids job) \<subseteq> set (pj_dispatched_ids job')"
  shows "job_inv cfg env job'"
  using assms unfolding job_inv_def receipt_backed_def by auto

lemma join_reserves_inv: "job_inv cfg env job \<Longrightarrow> job_inv cfg env (join_reserves wid job)"
  by (auto simp: join_reserves_def intro: job_inv_mono)

lemma subscribe_inv: "job_inv cfg env job \<Longrightarrow> job_inv cfg env (subscribe k job_id job)"
  by (auto simp: subscribe_def intro: job_inv_mono)

lemma handle_hello_inv: "conns_inv cs \<Longrightarrow> conns_inv (handle_hello cfg nonce k pubkey wid port role cs)"
  unfolding handle_hello_def by (rule conns_inv_update) (simp_all add: conn_inv_def)

lemma handle_nonce_sig_inv:
  assumes "pending_inv cfg env s"
  shows "pending_inv cfg env (handle_nonce_sig cfg env k sig pow s)"
proof (cases "map_of (s_conns s) k")
  case (Some c)
  have n: "auth_ok cfg env c sig pow \<Longrightarrow> c_nonce c \<noteq> None"
    by (auto simp: auth_ok_def split: option.splits)
  show ?thesis
  proof (cases "auth_ok cfg env c sig pow")
    case True
    then have "conns_inv (conn_update k (\<lambda>c. conn_send (AuthOk (c_worker_id c)) (c\<lparr>c_authed := True\<rparr>)) (s_conns s))"
      using assms n Some by (intro conns_inv_update) (auto simp: pending_inv_def conn_inv_def)
    then show ?thesis using assms True Some
      by (auto simp: pending_inv_def handle_nonce_sig_def intro: join_reserves_inv)
  next
    case False
    then show ?thesis using assms Some
      by (auto simp: pending_inv_def handle_nonce_sig_def intro: conns_inv_update)
  qed
qed (use assms in \<open>simp add: handle_nonce_sig_def\<close>)

lemma handle_blob_request_inv:
  "handle_blob_request cfg env k hex s = Some s' \<Longrightarrow> pending_inv cfg env s \<Longrightarrow> pending_inv cfg env s'"
  by (auto simp: handle_blob_request_def pending_inv_def conns_inv_send split: option.splits if_splits)

lemma handle_blob_upload_inv:
  assumes "pending_inv cfg env s"
  shows "pending_inv cfg env (handle_blob_upload cfg env k id_hex bytes_hex s)"
proof (cases "map_of (s_conns s) k")
  case (Some c)
  have "conns_inv (conn_update k (\<lambda>c. c\<lparr>c_uploads := c_uploads c + 1\<rparr>) (s_conns s))"
    if "\<not> MAX_UPLOADS_PER_CONN \<le> c_uploads c"
    using that assms Some by (intro conns_inv_update) (auto simp: pending_inv_def conn_inv_def)
  then show ?thesis using assms Some
    by (auto simp: handle_blob_upload_def pending_inv_def conns_inv_send Let_def split: sum.splits)
qed (use assms in \<open>simp add: handle_blob_upload_def\<close>)

lemma handle_job_submission_inv:
  assumes "handle_job_submission cfg env now k desc pubkey sig require_zk s = Some s'" and "pending_inv cfg env s"
  shows "pending_inv cfg env s'"
proof -
  have "pending_inv cfg env (land_submission cfg env k desc json s)" for json
    using assms(2)
    by (auto simp: land_submission_def pending_inv_def ack_submission_def conns_inv_send subscribe_inv Let_def
        split: sum.splits prod.splits option.splits)
  then show ?thesis using assms
    by (auto simp: handle_job_submission_def pending_inv_def ack_submission_def conns_inv_send
        split: option.splits blob_check.splits if_splits)
qed

lemma handle_result_inv:
  assumes "handle_result cfg env k r s = Some s'" and "pending_inv cfg env s"
  shows "pending_inv cfg env s'"
proof (cases "s' = s")
  case False
  then obtain job where j: "s_pending s = Some job" "s' = s\<lparr>s_pending := Some (job\<lparr>pj_results := pj_results job @ [r]\<rparr>)\<rparr>"
    "wr_job_id r = jd_job_id (pj_descriptor job)" "worker_id r \<in> set (pj_dispatched_ids job)"
    "worker_id r \<notin> worker_id ` set (pj_results job)" "result_allowed cfg env (s_conns s) k r"
    using assms(1) by (auto simp: handle_result_def split: if_splits option.splits)
  have "verify_signature (e_vk_from_bytes env) (e_vk_verify env) r = Inr ()"
    using j(6) by (auto simp: result_allowed_def split: option.splits)
  then show ?thesis using assms(2) j
    by (auto simp: pending_inv_def job_inv_def signed_for_def receipt_backed_def)
qed (use assms in simp)

lemma claim_allowedD:
  "claim_allowed env pending wid job_id pubkey sig receipt_hex = Some (job, receipt) \<Longrightarrow>
     pending = Some job \<and> wid \<in> set (pj_dispatched_ids job) \<and> pj_zk_accept job = None"
  by (auto simp: claim_allowed_def split: if_splits sum.splits option.splits)

text \<open>A claim that changes the state consumes the worker's attempt and may set the decision.\<close>

definition claim_outcome ::
    "serve_config \<Rightarrow> ('fs, 'e, 'vk) env \<Rightarrow> string \<Rightarrow> 'fs \<times> u64 \<Rightarrow> pending_job \<Rightarrow> pending_job \<Rightarrow> bool" where
  "claim_outcome cfg env wid st job job' \<longleftrightarrow>
     wid \<in> set (pj_dispatched_ids job) \<and> wid \<notin> set (pj_receipt_claimed job) \<and> pj_zk_accept job = None \<and>
     (job' = job\<lparr>pj_receipt_claimed := pj_receipt_claimed job @ [wid]\<rparr> \<or>
      (\<exists>zk receipt expected ro st'. cfg_zk cfg = Some zk \<and> descriptor_binding (pj_descriptor job) = Inr expected \<and>
         verify_receipt (e_sys env) (e_receipt_json env) (zv_cmd zk) receipt expected (zv_guest_elf zk) False st
           = (Inr ro, st') \<and> ro_status ro = 0 \<and>
         job' = job\<lparr>pj_receipt_claimed := pj_receipt_claimed job @ [wid], pj_zk_accept := Some (receipt_accept wid ro)\<rparr>))"

definition claim_changes :: "'fs server \<Rightarrow> 'fs server \<Rightarrow> pending_job \<Rightarrow> pending_job \<Rightarrow> bool" where
  "claim_changes s s' job job' \<longleftrightarrow>
     s_pending s = Some job \<and> s_pending s' = Some job' \<and> s_conns s' = s_conns s \<and>
     s_outcomes s' = s_outcomes s \<and> s_jobs_done s' = s_jobs_done s \<and> s_events s' = s_events s \<and> s_queue s' = s_queue s"

lemma handle_receipt_claim_cases:
  assumes "handle_receipt_claim cfg env wid job_id pubkey sig receipt_hex s = Some s'"
  shows "s' = s \<or> (\<exists>job job'. claim_changes s s' job job' \<and> claim_outcome cfg env wid (s_fs s, s_ctr s) job job')"
proof (cases "\<exists>zk job receipt. cfg_zk cfg = Some zk \<and>
    claim_allowed env (s_pending s) wid job_id pubkey sig receipt_hex = Some (job, receipt) \<and>
    wid \<notin> set (pj_receipt_claimed job)")
  case True
  then obtain zk job receipt where z: "cfg_zk cfg = Some zk"
    and a: "claim_allowed env (s_pending s) wid job_id pubkey sig receipt_hex = Some (job, receipt)"
    and g: "wid \<notin> set (pj_receipt_claimed job)" by blast
  note d = claim_allowedD [OF a]
  let ?job1 = "job\<lparr>pj_receipt_claimed := pj_receipt_claimed job @ [wid]\<rparr>"
  have 1: "claim_outcome cfg env wid (s_fs s, s_ctr s) job ?job1" using d g by (simp add: claim_outcome_def)
  note u = assms [unfolded handle_receipt_claim_def receipt_claim_gate_def z a option.case prod.case if_not_P [OF g] Let_def]
  show ?thesis
  proof (cases "descriptor_binding (pj_descriptor job)")
    case (Inl e)
    then have "claim_changes s s' job ?job1" using u d by (auto simp: claim_changes_def)
    then show ?thesis using 1 by blast
  next
    case (Inr expected)
    obtain res fs ctr where v: "verify_receipt (e_sys env) (e_receipt_json env) (zv_cmd zk) receipt expected
        (zv_guest_elf zk) False (s_fs s, s_ctr s) = (res, fs, ctr)" using prod_cases3 by blast
    show ?thesis
    proof (cases "\<exists>ro. res = Inr ro \<and> ro_status ro = 0")
      case False
      then have "claim_changes s s' job ?job1" using u d v Inr by (cases res) (auto simp: claim_changes_def)
      then show ?thesis using 1 by blast
    next
      case True
      then obtain ro where ro: "res = Inr ro" "ro_status ro = 0" by blast
      let ?job2 = "?job1\<lparr>pj_zk_accept := Some (receipt_accept wid ro)\<rparr>"
      have "claim_changes s s' job ?job2" using u d v Inr ro by (auto simp: claim_changes_def split: if_splits)
      moreover have "claim_outcome cfg env wid (s_fs s, s_ctr s) job ?job2"
        unfolding claim_outcome_def using d g z Inr v ro by blast
      ultimately show ?thesis by blast
    qed
  qed
next
  case False
  then have "s' = s" using assms
    by (auto simp: handle_receipt_claim_def receipt_claim_gate_def split: option.splits if_splits)
  then show ?thesis by blast
qed

lemma claim_outcome_inv:
  assumes "claim_outcome cfg env wid st job job'" and "job_inv cfg env job"
  shows "job_inv cfg env job'"
  using assms(1) unfolding claim_outcome_def
proof (elim conjE disjE exE, goal_cases)
  case 1
  then show ?case using assms(2) by (auto simp: job_inv_def)
next
  case (2 zk receipt expected ro st')
  then have "receipt_backed cfg env job' (receipt_accept wid ro)"
    unfolding receipt_backed_def using verify_receipt_InrD [OF _ 2(6)]
    by (intro exI [of _ zk] exI [of _ wid] exI [of _ receipt] exI [of _ expected] exI [of _ ro]) simp
  then show ?case using 2 assms(2) by (auto simp: job_inv_def)
qed

lemma handle_receipt_claim_inv:
  assumes "handle_receipt_claim cfg env wid job_id pubkey sig receipt_hex s = Some s'" and "pending_inv cfg env s"
  shows "pending_inv cfg env s'"
  using handle_receipt_claim_cases [OF assms(1)] claim_outcome_inv [of cfg env] assms(2)
  by (auto simp: pending_inv_def claim_changes_def)

lemma handle_claim_event_inv:
  "handle_claim_event cfg env k wid job_id pubkey sig receipt_hex s = Some s' \<Longrightarrow> pending_inv cfg env s \<Longrightarrow>
     pending_inv cfg env s'"
  by (auto simp: handle_claim_event_def handle_receipt_claim_inv split: option.splits if_splits)

end
