(* ===== verification/Netjob.thy ===== *)
theory Netjob
  imports Netconn Dispute
begin

text \<open>
  The job side of the network coordinator (\<open>crates/coordinator/src/net.rs\<close>): the watched
  directory, round-1 selection and dispatch, escalation to the reserves, completion, the replay
  and zk judges over the network, the proving queue, and the shared finish path with evidence and
  ledger.
\<close>

section \<open>The jobs directory\<close>

definition DESC_WRITE_GRACE :: nat where
  "DESC_WRITE_GRACE = 5000"

text \<open>\<open>str::trim\<close>, on the whitespace of ASCII.\<close>

definition is_space :: "char \<Rightarrow> bool" where
  "is_space c \<longleftrightarrow> c = CHR '' '' \<or> (9 \<le> char_byte c \<and> char_byte c \<le> 13)"

definition trim :: "string \<Rightarrow> string" where
  "trim s = rev (dropWhile is_space (rev (dropWhile is_space s)))"

fun split_on :: "char \<Rightarrow> string \<Rightarrow> string list" where
  "split_on d [] = [[]]"
| "split_on d (c # cs) =
     (if c = d then [] # split_on d cs
      else (case split_on d cs of [] \<Rightarrow> [[c]] | p # ps \<Rightarrow> (c # p) # ps))"

text \<open>\<open>ends_with\<close> and \<open>trim_end_matches\<close>, which strips the suffix as often as it occurs.\<close>

definition ends_with :: "string \<Rightarrow> string \<Rightarrow> bool" where
  "ends_with s suf \<longleftrightarrow> length suf \<le> length s \<and> drop (length s - length suf) s = suf"

fun trim_end_matches :: "nat \<Rightarrow> string \<Rightarrow> string \<Rightarrow> string" where
  "trim_end_matches 0 s suf = s"
| "trim_end_matches (Suc n) s suf =
     (if suf \<noteq> [] \<and> ends_with s suf then trim_end_matches n (take (length s - length suf) s) suf else s)"

definition desc_suffix :: string where
  "desc_suffix = ''.desc.json''"

definition parse_targets :: "string \<Rightarrow> string list option" where
  "parse_targets name =
     (let stem = trim_end_matches (length name) name desc_suffix
      in if CHR ''@'' \<in> set stem
         then Some (map trim (split_on CHR '','' (drop 1 (dropWhile (\<lambda>c. c \<noteq> CHR ''@'') stem))))
         else None)"

type_synonym queued_job = "job_descriptor \<times> string list option \<times> string"

datatype 'e scan_error = JobsDir 'e | BadDescriptor string

definition load_descriptor ::
    "('fs, 'e, 'vk) env \<Rightarrow> 'fs \<Rightarrow> string \<Rightarrow> string \<Rightarrow> 'e scan_error + job_descriptor" where
  "load_descriptor env fs path name =
     (case os_read (sys_os (e_sys env)) fs path of
        Inl e \<Rightarrow> Inl (JobsDir e)
      | Inr bs \<Rightarrow> (case e_desc_from_json env bs of None \<Rightarrow> Inl (BadDescriptor name) | Some d \<Rightarrow> Inr d))"

fun scan_entries ::
    "('fs, 'e, 'vk) env \<Rightarrow> nat \<Rightarrow> string \<Rightarrow> string list \<Rightarrow> (string \<rightharpoonup> nat) \<Rightarrow> 'fs \<Rightarrow>
     'e scan_error + (queued_job option \<times> (string \<rightharpoonup> nat) \<times> 'fs)" where
  "scan_entries env now dir [] errors fs = Inr (None, errors, fs)"
| "scan_entries env now dir (name # names) errors fs =
     (if \<not> ends_with name desc_suffix then scan_entries env now dir names errors fs
      else
        (let path = join dir name
         in (case load_descriptor env fs path name of
               Inl e \<Rightarrow>
                 (case errors path of
                    Some seen \<Rightarrow>
                      if now - seen \<ge> DESC_WRITE_GRACE then Inl e
                      else scan_entries env now dir names errors fs
                  | None \<Rightarrow> scan_entries env now dir names (errors(path \<mapsto> now)) fs)
             | Inr desc \<Rightarrow>
                 (let dispatching = path @ ''.dispatching''
                  in (case rename (e_sys env) fs path dispatching of
                        Inl e \<Rightarrow> Inl (JobsDir e)
                      | Inr fs \<Rightarrow>
                          Inr (Some (desc, parse_targets name, dispatching), errors(path := None), fs))))))"

definition scan_jobs_dir ::
    "serve_config \<Rightarrow> ('fs, 'e, 'vk) env \<Rightarrow> nat \<Rightarrow> (string \<rightharpoonup> nat) \<Rightarrow> 'fs \<Rightarrow>
     'e scan_error + (queued_job option \<times> (string \<rightharpoonup> nat) \<times> 'fs)" where
  "scan_jobs_dir cfg env now errors fs =
     (case os_list (sys_os (e_sys env)) fs (cfg_jobs_dir cfg) of
        Inl e \<Rightarrow> Inl (JobsDir e)
      | Inr names \<Rightarrow> scan_entries env now (cfg_jobs_dir cfg) names errors fs)"

definition queued :: "nat \<Rightarrow> queued_job \<Rightarrow> nat list \<Rightarrow> pending_job" where
  "queued now q subscribers =
     (case q of (desc, targets, path) \<Rightarrow>
        \<lparr>pj_descriptor = desc, pj_targets = targets, pj_path = path, pj_dispatched = False,
         pj_escalated = False, pj_dispatched_ids = [], pj_reserves = [], pj_results = [],
         pj_started = now, pj_zk_accept = None, pj_receipt_claimed = [], pj_subscribers = subscribers\<rparr>)"

definition scan_step ::
    "serve_config \<Rightarrow> ('fs, 'e, 'vk) env \<Rightarrow> nat \<Rightarrow> 'fs server \<Rightarrow> 'e scan_error + 'fs server" where
  "scan_step cfg env now s =
     (if s_pending s \<noteq> None then Inr s
      else
        (case scan_jobs_dir cfg env now (s_scan_errors s) (s_fs s) of
           Inl e \<Rightarrow> Inl e
         | Inr (None, errors, fs) \<Rightarrow> Inr (s\<lparr>s_scan_errors := errors, s_fs := fs\<rparr>)
         | Inr (Some q, errors, fs) \<Rightarrow>
             (let job_id = jd_job_id (fst q)
              in Inr (s\<lparr>s_scan_errors := errors, s_fs := fs,
                        s_pending := Some (queued now q (case s_subs s job_id of None \<Rightarrow> [] | Some ks \<Rightarrow> ks)),
                        s_subs := (s_subs s)(job_id := None)\<rparr>))))"

section \<open>Round-1 selection and dispatch\<close>

definition is_worker :: "conn \<Rightarrow> bool" where
  "is_worker c \<longleftrightarrow> c_authed c \<and> c_role c = ''worker''"

definition all_present :: "conns \<Rightarrow> string list \<Rightarrow> bool" where
  "all_present cs ids \<longleftrightarrow> list_all (\<lambda>wid. list_ex (\<lambda>(_, c). c_authed c \<and> c_worker_id c = wid) cs) ids"

definition targets_ready :: "serve_config \<Rightarrow> conns \<Rightarrow> pending_job \<Rightarrow> bool" where
  "targets_ready cfg cs job \<longleftrightarrow>
     (let authed_count = length (filter (\<lambda>(_, c). is_worker c) cs);
          pool_ready = (case cfg_pool cfg of None \<Rightarrow> True | Some p \<Rightarrow> authed_count \<ge> p)
      in (case (pj_targets job, cfg_round1_ids cfg) of
            (Some ids, _) \<Rightarrow> all_present cs ids \<and> pool_ready
          | (None, Some ids) \<Rightarrow> all_present cs ids \<and> pool_ready
          | (None, None) \<Rightarrow> authed_count \<ge> (case cfg_pool cfg of None \<Rightarrow> 1 | Some p \<Rightarrow> p)))"

text \<open>The peers that can serve blobs to \<open>wid\<close>.\<close>

definition peer_hints :: "conns \<Rightarrow> string \<Rightarrow> string list" where
  "peer_hints cs wid =
     concat (map (\<lambda>(_, p). if c_authed p \<and> c_worker_id p \<noteq> wid
        then (case c_peer_addr p of None \<Rightarrow> [] | Some a \<Rightarrow> [a]) else []) cs)"

definition candidates :: "conns \<Rightarrow> pending_job \<Rightarrow> (string \<times> string list) list" where
  "candidates cs job =
     map (\<lambda>(_, c). (c_worker_id c, peer_hints cs (c_worker_id c)))
       (filter (\<lambda>(_, c).
          (case pj_targets job of Some ids \<Rightarrow> c_worker_id c \<in> set ids | None \<Rightarrow> c_authed c) \<and> is_worker c) cs)"

definition swap :: "'a list \<Rightarrow> nat \<Rightarrow> nat \<Rightarrow> 'a list" where
  "swap xs i j = xs[i := xs ! j, j := xs ! i]"

text \<open>The loop \<open>for i in (1..len).rev()\<close>; \<open>rng i\<close> is the random number drawn in round \<open>i\<close>.\<close>

fun shuffle_loop :: "(nat \<Rightarrow> u64) \<Rightarrow> nat \<Rightarrow> 'a list \<Rightarrow> 'a list" where
  "shuffle_loop rng 0 xs = xs"
| "shuffle_loop rng (Suc n) xs = shuffle_loop rng n (swap xs (Suc n) (unat (rng (Suc n)) mod (Suc n + 1)))"

definition shuffle :: "(nat \<Rightarrow> u64) \<Rightarrow> 'a list \<Rightarrow> 'a list" where
  "shuffle rng xs = shuffle_loop rng (length xs - 1) xs"

definition select_round1 ::
    "serve_config \<Rightarrow> (nat \<Rightarrow> u64) \<Rightarrow> pending_job \<Rightarrow> (string \<times> string list) list \<Rightarrow> (string \<times> string list) list" where
  "select_round1 cfg rng job cands =
     (case (if pj_targets job = None then cfg_round1_ids cfg else None) of
        Some ids \<Rightarrow>
          concat (map (\<lambda>wid. case find (\<lambda>(w, _). w = wid) cands of None \<Rightarrow> [] | Some x \<Rightarrow> [x]) ids)
      | None \<Rightarrow>
          (case cfg_round1_size cfg of
             Some n \<Rightarrow> if length cands > n then take n (shuffle rng cands) else cands
           | None \<Rightarrow> cands))"

definition reserve_ids :: "conns \<Rightarrow> pending_job \<Rightarrow> string list \<Rightarrow> string list" where
  "reserve_ids cs job selected_ids =
     map (\<lambda>(_, c). c_worker_id c)
       (filter (\<lambda>(_, c).
          is_worker c \<and> c_worker_id c \<notin> set selected_ids \<and>
          (case pj_targets job of None \<Rightarrow> True | Some ids \<Rightarrow> c_worker_id c \<notin> set ids)) cs)"

text \<open>Send the assignment to the first connection under each selected id.\<close>

fun dispatch_loop ::
    "job_descriptor \<Rightarrow> (string \<times> string list) list \<Rightarrow> conns \<Rightarrow> string list \<Rightarrow> conns \<times> string list" where
  "dispatch_loop desc [] cs ids = (cs, ids)"
| "dispatch_loop desc ((wid, hints) # sel) cs ids =
     (case send_first (\<lambda>c. c_worker_id c = wid) (JobAssignment desc hints) cs of
        None \<Rightarrow> dispatch_loop desc sel cs ids
      | Some cs \<Rightarrow> dispatch_loop desc sel cs (ids @ [wid]))"

definition dispatch_step ::
    "serve_config \<Rightarrow> (nat \<Rightarrow> u64) \<Rightarrow> nat \<Rightarrow> 'fs server \<Rightarrow> 'fs server" where
  "dispatch_step cfg rng now s =
     (case s_pending s of
        None \<Rightarrow> s
      | Some job \<Rightarrow>
          if pj_dispatched job \<or> \<not> targets_ready cfg (s_conns s) job then s
          else
            (let selected = select_round1 cfg rng job (candidates (s_conns s) job);
                 reserves = reserve_ids (s_conns s) job (map fst selected)
             in (case dispatch_loop (pj_descriptor job) selected (s_conns s) (pj_dispatched_ids job) of
                   (cs, ids) \<Rightarrow>
                     s\<lparr>s_conns := cs,
                       s_pending := Some (job\<lparr>pj_dispatched_ids := ids, pj_reserves := reserves,
                         pj_dispatched := True, pj_started := now\<rparr>)\<rparr>)))"

section \<open>Completion and escalation\<close>

definition all_in :: "pending_job \<Rightarrow> bool" where
  "all_in job \<longleftrightarrow>
     pj_zk_accept job \<noteq> None \<or>
     list_all (\<lambda>wid. wid \<in> worker_id ` set (pj_results job)) (pj_dispatched_ids job)"

fun escalate_loop :: "job_descriptor \<Rightarrow> string list \<Rightarrow> conns \<Rightarrow> string list \<Rightarrow> conns \<times> string list" where
  "escalate_loop desc [] cs ids = (cs, ids)"
| "escalate_loop desc (wid # reserves) cs ids =
     (case send_first (\<lambda>c. c_worker_id c = wid \<and> c_authed c) (JobAssignment desc (peer_hints cs wid)) cs of
        None \<Rightarrow> escalate_loop desc reserves cs ids
      | Some cs \<Rightarrow> escalate_loop desc reserves cs (ids @ [wid]))"

definition finished_job :: "pending_job \<Rightarrow> pending_job" where
  "finished_job job = job\<lparr>pj_dispatched := True, pj_escalated := False, pj_reserves := []\<rparr>"

datatype 'fs completion = Escalated "'fs server" | Finished pending_job | Unfinished

definition complete_step :: "serve_config \<Rightarrow> nat \<Rightarrow> 'fs server \<Rightarrow> 'fs completion" where
  "complete_step cfg now s =
     (case s_pending s of
        None \<Rightarrow> Unfinished
      | Some job \<Rightarrow>
          if \<not> pj_dispatched job then Unfinished
          else if all_in job
          then
            if decide (pj_results job) (length (pj_dispatched_ids job)) = Escalate \<and> pj_reserves job \<noteq> []
            then
              (case escalate_loop (pj_descriptor job) (pj_reserves job) (s_conns s) (pj_dispatched_ids job) of
                 (cs, ids) \<Rightarrow>
                   Escalated (s\<lparr>s_conns := cs,
                     s_pending := Some (job\<lparr>pj_dispatched_ids := ids, pj_reserves := [],
                       pj_escalated := True, pj_started := now\<rparr>)\<rparr>))
            else Finished (finished_job job)
          else if now - pj_started job > cfg_deadline cfg then Finished (finished_job job)
          else Unfinished)"

section \<open>The judges\<close>

definition work_dir :: "('fs, 'e) sys \<Rightarrow> string \<Rightarrow> string \<Rightarrow> string" where
  "work_dir sys kind job_id = join (temp_dir sys) (kind @ dec_nat (process_id sys) @ ''-'' @ job_id)"

text \<open>Remove the work directory and materialise the job into it.\<close>

definition fresh_materialize ::
    "serve_config \<Rightarrow> ('fs, 'e, 'vk) env \<Rightarrow> job_descriptor \<Rightarrow> string \<Rightarrow> 'fs \<Rightarrow> 'e store_error + 'fs" where
  "fresh_materialize cfg env desc dir fs =
     materialize (sys_os (e_sys env)) (e_blake3 env) (e_manifest_json env) (cfg_store_dir cfg)
       (remove_dir_all (e_sys env) fs dir) desc dir"

definition vindicated :: "string \<Rightarrow> worker_result list \<Rightarrow> string list" where
  "vindicated digest rs = map worker_id (filter (\<lambda>r. wr_chunk_hashes r = [digest]) rs)"

text \<open>The replay judge keeps each worker once.\<close>

definition replay_agreed :: "string \<Rightarrow> worker_result list \<Rightarrow> string list" where
  "replay_agreed digest rs =
     foldl (\<lambda>agreed r. if wr_chunk_hashes r = [digest] \<and> worker_id r \<notin> set agreed
                       then agreed @ [worker_id r] else agreed) [] rs"

text \<open>\<open>None\<close> is a panic; \<open>Some (None, fs)\<close> is no verdict.\<close>

definition judge_by_replay_network ::
    "serve_config \<Rightarrow> ('fs, 'e, 'vk) env \<Rightarrow> pending_job \<Rightarrow> 'fs \<Rightarrow> (decision option \<times> 'fs) option" where
  "judge_by_replay_network cfg env job fs =
     (let sys = e_sys env; os = sys_os sys; dir = work_dir sys ''p2pc-judge-'' (jd_job_id (pj_descriptor job))
      in (case fresh_materialize cfg env (pj_descriptor job) dir fs of
            Inl StorePanic \<Rightarrow> None
          | Inl _ \<Rightarrow> Some (None, remove_dir_all sys fs dir)
          | Inr fs \<Rightarrow>
              (case os_read os fs (join dir ''job.json'') of
                 Inl _ \<Rightarrow> Some (None, fs)
               | Inr manifest_bytes \<Rightarrow>
                   (case e_manifest_json env manifest_bytes of
                      None \<Rightarrow> Some (None, fs)
                    | Some manifest \<Rightarrow>
                        if is_sp1_v2 manifest then Some (None, remove_dir_all sys fs dir)
                        else
                          (case (os_read os fs (join dir (jm_elf manifest)), os_read os fs (join dir (jm_input manifest))) of
                             (Inr elf, Inr input) \<Rightarrow>
                               (case parse elf of
                                  None \<Rightarrow> None
                                | Some (Inl _) \<Rightarrow> Some (None, fs)
                                | Some (Inr img) \<Rightarrow>
                                    (case replay_journal (e_blake3 env) elf (elf_entry img) input
                                            (jm_chunk_size manifest) (jm_max_instructions manifest) of
                                       Panics \<Rightarrow> None
                                     | Diverges \<Rightarrow> None
                                     | Ret None \<Rightarrow> Some (None, fs)
                                     | Ret (Some (n, output)) \<Rightarrow>
                                         (let digest = to_hex (journal_digest (e_sha256 env) n output)
                                          in Some (Some (Accept digest (Some (to_hex output))
                                                          (replay_agreed digest (pj_results job)) False),
                                                   remove_dir_all sys fs dir))))
                           | _ \<Rightarrow> Some (None, fs))))))"

text \<open>What the judge's verdict is turned into, with the manifest read from the work directory.\<close>

definition bound_verdict ::
    "('fs, 'e, 'vk) env \<Rightarrow> job_descriptor \<Rightarrow> string \<Rightarrow> 'fs \<Rightarrow> judge_verdict \<Rightarrow> 'e zk_error + decision" where
  "bound_verdict env desc dir fs v =
     (case descriptor_binding desc of
        Inl e \<Rightarrow> Inl (JobIdHex e)
      | Inr expected \<Rightarrow>
          (case os_read (sys_os (e_sys env)) fs (join dir ''job.json'') of
             Inl e \<Rightarrow> Inl (JobManifestRead e)
           | Inr bs \<Rightarrow>
               (case e_manifest_json env bs of
                  None \<Rightarrow> Inl JobManifestParse
                | Some manifest \<Rightarrow> judge_decision (e_sha256 env) v expected (is_sp1_v2 manifest))))"

definition credit_responders :: "worker_result list \<Rightarrow> decision \<Rightarrow> decision" where
  "credit_responders rs d =
     (case d of Accept hash out agreed True \<Rightarrow> Accept hash out (vindicated hash rs) True | _ \<Rightarrow> d)"

definition zk_judge_network ::
    "serve_config \<Rightarrow> ('fs, 'e, 'vk) env \<Rightarrow> pending_job \<Rightarrow> 'fs \<Rightarrow> (decision option \<times> 'fs) option" where
  "zk_judge_network cfg env job fs =
     (case cfg_zk_judge cfg of
        None \<Rightarrow> Some (None, fs)
      | Some zk \<Rightarrow>
          (let sys = e_sys env; desc = pj_descriptor job; dir = work_dir sys ''p2pc-zkjudge-'' (jd_job_id desc)
           in (case fresh_materialize cfg env desc dir fs of
                 Inl StorePanic \<Rightarrow> None
               | Inl _ \<Rightarrow> Some (None, remove_dir_all sys fs dir)
               | Inr fs \<Rightarrow>
                   (case run_judge sys (e_judge_json env) zk dir
                           (map_option (\<lambda>rd. join rd (jd_job_id desc @ ''.receipt.bin'')) (zj_receipt_dir zk)) fs of
                      (Inl _, fs) \<Rightarrow> Some (None, remove_dir_all sys fs dir)
                    | (Inr v, fs) \<Rightarrow>
                        (case bound_verdict env desc dir fs v of
                           Inl _ \<Rightarrow> Some (None, remove_dir_all sys fs dir)
                         | Inr d \<Rightarrow> Some (Some (credit_responders (pj_results job) d), remove_dir_all sys fs dir))))))"

definition reject_unjudged :: string where
  "reject_unjudged = ''no majority; dispute judgment failed''"

definition final_decision ::
    "serve_config \<Rightarrow> ('fs, 'e, 'vk) env \<Rightarrow> pending_job \<Rightarrow> 'fs \<Rightarrow> (decision \<times> 'fs) option" where
  "final_decision cfg env job fs =
     (case pj_zk_accept job of
        Some d \<Rightarrow> Some (d, fs)
      | None \<Rightarrow>
          (case decide (pj_results job) (length (pj_dispatched_ids job)) of
             Escalate \<Rightarrow>
               (case zk_judge_network cfg env job fs of
                  None \<Rightarrow> None
                | Some (Some d, fs) \<Rightarrow> Some (d, fs)
                | Some (None, fs) \<Rightarrow>
                    (case judge_by_replay_network cfg env job fs of
                       None \<Rightarrow> None
                     | Some (Some d, fs) \<Rightarrow> Some (d, fs)
                     | Some (None, fs) \<Rightarrow> Some (Reject reject_unjudged, fs)))
           | d \<Rightarrow> Some (d, fs)))"

section \<open>The proving queue\<close>

text \<open>The sidecar and the evidence copy, both best effort.\<close>

definition write_or_keep :: "('fs, 'e) sys \<Rightarrow> 'fs \<Rightarrow> string \<Rightarrow> bytes \<Rightarrow> 'fs" where
  "write_or_keep sys fs p bs = (case os_write (sys_os sys) fs p bs of Inl _ \<Rightarrow> fs | Inr fs \<Rightarrow> fs)"

definition mkdir_or_keep :: "('fs, 'e) sys \<Rightarrow> 'fs \<Rightarrow> string \<Rightarrow> 'fs" where
  "mkdir_or_keep sys fs d = (case os_mkdir (sys_os sys) fs d of Inl _ \<Rightarrow> fs | Inr fs \<Rightarrow> fs)"

definition save_proof ::
    "('fs, 'e, 'vk) env \<Rightarrow> zk_judge \<Rightarrow> job_descriptor \<Rightarrow> string \<Rightarrow> judge_verdict \<Rightarrow> 'fs \<Rightarrow> 'fs" where
  "save_proof env zk desc key v fs =
     (case zj_receipt_dir zk of
        None \<Rightarrow> fs
      | Some rd \<Rightarrow>
          (let sys = e_sys env; path = fst (cache_paths rd key)
           in if \<not> os_exists (sys_os sys) fs path then fs
              else
                copy_file sys
                  (mkdir_or_keep sys
                    (write_or_keep sys fs (snd (cache_paths rd key)) (e_meta_json env key (jd_job_id desc) v)) rd)
                  path (join rd (jd_job_id desc @ ''.receipt.bin''))))"

text \<open>The part of \<open>prove_one\<close> after the job's files are there: the cache, then a fresh proof.\<close>

definition prove_materialized ::
    "('fs, 'e, 'vk) env \<Rightarrow> zk_judge \<Rightarrow> job_descriptor \<Rightarrow> string \<Rightarrow> binding \<Rightarrow> bool \<Rightarrow> string \<Rightarrow> 'fs \<times> u64 \<Rightarrow>
     ('e zk_error + decision) \<times> 'fs \<times> u64" where
  "prove_materialized env zk desc dir expected v2 key st =
     (let sys = e_sys env
      in (case (case zj_receipt_dir zk of
                  None \<Rightarrow> (None, st)
                | Some rd \<Rightarrow> verify_cached sys (e_sha256 env) (e_receipt_json env) zk rd key expected v2 st) of
            (Some d, fs, ctr) \<Rightarrow> (Inr d, remove_dir_all sys fs dir, ctr)
          | (None, fs, ctr) \<Rightarrow>
              (case run_judge sys (e_judge_json env) zk dir
                      (map_option (\<lambda>rd. fst (cache_paths rd key)) (zj_receipt_dir zk)) fs of
                 (Inl e, fs) \<Rightarrow> (Inl e, fs, ctr)
               | (Inr v, fs) \<Rightarrow>
                   (judge_decision (e_sha256 env) v expected v2,
                    save_proof env zk desc key v (remove_dir_all sys fs dir), ctr))))"

definition prove_one ::
    "serve_config \<Rightarrow> ('fs, 'e, 'vk) env \<Rightarrow> zk_judge \<Rightarrow> pending_job \<Rightarrow> 'fs \<times> u64 \<Rightarrow>
     (('e zk_error + decision) \<times> 'fs \<times> u64) option" where
  "prove_one cfg env zk job st =
     (case st of (fs, ctr) \<Rightarrow>
        (let sys = e_sys env; desc = pj_descriptor job; dir = work_dir sys ''p2pc-zkprove-'' (jd_job_id desc)
         in (case fresh_materialize cfg env desc dir fs of
               Inl StorePanic \<Rightarrow> None
             | Inl e \<Rightarrow> Some (Inl (JobFiles e), remove_dir_all sys fs dir, ctr)
             | Inr fs \<Rightarrow>
                 (case descriptor_binding desc of
                    Inl e \<Rightarrow> Some (Inl (JobIdHex e), fs, ctr)
                  | Inr expected \<Rightarrow>
                      (case os_read (sys_os sys) fs (join dir ''job.json'') of
                         Inl e \<Rightarrow> Some (Inl (JobManifestRead e), fs, ctr)
                       | Inr bs \<Rightarrow>
                           (case e_manifest_json env bs of
                              None \<Rightarrow> Some (Inl JobManifestParse, fs, ctr)
                            | Some manifest \<Rightarrow>
                                (case receipt_cache_key (e_blake3 env) desc of
                                   None \<Rightarrow> None
                                 | Some key \<Rightarrow>
                                     Some (prove_materialized env zk desc dir expected (is_sp1_v2 manifest) key (fs, ctr)))))))))"

definition proving_decision :: "('fs, 'e, 'vk) env \<Rightarrow> 'e zk_error + decision \<Rightarrow> decision" where
  "proving_decision env r =
     (case r of Inr d \<Rightarrow> d | Inl e \<Rightarrow> Reject (''zk proving failed: '' @ e_error_text env e))"

text \<open>One round of the proving worker: the first job of the queue becomes an event.\<close>

definition proving_step ::
    "serve_config \<Rightarrow> ('fs, 'e, 'vk) env \<Rightarrow> zk_judge \<Rightarrow> 'fs server \<Rightarrow> 'fs server option" where
  "proving_step cfg env zk s =
     (case s_queue s of
        [] \<Rightarrow> Some s
      | job # rest \<Rightarrow>
          (case prove_one cfg env zk job (s_fs s, s_ctr s) of
             None \<Rightarrow> None
           | Some (r, fs, ctr) \<Rightarrow>
               Some (s\<lparr>s_queue := rest, s_fs := fs, s_ctr := ctr,
                       s_events := s_events s @ [EvProved job (proving_decision env r)]\<rparr>)))"

section \<open>Finishing a job\<close>

definition finish_ledger ::
    "serve_config \<Rightarrow> ('fs, 'e, 'vk) env \<Rightarrow> string \<Rightarrow> (string \<times> int) list \<Rightarrow> 'fs \<Rightarrow> 'fs" where
  "finish_ledger cfg env job_id deltas fs =
     (case cfg_ledger cfg of
        None \<Rightarrow> fs
      | Some path \<Rightarrow>
          (let os = sys_os (e_sys env);
               led = (case ledger_load os (e_not_found env) (e_ledger_from_json env) fs path of
                        Inl _ \<Rightarrow> ledger_default | Inr l \<Rightarrow> l);
               led = ledger_apply led job_id ''network-run'' (map (\<lambda>(w, d). (w, word_of_int d)) deltas)
           in (case ledger_save os (e_ledger_to_json env) fs path led of Inl _ \<Rightarrow> fs | Inr fs \<Rightarrow> fs)))"

definition outcome_notice :: "string \<Rightarrow> decision \<Rightarrow> server_to_client option" where
  "outcome_notice job_id d =
     (case d of
        Accept hash out agreed zk \<Rightarrow> Some (JobOutcomeMsg job_id hash agreed out zk None)
      | _ \<Rightarrow> None)"

definition notify :: "server_to_client \<Rightarrow> nat list \<Rightarrow> conns \<Rightarrow> conns" where
  "notify msg ks cs = foldl (\<lambda>cs k. conn_update k (conn_send msg) cs) cs ks"

definition finish_decided_job ::
    "serve_config \<Rightarrow> ('fs, 'e, 'vk) env \<Rightarrow> pending_job \<Rightarrow> decision \<Rightarrow> 'fs server \<Rightarrow> 'fs server" where
  "finish_decided_job cfg env job d s =
     (let job_id = jd_job_id (pj_descriptor job);
          deltas = slashing d (pj_results job);
          cs = (case outcome_notice job_id d of
                  None \<Rightarrow> s_conns s
                | Some msg \<Rightarrow> notify msg (pj_subscribers job) (s_conns s));
          fs = (case cfg_results_dir cfg of
                  None \<Rightarrow> s_fs s
                | Some rd \<Rightarrow>
                    write_or_keep (e_sys env) (mkdir_or_keep (e_sys env) (s_fs s) rd)
                      (join rd (job_id @ ''.json'')) (e_outcome_json env job_id d (pj_results job) deltas))
      in s\<lparr>s_conns := cs, s_fs := finish_ledger cfg env job_id deltas fs,
           s_outcomes := s_outcomes s @
             [\<lparr>jo_job_id = job_id, jo_decision = d, jo_results = pj_results job, jo_bond_deltas = deltas\<rparr>],
           s_jobs_done := s_jobs_done s + 1\<rparr>)"

text \<open>Finish the pending job: decide, record, mark the descriptor done, tell the pool.\<close>

definition finish_pending ::
    "serve_config \<Rightarrow> ('fs, 'e, 'vk) env \<Rightarrow> pending_job \<Rightarrow> 'fs server \<Rightarrow> 'fs server option" where
  "finish_pending cfg env job s =
     (case final_decision cfg env job (s_fs s) of
        None \<Rightarrow> None
      | Some (d, fs) \<Rightarrow>
          (let s = finish_decided_job cfg env job d (s\<lparr>s_fs := fs\<rparr>)
           in Some (s\<lparr>s_fs := (case rename (e_sys env) (s_fs s) (pj_path job) (pj_path job @ ''.done'') of
                                 Inl _ \<Rightarrow> s_fs s | Inr fs \<Rightarrow> fs),
                      s_conns := broadcast_between_jobs (s_conns s),
                      s_pending := None\<rparr>)))"

section \<open>Selection and dispatch\<close>

lemma mset_swap: "i < length xs \<Longrightarrow> j < length xs \<Longrightarrow> mset (swap xs i j) = mset xs"
  by (simp add: swap_def mset_swap)

lemma mset_shuffle_loop: "n < length xs \<or> n = 0 \<Longrightarrow> mset (shuffle_loop rng n xs) = mset xs"
proof (induction n arbitrary: xs)
  case (Suc n)
  let ?j = "unat (rng (Suc n)) mod (Suc n + 1)"
  have "?j < Suc n + 1" by (rule mod_less_divisor) simp
  then have j: "?j < length xs" using Suc.prems by linarith
  have "length (swap xs (Suc n) ?j) = length xs" by (simp add: swap_def)
  then have "mset (shuffle_loop rng n (swap xs (Suc n) ?j)) = mset (swap xs (Suc n) ?j)"
    using Suc by simp
  then show ?case using Suc.prems j by (simp add: mset_swap del: Suc_eq_plus1)
qed simp

lemma mset_shuffle: "mset (shuffle rng xs) = mset xs"
  unfolding shuffle_def by (rule mset_shuffle_loop) (cases xs; simp)

lemma select_round1_subset: "set (select_round1 cfg rng job cands) \<subseteq> set cands"
proof -
  have "set (take n (shuffle rng cands)) \<subseteq> set cands" for n
    using mset_eq_setD [OF mset_shuffle [of rng cands]] set_take_subset by fastforce
  moreover have "x \<in> set cands" if "find P cands = Some x" for P x
    using that by (auto simp: find_Some_iff)
  ultimately show ?thesis
    by (auto simp: select_round1_def split: option.splits if_splits)
qed

lemma candidates_workers:
  "(wid, hints) \<in> set (candidates cs job) \<Longrightarrow> \<exists>(k, c) \<in> set cs. is_worker c \<and> c_worker_id c = wid"
  by (force simp: candidates_def)

lemma dispatch_loop_spec:
  "dispatch_loop desc sel cs ids = (cs', ids') \<Longrightarrow>
     (conns_inv cs \<longrightarrow> conns_inv cs') \<and> (\<exists>new. ids' = ids @ new \<and> set new \<subseteq> fst ` set sel)"
proof (induction desc sel cs ids rule: dispatch_loop.induct)
  case (2 desc wid hints sel cs ids)
  then show ?case
    by (cases "send_first (\<lambda>c. c_worker_id c = wid) (JobAssignment desc hints) cs")
      (auto dest: send_first_inv)
qed simp

lemma escalate_loop_spec:
  "escalate_loop desc reserves cs ids = (cs', ids') \<Longrightarrow>
     (conns_inv cs \<longrightarrow> conns_inv cs') \<and> set ids \<subseteq> set ids' \<and> set ids' \<subseteq> set ids \<union> set reserves"
proof (induction desc reserves cs ids rule: escalate_loop.induct)
  case (2 desc wid reserves cs ids)
  then show ?case
    by (cases "send_first (\<lambda>c. c_worker_id c = wid \<and> c_authed c) (JobAssignment desc (peer_hints cs wid)) cs")
      (auto dest: send_first_inv)
qed simp

lemma dispatch_step_inv:
  assumes "pending_inv cfg env s"
  shows "pending_inv cfg env (dispatch_step cfg rng now s)"
proof (cases "\<exists>job. s_pending s = Some job \<and> \<not> pj_dispatched job \<and> targets_ready cfg (s_conns s) job")
  case True
  then obtain job where j: "s_pending s = Some job" "\<not> pj_dispatched job" "targets_ready cfg (s_conns s) job" by blast
  obtain cs ids where d: "dispatch_loop (pj_descriptor job)
      (select_round1 cfg rng job (candidates (s_conns s) job)) (s_conns s) (pj_dispatched_ids job) = (cs, ids)"
    by fastforce
  let ?job = "job\<lparr>pj_dispatched_ids := ids, pj_reserves := reserve_ids (s_conns s) job
      (map fst (select_round1 cfg rng job (candidates (s_conns s) job))), pj_dispatched := True, pj_started := now\<rparr>"
  have "job_inv cfg env ?job"
    by (rule job_inv_mono [of cfg env job])
      (use assms j dispatch_loop_spec [OF d] in \<open>auto simp: pending_inv_def\<close>)
  then show ?thesis
    using assms j d dispatch_loop_spec [OF d] by (simp add: dispatch_step_def pending_inv_def Let_def)
next
  case False
  then have "dispatch_step cfg rng now s = s" by (auto simp: dispatch_step_def split: option.splits)
  then show ?thesis using assms by simp
qed

lemma complete_step_Escalated_inv:
  assumes "complete_step cfg now s = Escalated s'" and "pending_inv cfg env s"
  shows "pending_inv cfg env s'"
proof -
  obtain job cs ids where j: "s_pending s = Some job"
    and e: "escalate_loop (pj_descriptor job) (pj_reserves job) (s_conns s) (pj_dispatched_ids job) = (cs, ids)"
    and s': "s' = s\<lparr>s_conns := cs, s_pending := Some (job\<lparr>pj_dispatched_ids := ids, pj_reserves := [],
                       pj_escalated := True, pj_started := now\<rparr>)\<rparr>"
    using assms(1) by (auto simp: complete_step_def split: option.splits if_splits prod.splits)
  have "job_inv cfg env (job\<lparr>pj_dispatched_ids := ids, pj_reserves := [], pj_escalated := True, pj_started := now\<rparr>)"
    by (rule job_inv_mono [of cfg env job]) (use assms(2) j escalate_loop_spec [OF e] in \<open>simp_all add: pending_inv_def\<close>)
  then show ?thesis using assms(2) escalate_loop_spec [OF e] s' by (simp add: pending_inv_def)
qed

lemma complete_step_Finished:
  "complete_step cfg now s = Finished job \<Longrightarrow>
     \<exists>job0. s_pending s = Some job0 \<and> pj_dispatched job0 \<and> job = finished_job job0"
  by (auto simp: complete_step_def split: option.splits if_splits prod.splits)

lemma finished_job_inv: "job_inv cfg env job \<Longrightarrow> job_inv cfg env (finished_job job)"
  by (auto simp: finished_job_def intro: job_inv_mono)

lemma queued_inv: "job_inv cfg env (queued now q ks)"
  by (cases q) (simp add: queued_def job_inv_def signed_for_def)

lemma scan_step_inv:
  "scan_step cfg env now s = Inr s' \<Longrightarrow> pending_inv cfg env s \<Longrightarrow> pending_inv cfg env s'"
  by (auto simp: scan_step_def pending_inv_def queued_inv Let_def split: if_splits sum.splits prod.splits option.splits)

lemma notify_inv: "conns_inv cs \<Longrightarrow> conns_inv (notify msg ks cs)"
  by (induction ks arbitrary: cs) (simp_all add: notify_def conns_inv_send)

lemma finish_decided_job_inv:
  "pending_inv cfg env s \<Longrightarrow> pending_inv cfg env (finish_decided_job cfg env job d s)"
  by (auto simp: finish_decided_job_def pending_inv_def notify_inv Let_def split: option.splits)

lemma broadcast_inv: "conns_inv cs \<Longrightarrow> conns_inv (broadcast_between_jobs cs)"
  unfolding broadcast_between_jobs_def by (rule conns_inv_all) simp_all

lemma finish_pending_inv:
  assumes "finish_pending cfg env job s = Some s'" and "pending_inv cfg env s"
  shows "pending_inv cfg env s'"
proof -
  obtain d fs where d: "final_decision cfg env job (s_fs s) = Some (d, fs)"
    using assms(1) by (auto simp: finish_pending_def split: option.splits)
  have "pending_inv cfg env (s\<lparr>s_fs := fs\<rparr>)" using assms(2) by (simp add: pending_inv_def)
  then show ?thesis
    using assms(1) d finish_decided_job_inv [of cfg env "s\<lparr>s_fs := fs\<rparr>" job d]
    by (auto simp: finish_pending_def pending_inv_def broadcast_inv Let_def)
qed

section \<open>What stands behind a judged decision\<close>

definition names_apart :: "job_manifest \<Rightarrow> bool" where
  "names_apart man \<longleftrightarrow>
     jm_elf man \<noteq> ''job.json'' \<and> jm_input man \<noteq> ''job.json'' \<and> jm_elf man \<noteq> jm_input man"

text \<open>The job a descriptor names in the store: blobs that hash to the descriptor's ids.\<close>

definition stored_job ::
    "serve_config \<Rightarrow> ('fs, 'e, 'vk) env \<Rightarrow> 'fs \<Rightarrow> job_descriptor \<Rightarrow> bytes \<Rightarrow> job_manifest \<Rightarrow> bytes \<Rightarrow> bytes \<Rightarrow> bool" where
  "stored_job cfg env fs desc mb man elf input \<longleftrightarrow>
     (let get = get_hex (sys_os (e_sys env)) (e_blake3 env) (cfg_store_dir cfg) fs
      in get (jd_manifest desc) = Inr mb \<and> e_manifest_json env mb = Some man \<and>
         get (jd_elf desc) = Inr elf \<and> get (jd_input desc) = Inr input)"

lemma fresh_materialize_files:
  assumes "os_ok (sys_os (e_sys env))" and "fresh_materialize cfg env desc dir fs = Inr fs'"
  obtains mb man elf input where "stored_job cfg env (remove_dir_all (e_sys env) fs dir) desc mb man elf input"
    and "names_apart man \<Longrightarrow> os_read (sys_os (e_sys env)) fs' (join dir ''job.json'') = Inr mb"
    and "names_apart man \<Longrightarrow> os_read (sys_os (e_sys env)) fs' (join dir (jm_elf man)) = Inr elf"
    and "names_apart man \<Longrightarrow> os_read (sys_os (e_sys env)) fs' (join dir (jm_input man)) = Inr input"
proof -
  from assms(2) show ?thesis
    unfolding fresh_materialize_def
  proof (cases rule: materializeD)
    case (1 mb man elf input f1 f2 f3)
    show ?thesis
      by (rule that [of mb man elf input])
        (use 1 written_files [OF assms(1) 1(7-9)] in \<open>simp_all add: stored_job_def names_apart_def Let_def\<close>)
  qed
qed

text \<open>The digest of the stored job's own replay, with the workers that reported it.\<close>

definition replay_at ::
    "serve_config \<Rightarrow> ('fs, 'e, 'vk) env \<Rightarrow> pending_job \<Rightarrow> 'fs \<Rightarrow> decision \<Rightarrow> bool" where
  "replay_at cfg env job fs d \<longleftrightarrow>
     (\<exists>mb man elf input. stored_job cfg env fs (pj_descriptor job) mb man elf input \<and>
        (names_apart man \<longrightarrow> \<not> is_sp1_v2 man \<and>
           (\<exists>img n output.
              parse elf = Some (Inr img) \<and>
              replay_journal (e_blake3 env) elf (elf_entry img) input (jm_chunk_size man) (jm_max_instructions man)
                = Ret (Some (n, output)) \<and>
              d = (let digest = to_hex (journal_digest (e_sha256 env) n output)
                   in Accept digest (Some (to_hex output)) (replay_agreed digest (pj_results job)) False))))"

definition replay_backed ::
    "serve_config \<Rightarrow> ('fs, 'e, 'vk) env \<Rightarrow> pending_job \<Rightarrow> decision \<Rightarrow> bool" where
  "replay_backed cfg env job d \<longleftrightarrow> (\<exists>fs. replay_at cfg env job fs d)"

definition judge_dir :: "('fs, 'e, 'vk) env \<Rightarrow> pending_job \<Rightarrow> string" where
  "judge_dir env job = work_dir (e_sys env) ''p2pc-judge-'' (jd_job_id (pj_descriptor job))"

lemma judge_by_replay_networkD:
  assumes "os_ok (sys_os (e_sys env))" and "judge_by_replay_network cfg env job fs = Some (Some d, fs')"
  shows "replay_at cfg env job (remove_dir_all (e_sys env) fs (judge_dir env job)) d"
proof -
  let ?dir = "work_dir (e_sys env) ''p2pc-judge-'' (jd_job_id (pj_descriptor job))"
  obtain fs1 where m: "fresh_materialize cfg env (pj_descriptor job) ?dir fs = Inr fs1"
    using assms(2) by (auto simp: judge_by_replay_network_def Let_def split: sum.splits store_error.splits)
  from assms(1) m show ?thesis
  proof (cases rule: fresh_materialize_files)
    case (1 mb man elf input)
    have "\<not> is_sp1_v2 man \<and> (\<exists>img n output. parse elf = Some (Inr img) \<and>
        replay_journal (e_blake3 env) elf (elf_entry img) input (jm_chunk_size man) (jm_max_instructions man)
          = Ret (Some (n, output)) \<and>
        d = (let digest = to_hex (journal_digest (e_sha256 env) n output)
             in Accept digest (Some (to_hex output)) (replay_agreed digest (pj_results job)) False))"
      if n: "names_apart man"
    proof -
      have j: "e_manifest_json env mb = Some man" using 1(1) by (simp add: stored_job_def Let_def)
      note u = assms(2) [unfolded judge_by_replay_network_def Let_def m sum.case 1(2) [OF n] j option.case]
      show ?thesis
        using u 1(3) [OF n] 1(4) [OF n]
        by (auto simp: Let_def split: if_splits option.splits sum.splits judged.splits)
    qed
    then show ?thesis unfolding replay_at_def judge_dir_def using 1(1) by blast
  qed
qed

lemma judge_by_replay_backed:
  "os_ok (sys_os (e_sys env)) \<Longrightarrow> judge_by_replay_network cfg env job fs = Some (Some d, fs') \<Longrightarrow>
     replay_backed cfg env job d"
  unfolding replay_backed_def by (blast dest: judge_by_replay_networkD)

text \<open>A verdict of the judge process, bound to the job.\<close>

definition zk_judged ::
    "serve_config \<Rightarrow> ('fs, 'e, 'vk) env \<Rightarrow> pending_job \<Rightarrow> decision \<Rightarrow> bool" where
  "zk_judged cfg env job d \<longleftrightarrow>
     (\<exists>zk fs dir out ch fs' v expected v2 d0.
        cfg_zk_judge cfg = Some zk \<and>
        spawn (e_sys env) fs (zj_cmd zk) (judge_args zk dir out) = (Inr ch, fs') \<and>
        judge_child (e_judge_json env) ch = Inr v \<and>
        descriptor_binding (pj_descriptor job) = Inr expected \<and>
        judge_decision (e_sha256 env) v expected v2 = (Inr d0 :: 'e zk_error + decision) \<and>
        d = credit_responders (pj_results job) d0)"

lemma run_judgeD:
  "run_judge sys from_json zk dir out fs = (Inr v, fs') \<Longrightarrow>
     \<exists>fs1 ch. spawn sys fs1 (zj_cmd zk) (judge_args zk dir out) = (Inr ch, fs') \<and> judge_child from_json ch = Inr v"
  by (auto simp: run_judge_def split: sum.splits prod.splits)

lemma zk_judge_networkD:
  assumes "zk_judge_network cfg env job fs = Some (Some d, fs')"
  shows "zk_judged cfg env job d"
proof -
  obtain zk where z: "cfg_zk_judge cfg = Some zk"
    using assms by (auto simp: zk_judge_network_def split: option.splits)
  obtain v fs1 fs2 dir out d0
    where r: "run_judge (e_sys env) (e_judge_json env) zk dir out fs1 = (Inr v, fs2)"
      and b: "bound_verdict env (pj_descriptor job) dir fs2 v = Inr d0"
      and d: "d = credit_responders (pj_results job) d0"
    using assms z
    by (auto simp: zk_judge_network_def Let_def split: sum.splits store_error.splits prod.splits)
  obtain expected v2 where "descriptor_binding (pj_descriptor job) = Inr expected"
    "judge_decision (e_sha256 env) v expected v2 = (Inr d0 :: 'b zk_error + decision)"
    using b by (auto simp: bound_verdict_def split: sum.splits option.splits)
  then show ?thesis unfolding zk_judged_def using z d run_judgeD [OF r] by blast
qed

lemma final_decision_cases:
  assumes "os_ok (sys_os (e_sys env))" and "final_decision cfg env job fs = Some (d, fs')"
  shows "pj_zk_accept job = Some d \<or>
         (d \<noteq> Escalate \<and> decide (pj_results job) (length (pj_dispatched_ids job)) = d) \<or>
         (decide (pj_results job) (length (pj_dispatched_ids job)) = Escalate \<and>
          (zk_judged cfg env job d \<or> replay_backed cfg env job d \<or> d = Reject reject_unjudged))"
  using assms(2) zk_judge_networkD [of cfg env job] judge_by_replay_backed [OF assms(1), of cfg job]
  by (auto simp: final_decision_def split: option.splits decision.splits)

end
