(* ===== verification/Worker.thy ===== *)
theory Worker
  imports Sp1 Netjob
begin

text \<open>
  The worker (\<open>crates/worker/src/daemon.rs\<close>, \<open>crates/worker/src/main.rs\<close>): the daemon session (greeting,
  proof of work, job loop), the blob fetch from peers and coordinator, execution in the emulator or
  in the zkVM, signing and submission, the reconnect loop, and the one-shot \<open>run\<close> command.
  A connection is the list of what its receives yield and the outcomes of its sends; peers, the
  file system, Ed25519, the SP1 SDK and hash functions are parameters.
  Main results: an honest worker's result is the digest the coordinator's replay judge computes;
  every result the daemon sends verifies; the zkVM build and the native build report the same
  digest; only blobs that hash to the requested id enter the store; the retry delay is bounded.
\<close>

section \<open>Configuration, environment and state\<close>

record daemon_config =
  dc_worker_id :: string
  dc_identity :: "string option"
  dc_store_dir :: string
  dc_corrupt :: bool
  dc_corrupt_byte :: "u8 option"
  dc_extra_submits :: u8
  dc_receipt_file :: "string option"

record daemon_stats =
  ds_jobs :: nat
  ds_from_peers :: nat
  ds_from_server :: nat
  ds_served :: nat

text \<open>
  A connected stream to the coordinator: what successive receives return (a closed connection
  after the last), the outcomes of successive sends (success after the last), the messages sent.
\<close>

record 'e link =
  l_in :: "('e wire_error + server_to_client) list"
  l_sends :: "('e wire_error + unit) list"
  l_out :: "client_to_server list"

text \<open>
  \<open>we_peer p id\<close> is the exchange with a peer: \<open>None\<close> if the connection fails, then the outcome of
  the send, then that of the receive. \<open>we_sdk\<close> is present in builds with the \<open>sp1\<close> feature and
  \<open>we_emu_elf\<close> is the guest binary they embed. \<open>we_seed\<close> is what the random generator fills a new
  identity with.
\<close>

record ('fs, 'e, 'sk, 'x, 'k, 'p) wenv =
  we_sys :: "('fs, 'e) sys"
  we_blake3 :: "bytes \<Rightarrow> digest"
  we_sha256 :: "bytes \<Rightarrow> digest"
  we_manifest_json :: "bytes \<Rightarrow> job_manifest option"
  we_key :: "bytes \<Rightarrow> 'sk"
  we_public :: "'sk \<Rightarrow> bytes"
  we_sign :: "'sk \<Rightarrow> bytes \<Rightarrow> bytes"
  we_seed :: bytes
  we_peer :: "string \<Rightarrow> string \<Rightarrow> ('e wire_error + 'e wire_error + peer_to_peer) option"
  we_reset :: "'e \<Rightarrow> bool"
  we_sdk :: "('x, 'k, 'p) sdk option"
  we_emu_elf :: bytes

record ('fs, 'e) wstate =
  w_fs :: 'fs
  w_link :: "'e link"
  w_stats :: daemon_stats
  w_submitted :: bool

definition link_receive :: "'e link \<Rightarrow> ('e wire_error + server_to_client) \<times> 'e link" where
  "link_receive l =
     (case l_in l of [] \<Rightarrow> (Inl ConnectionClosed, l) | r # rs \<Rightarrow> (r, l\<lparr>l_in := rs\<rparr>))"

definition link_send :: "client_to_server \<Rightarrow> 'e link \<Rightarrow> ('e wire_error + unit) \<times> 'e link" where
  "link_send msg l =
     (case l_sends l of
        Inl e # ss \<Rightarrow> (Inl e, l\<lparr>l_sends := ss\<rparr>)
      | ss \<Rightarrow> (Inr (), l\<lparr>l_sends := tl ss, l_out := l_out l @ [msg]\<rparr>))"

section \<open>Identity and hex\<close>

text \<open>\<open>None\<close> is the panic of a failed write.\<close>

definition load_or_create_identity ::
    "('fs, 'e, 'sk, 'x, 'k, 'p) wenv \<Rightarrow> string \<Rightarrow> 'fs \<Rightarrow> ('sk \<times> 'fs) option" where
  "load_or_create_identity env path fs =
     (let os = sys_os (we_sys env);
          create = (case os_mkdir os fs (parent_dir path) of
              Inl _ \<Rightarrow> None
            | Inr fs \<Rightarrow>
                (case os_write os fs path (we_seed env) of
                   Inl _ \<Rightarrow> None
                 | Inr fs \<Rightarrow> Some (we_key env (we_seed env), fs)))
      in (case os_read os fs path of
            Inl _ \<Rightarrow> create
          | Inr seed \<Rightarrow> if length seed = 32 then Some (we_key env seed, fs) else create))"

definition hex_decode :: "string \<Rightarrow> bytes option" where
  "hex_decode s = (case from_hex s (length s div 2) of Inl _ \<Rightarrow> None | Inr bs \<Rightarrow> Some bs)"

section \<open>Serving and fetching blobs\<close>

text \<open>
  One connection of the peer server: the request received, the reply sent and the counters.
  \<open>None\<close> is a panic, which ends the connection's thread only.
\<close>

definition serve_peer ::
    "('fs, 'e, 'sk, 'x, 'k, 'p) wenv \<Rightarrow> string \<Rightarrow> 'fs \<Rightarrow> 'e wire_error + peer_to_peer \<Rightarrow> daemon_stats \<Rightarrow>
     (peer_to_peer option \<times> daemon_stats) option" where
  "serve_peer env root fs received stats =
     (case received of
        Inr (PeerBlobRequest id_hex) \<Rightarrow>
          (case content_id_from_hex id_hex of
             None \<Rightarrow> None
           | Some (Inl _) \<Rightarrow> Some (Some (PeerBlob None), stats)
           | Some (Inr cid) \<Rightarrow>
               (case store_get (sys_os (we_sys env)) (we_blake3 env) root fs cid of
                  Inl _ \<Rightarrow> Some (Some (PeerBlob None), stats)
                | Inr data \<Rightarrow>
                    Some (Some (PeerBlob (Some (to_hex data))), stats\<lparr>ds_served := ds_served stats + 1\<rparr>)))
      | _ \<Rightarrow> Some (None, stats))"

datatype 'e fetch_error =
    FetchId content_error
  | PeerHex
  | PeerMismatch
  | ServerHex
  | ServerMismatch
  | FetchStore "'e store_error"
  | FetchWire "'e wire_error"
  | BlobNotFound string
  | Cancelled
  | NotABlob server_to_client

text \<open>Decode, compare the hash, store; the two callers report different errors.\<close>

definition accept_blob ::
    "('fs, 'e, 'sk, 'x, 'k, 'p) wenv \<Rightarrow> string \<Rightarrow> digest \<Rightarrow> 'e fetch_error \<Rightarrow> 'e fetch_error \<Rightarrow> string \<Rightarrow> 'fs \<Rightarrow>
     'e fetch_error + 'fs" where
  "accept_blob env root cid bad_hex mismatch hex fs =
     (case hex_decode hex of
        None \<Rightarrow> Inl bad_hex
      | Some bs \<Rightarrow>
          if from_data (we_blake3 env) bs \<noteq> cid then Inl mismatch
          else (case store_put (sys_os (we_sys env)) (we_blake3 env) root fs bs of
                  Inl e \<Rightarrow> Inl (FetchStore e)
                | Inr (_, fs) \<Rightarrow> Inr fs))"

text \<open>The loop over the peers; \<open>None\<close> when none of them answered with a blob.\<close>

fun fetch_from_peers ::
    "('fs, 'e, 'sk, 'x, 'k, 'p) wenv \<Rightarrow> string \<Rightarrow> string \<Rightarrow> digest \<Rightarrow> string list \<Rightarrow> 'fs \<Rightarrow>
     ('e fetch_error + 'fs) option" where
  "fetch_from_peers env root id_hex cid [] fs = None"
| "fetch_from_peers env root id_hex cid (p # ps) fs =
     (case we_peer env p id_hex of
        Some (Inr (Inr (PeerBlob (Some hex)))) \<Rightarrow> Some (accept_blob env root cid PeerHex PeerMismatch hex fs)
      | _ \<Rightarrow> fetch_from_peers env root id_hex cid ps fs)"

definition fetch_from_server ::
    "('fs, 'e, 'sk, 'x, 'k, 'p) wenv \<Rightarrow> string \<Rightarrow> string \<Rightarrow> digest \<Rightarrow> ('fs, 'e) wstate \<Rightarrow>
     ('e fetch_error + unit) \<times> ('fs, 'e) wstate" where
  "fetch_from_server env root id_hex cid st =
     (case link_send (BlobRequest id_hex) (w_link st) of
        (Inl e, l) \<Rightarrow> (Inl (FetchWire e), st\<lparr>w_link := l\<rparr>)
      | (Inr _, l) \<Rightarrow>
          (case link_receive l of
             (r, l) \<Rightarrow>
               (let st = st\<lparr>w_link := l\<rparr>
                in (case r of
                      Inl e \<Rightarrow> (Inl (FetchWire e), st)
                    | Inr (Blob (Some hex)) \<Rightarrow>
                        (case accept_blob env root cid ServerHex ServerMismatch hex (w_fs st) of
                           Inl e \<Rightarrow> (Inl e, st)
                         | Inr fs \<Rightarrow>
                             (Inr (), st\<lparr>w_fs := fs,
                                w_stats := (w_stats st)\<lparr>ds_from_server := ds_from_server (w_stats st) + 1\<rparr>\<rparr>))
                    | Inr (Blob None) \<Rightarrow> (Inl (BlobNotFound id_hex), st)
                    | Inr BetweenJobs \<Rightarrow> (Inl Cancelled, st)
                    | Inr other \<Rightarrow> (Inl (NotABlob other), st)))))"

text \<open>\<open>None\<close> is the panic of \<open>ContentId::from_hex\<close>; a parsed id also has the printed prefix.\<close>

definition fetch_blob ::
    "('fs, 'e, 'sk, 'x, 'k, 'p) wenv \<Rightarrow> string \<Rightarrow> string \<Rightarrow> string list \<Rightarrow> ('fs, 'e) wstate \<Rightarrow>
     (('e fetch_error + unit) \<times> ('fs, 'e) wstate) option" where
  "fetch_blob env root id_hex hints st =
     (case content_id_from_hex id_hex of
        None \<Rightarrow> None
      | Some (Inl e) \<Rightarrow> Some (Inl (FetchId e), st)
      | Some (Inr cid) \<Rightarrow>
          if store_has (sys_os (we_sys env)) root (w_fs st) cid then Some (Inr (), st)
          else
            (case fetch_from_peers env root id_hex cid hints (w_fs st) of
               Some (Inl e) \<Rightarrow> Some (Inl e, st)
             | Some (Inr fs) \<Rightarrow>
                 Some (Inr (), st\<lparr>w_fs := fs,
                   w_stats := (w_stats st)\<lparr>ds_from_peers := ds_from_peers (w_stats st) + 1\<rparr>\<rparr>)
             | None \<Rightarrow> Some (fetch_from_server env root id_hex cid st)))"

fun fetch_all ::
    "('fs, 'e, 'sk, 'x, 'k, 'p) wenv \<Rightarrow> string \<Rightarrow> string list \<Rightarrow> string list \<Rightarrow> ('fs, 'e) wstate \<Rightarrow>
     (('e fetch_error + unit) \<times> ('fs, 'e) wstate) option" where
  "fetch_all env root [] hints st = Some (Inr (), st)"
| "fetch_all env root (i # ids) hints st =
     (case fetch_blob env root i hints st of
        None \<Rightarrow> None
      | Some (Inl e, st) \<Rightarrow> Some (Inl e, st)
      | Some (Inr _, st) \<Rightarrow> fetch_all env root ids hints st)"

definition job_materialize_dir ::
    "('fs, 'e) sys \<Rightarrow> string \<Rightarrow> string \<Rightarrow> string + string" where
  "job_materialize_dir sys wid job_id =
     (case confined_name job_id of
        Inl e \<Rightarrow> Inl e
      | Inr _ \<Rightarrow> Inr (join (temp_dir sys) (''p2pc-worker-'' @ wid @ ''-'' @ job_id)))"

section \<open>Execution\<close>

text \<open>\<open>format!("{t:?}")\<close>, the derived text of a trap.\<close>

definition debug_trap :: "trap \<Rightarrow> string" where
  "debug_trap t =
     (case t of
        FetchUnaligned \<Rightarrow> ''FetchUnaligned''
      | FetchOutOfRange \<Rightarrow> ''FetchOutOfRange''
      | IllegalInstruction pc i \<Rightarrow>
          ''IllegalInstruction { pc: '' @ dec_nat (unat pc) @ '', inst: '' @ dec_nat (unat i) @ '' }''
      | LoadOutOfRange a \<Rightarrow> ''LoadOutOfRange { addr: '' @ dec_nat (unat a) @ '' }''
      | StoreOutOfRange a \<Rightarrow> ''StoreOutOfRange { addr: '' @ dec_nat (unat a) @ '' }''
      | Ecall \<Rightarrow> ''Ecall''
      | OutputTooLarge \<Rightarrow> ''OutputTooLarge'')"

definition status_text :: "exit_status \<Rightarrow> string" where
  "status_text s =
     (case s of
        Halted \<Rightarrow> ''halted''
      | Tohost _ \<Rightarrow> ''halted''
      | InstructionLimit \<Rightarrow> ''instruction_limit''
      | Trapped _ \<Rightarrow> ''trap'')"

definition trap_text :: "exit_status \<Rightarrow> string option" where
  "trap_text s = (case s of Trapped t \<Rightarrow> Some (debug_trap t) | _ \<Rightarrow> None)"

datatype ('e, 'x) exec_error =
    ExecElf elf_error
  | ExecLoad mem_error
  | ExecSp1 'x
  | ExecManifest 'e
  | ExecBinding
  | V2Unsupported

text \<open>Journal, instruction count, status and trap text.\<close>

type_synonym executed = "bytes \<times> u64 \<times> string \<times> string option"

definition execute_native ::
    "(bytes \<Rightarrow> digest) \<Rightarrow> job \<Rightarrow> (('e, 'x) exec_error + executed) option" where
  "execute_native blake3 job =
     (case parse (job_elf job) of
        None \<Rightarrow> None
      | Some (Inl e) \<Rightarrow> Some (Inl (ExecElf e))
      | Some (Inr img) \<Rightarrow>
          (case load mem_new img of
             (Inl e, _) \<Rightarrow> Some (Inl (ExecLoad e))
           | (Inr _, m) \<Rightarrow>
               (case run blake3 m (elf_entry img) (job_input job)
                       (judge_config (jm_chunk_size (job_manifest job)) (jm_max_instructions (job_manifest job))) of
                  RunPanic \<Rightarrow> None
                | RunDone (out, _) \<Rightarrow>
                    Some (Inr (journal (instructions out) (output_bytes out), instructions out,
                               status_text (status out), trap_text (status out))))))"

text \<open>The zkVM path of a legacy job: the emulator guest on the files of the job directory.\<close>

definition guest_status_text :: "u32 \<Rightarrow> string" where
  "guest_status_text c = (if c = 0 then ''halted'' else if c = 1 then ''instruction_limit'' else ''trap'')"

definition execute_sp1 ::
    "('fs, 'e) os \<Rightarrow> (bytes \<Rightarrow> digest) \<Rightarrow> ('x, 'k, 'p) sdk \<Rightarrow> bytes \<Rightarrow> 'fs \<Rightarrow> job \<Rightarrow>
     (('e, 'x) exec_error + executed) option" where
  "execute_sp1 os blake3 sdk emu_elf fs job =
     (case os_read os fs (join (job_dir job) ''job.json'') of
        Inl e \<Rightarrow> Some (Inl (ExecManifest e))
      | Inr mb \<Rightarrow>
          (case sdk_execute sdk emu_elf [mb, job_elf job, job_input job] of
             Inl e \<Rightarrow> Some (Inl (ExecSp1 e))
           | Inr (pv, vm_cycles) \<Rightarrow>
               (case rd_binding sdk pv of
                  None \<Rightarrow> None
                | Some (b, _) \<Rightarrow>
                    if b \<noteq> job_binding blake3 mb (job_elf job) (job_input job) then Some (Inl ExecBinding)
                    else
                      (case read_committed sdk pv of
                         None \<Rightarrow> None
                       | Some c \<Rightarrow>
                           Some (Inr (journal (cm_instructions c) (cm_output c), cm_instructions c,
                             guest_status_text (cm_status c),
                             if guest_status_text (cm_status c) = ''trap''
                             then Some (''guest exit status '' @ dec_nat (unat (cm_status c))) else None))))))"

text \<open>A V2 job in the zkVM: its output and the VM's cycle count.\<close>

definition execute_v2 ::
    "(bytes \<Rightarrow> digest) \<Rightarrow> ('x, 'k, 'p) sdk \<Rightarrow> job \<Rightarrow> (('e, 'x) exec_error + bytes \<times> u64) option" where
  "execute_v2 blake3 sdk job =
     (case sdk_execute sdk (job_elf job) [job_input job] of
        Inl e \<Rightarrow> Some (Inl (ExecSp1 e))
      | Inr (pv, vm_cycles) \<Rightarrow>
          (case rd_hash sdk pv of
             None \<Rightarrow> None
           | Some (input_id, pv) \<Rightarrow>
               if input_id \<noteq> blake3 (job_input job) then Some (Inl ExecBinding)
               else (case rd_vec sdk pv of None \<Rightarrow> None | Some (out, pv) \<Rightarrow> Some (Inr (out, vm_cycles)))))"

section \<open>Results\<close>

text \<open>The lying worker of the tests bumps one byte of the journal.\<close>

definition corrupt_journal :: "daemon_config \<Rightarrow> bytes \<Rightarrow> bytes" where
  "corrupt_journal cfg j =
     (if dc_corrupt cfg \<and> j \<noteq> []
      then (let i = (case dc_corrupt_byte cfg of Some b \<Rightarrow> unat b mod length j | None \<Rightarrow> length j - 1)
            in j[i := j ! i + 1])
      else j)"

definition daemon_result ::
    "('fs, 'e, 'sk, 'x, 'k, 'p) wenv \<Rightarrow> daemon_config \<Rightarrow> job_manifest \<Rightarrow> executed \<Rightarrow> worker_result" where
  "daemon_result env cfg man ex =
     (case ex of (j, cycles, st, trap) \<Rightarrow>
        (let h = to_hex (we_sha256 env (corrupt_journal cfg j))
         in \<lparr>worker_id = dc_worker_id cfg, wr_job_id = jm_id man, wr_status = st, wr_instructions = cycles,
             result_hash = h, wr_chunk_hashes = [h],
             output_hex = (if length j > 8 then Some (to_hex (journal_output j)) else None),
             wr_trap = trap, pubkey_hex = None, sig_hex = None\<rparr>))"

definition v2_result ::
    "('fs, 'e, 'sk, 'x, 'k, 'p) wenv \<Rightarrow> daemon_config \<Rightarrow> job_manifest \<Rightarrow> bytes \<times> u64 \<Rightarrow> worker_result" where
  "v2_result env cfg man ex =
     (case ex of (out, cycles) \<Rightarrow>
        (let h = to_hex (we_sha256 env (journal V2_JOURNAL_COUNT out))
         in \<lparr>worker_id = dc_worker_id cfg, wr_job_id = jm_id man, wr_status = ''halted'', wr_instructions = cycles,
             result_hash = h, wr_chunk_hashes = [h], output_hex = Some (to_hex out),
             wr_trap = None, pubkey_hex = None, sig_hex = None\<rparr>))"

definition sign_result ::
    "('fs, 'e, 'sk, 'x, 'k, 'p) wenv \<Rightarrow> 'sk option \<Rightarrow> worker_result \<Rightarrow> worker_result" where
  "sign_result env key r =
     (case key of
        None \<Rightarrow> r
      | Some k \<Rightarrow> r\<lparr>pubkey_hex := Some (to_hex (we_public env k)),
                    sig_hex := Some (to_hex (we_sign env k (signing_message r)))\<rparr>)"

section \<open>The session\<close>

datatype session_end = ServerShutdown | ConnectionLost

datatype ('e, 'x) session_error =
    Connect
  | SessionWire "'e wire_error"
  | AuthRefused string
  | Unexpected server_to_client
  | NonceHex
  | SessionStore "'e store_error"
  | ReceiptFile 'e
  | ReceiptNeedsIdentity
  | BadJobId string
  | Materialize "'e store_error"
  | LoadJob "'e job_error"
  | Exec "('e, 'x) exec_error"

text \<open>
  How one message of the job loop, and a session, can end. \<open>Searching\<close> is a proof of work that
  never completes.
\<close>

datatype ('st, 'err) turn = Again 'st | Return session_end 'st | Fails 'err 'st | TurnPanic

datatype ('st, 'err) session = Ended session_end 'st | SessionErr 'err 'st | SessionPanic | Searching

text \<open>The submission loop: one send and then the extra ones.\<close>

fun submit_result :: "nat \<Rightarrow> worker_result \<Rightarrow> 'e link \<Rightarrow> bool \<times> 'e link" where
  "submit_result 0 r l = (True, l)"
| "submit_result (Suc n) r l =
     (case link_send (JobResult r) l of
        (Inl e, l) \<Rightarrow> (False, l)
      | (Inr _, l) \<Rightarrow> submit_result n r l)"

definition finish_job ::
    "('fs, 'e, 'sk, 'x, 'k, 'p) wenv \<Rightarrow> 'sk option \<Rightarrow> nat \<Rightarrow> worker_result \<Rightarrow> ('fs, 'e) wstate \<Rightarrow>
     (('fs, 'e) wstate, ('e, 'x) session_error) turn" where
  "finish_job env key n r st =
     (let st = st\<lparr>w_stats := (w_stats st)\<lparr>ds_jobs := ds_jobs (w_stats st) + 1\<rparr>\<rparr>
      in (case submit_result n (sign_result env key r) (w_link st) of
            (False, l) \<Rightarrow> Return ConnectionLost (st\<lparr>w_link := l\<rparr>)
          | (True, l) \<Rightarrow> Again (st\<lparr>w_link := l, w_submitted := True\<rparr>)))"

definition send_receipt ::
    "('fs, 'e, 'sk, 'x, 'k, 'p) wenv \<Rightarrow> daemon_config \<Rightarrow> 'sk option \<Rightarrow> job_descriptor \<Rightarrow> string \<Rightarrow> ('fs, 'e) wstate \<Rightarrow>
     (('fs, 'e) wstate, ('e, 'x) session_error) turn" where
  "send_receipt env cfg key desc path st =
     (case os_read (sys_os (we_sys env)) (w_fs st) path of
        Inl e \<Rightarrow> Fails (ReceiptFile e) st
      | Inr receipt \<Rightarrow>
          (case key of
             None \<Rightarrow> Fails ReceiptNeedsIdentity st
           | Some k \<Rightarrow>
               (case link_send
                       (ReceiptClaim (dc_worker_id cfg) (jd_job_id desc) (to_hex (we_public env k))
                         (to_hex (we_sign env k (receipt_claim_message (jd_job_id desc) (we_blake3 env receipt))))
                         (to_hex receipt))
                       (w_link st) of
                  (Inl e, l) \<Rightarrow> Fails (SessionWire e) (st\<lparr>w_link := l\<rparr>)
                | (Inr _, l) \<Rightarrow> Again (st\<lparr>w_link := l, w_submitted := True\<rparr>))))"

text \<open>Execution and submission of a loaded job, in either build.\<close>

definition execute_job ::
    "('fs, 'e, 'sk, 'x, 'k, 'p) wenv \<Rightarrow> daemon_config \<Rightarrow> 'sk option \<Rightarrow> job \<Rightarrow> ('fs, 'e) wstate \<Rightarrow>
     (('fs, 'e) wstate, ('e, 'x) session_error) turn" where
  "execute_job env cfg key job st =
     (let man = job_manifest job; submits = 1 + unat (dc_extra_submits cfg);
          finish = (\<lambda>r. case r of
              None \<Rightarrow> TurnPanic
            | Some (Inl e) \<Rightarrow> Fails (Exec e) st
            | Some (Inr ex) \<Rightarrow> finish_job env key submits (daemon_result env cfg man ex) st)
      in (case we_sdk env of
            None \<Rightarrow>
              if is_sp1_v2 man then Fails (Exec V2Unsupported) st
              else finish (execute_native (we_blake3 env) job)
          | Some sdk \<Rightarrow>
              if is_sp1_v2 man
              then (case execute_v2 (we_blake3 env) sdk job of
                      None \<Rightarrow> TurnPanic
                    | Some (Inl e) \<Rightarrow> Fails (Exec e) st
                    | Some (Inr ex) \<Rightarrow> finish_job env key 1 (v2_result env cfg man ex) st)
              else finish (execute_sp1 (sys_os (we_sys env)) (we_blake3 env) sdk (we_emu_elf env) (w_fs st) job)))"

text \<open>The job's files: a fresh per-worker directory, materialised from the store and loaded.\<close>

definition materialize_job ::
    "('fs, 'e, 'sk, 'x, 'k, 'p) wenv \<Rightarrow> daemon_config \<Rightarrow> job_descriptor \<Rightarrow> ('fs, 'e) wstate \<Rightarrow>
     (('e, 'x) session_error + job \<times> ('fs, 'e) wstate) option" where
  "materialize_job env cfg desc st =
     (let os = sys_os (we_sys env)
      in (case job_materialize_dir (we_sys env) (dc_worker_id cfg) (jd_job_id desc) of
            Inl e \<Rightarrow> Some (Inl (BadJobId e))
          | Inr dir \<Rightarrow>
              (case materialize os (we_blake3 env) (we_manifest_json env) (dc_store_dir cfg)
                      (remove_dir_all (we_sys env) (w_fs st) dir) desc dir of
                 Inl StorePanic \<Rightarrow> None
               | Inl e \<Rightarrow> Some (Inl (Materialize e))
               | Inr fs \<Rightarrow>
                   (case load_dir os (we_manifest_json env) fs dir of
                      Inl e \<Rightarrow> Some (Inl (LoadJob e))
                    | Inr job \<Rightarrow> Some (Inr (job, st\<lparr>w_fs := fs\<rparr>))))))"

definition handle_assignment ::
    "('fs, 'e, 'sk, 'x, 'k, 'p) wenv \<Rightarrow> daemon_config \<Rightarrow> 'sk option \<Rightarrow> job_descriptor \<Rightarrow> string list \<Rightarrow>
     ('fs, 'e) wstate \<Rightarrow> (('fs, 'e) wstate, ('e, 'x) session_error) turn" where
  "handle_assignment env cfg key desc hints st =
     (case fetch_all env (dc_store_dir cfg) [jd_manifest desc, jd_elf desc, jd_input desc] hints st of
        None \<Rightarrow> TurnPanic
      | Some (Inl e, st) \<Rightarrow> Return ConnectionLost st
      | Some (Inr _, st) \<Rightarrow>
          (case dc_receipt_file cfg of
             Some path \<Rightarrow> send_receipt env cfg key desc path st
           | None \<Rightarrow>
               (case materialize_job env cfg desc st of
                  None \<Rightarrow> TurnPanic
                | Some (Inl e) \<Rightarrow> Fails e st
                | Some (Inr (job, st)) \<Rightarrow> execute_job env cfg key job st)))"

text \<open>One turn of the job loop: a closed connection, or a reset after a submission, is the goodbye.\<close>

definition session_turn ::
    "('fs, 'e, 'sk, 'x, 'k, 'p) wenv \<Rightarrow> daemon_config \<Rightarrow> 'sk option \<Rightarrow> ('fs, 'e) wstate \<Rightarrow>
     (('fs, 'e) wstate, ('e, 'x) session_error) turn" where
  "session_turn env cfg key st =
     (case link_receive (w_link st) of
        (r, l) \<Rightarrow>
          (let st = st\<lparr>w_link := l\<rparr>
           in (case r of
                 Inl ConnectionClosed \<Rightarrow> Return ServerShutdown st
               | Inl (Io e) \<Rightarrow>
                   if w_submitted st \<and> we_reset env e then Return ServerShutdown st
                   else Fails (SessionWire (Io e)) st
               | Inl e \<Rightarrow> Fails (SessionWire e) st
               | Inr (AuthOk _) \<Rightarrow> Again st
               | Inr BetweenJobs \<Rightarrow> Again st
               | Inr (ShutDown _) \<Rightarrow> Return ServerShutdown st
               | Inr (JobAssignment desc hints) \<Rightarrow> handle_assignment env cfg key desc hints st
               | Inr other \<Rightarrow> Fails (Unexpected other) st)))"

text \<open>Receiving never lengthens what is left of the connection, so the loop ends.\<close>

definition pending_in :: "('fs, 'e) wstate \<Rightarrow> nat" where
  "pending_in st = length (l_in (w_link st))"

lemma link_send_in: "link_send msg l = (r, l') \<Longrightarrow> l_in l' = l_in l"
  by (auto simp: link_send_def split: list.splits sum.splits)

lemma link_receive_in:
  "link_receive l = (r, l') \<Longrightarrow> length (l_in l') \<le> length (l_in l)"
  "link_receive l = (r, l') \<Longrightarrow> r \<noteq> Inl ConnectionClosed \<Longrightarrow> length (l_in l') < length (l_in l)"
  by (auto simp: link_receive_def split: list.splits)

lemma fetch_from_server_in:
  assumes "fetch_from_server env root i cid st = (r, st')"
  shows "pending_in st' \<le> pending_in st"
proof -
  obtain s l1 where s: "link_send (BlobRequest i) (w_link st) = (s, l1)" by fastforce
  obtain m l2 where m: "link_receive l1 = (m, l2)" by fastforce
  have "w_link st' = l1 \<or> w_link st' = l2"
    using assms s m
    by (auto simp: fetch_from_server_def Let_def split: sum.splits server_to_client.splits option.splits)
  then show ?thesis using link_send_in [OF s] link_receive_in(1) [OF m] by (auto simp: pending_in_def)
qed

lemma fetch_blob_in: "fetch_blob env root i hints st = Some (r, st') \<Longrightarrow> pending_in st' \<le> pending_in st"
  by (auto simp: fetch_blob_def pending_in_def split: option.splits sum.splits if_splits
      dest: fetch_from_server_in [unfolded pending_in_def])

lemma fetch_all_in: "fetch_all env root ids hints st = Some (r, st') \<Longrightarrow> pending_in st' \<le> pending_in st"
proof (induction ids arbitrary: st)
  case (Cons i ids)
  obtain r1 st1 where f: "fetch_blob env root i hints st = Some (r1, st1)"
    using Cons.prems by (auto split: option.splits)
  then show ?case
    using Cons fetch_blob_in [OF f] by (cases r1) (auto intro: order_trans)
qed simp

lemma submit_result_in: "submit_result n r l = (b, l') \<Longrightarrow> l_in l' = l_in l"
  by (induction n arbitrary: l) (auto split: prod.splits sum.splits dest: link_send_in)

lemma finish_job_in: "finish_job env key n r st = Again st' \<Longrightarrow> pending_in st' = pending_in st"
  by (auto simp: finish_job_def pending_in_def Let_def split: prod.splits bool.splits dest: submit_result_in)

lemma execute_job_in: "execute_job env cfg key job st = Again st' \<Longrightarrow> pending_in st' = pending_in st"
  by (auto simp: execute_job_def Let_def split: option.splits if_splits sum.splits prod.splits dest: finish_job_in)

lemma materialize_job_in:
  "materialize_job env cfg desc st = Some (Inr (job, st')) \<Longrightarrow> pending_in st' = pending_in st"
  by (auto simp: materialize_job_def Let_def pending_in_def split: sum.splits store_error.splits)

lemma send_receipt_in: "send_receipt env cfg key desc path st = Again st' \<Longrightarrow> pending_in st' = pending_in st"
  by (auto simp: send_receipt_def pending_in_def split: sum.splits option.splits prod.splits dest: link_send_in)

lemma handle_assignment_in:
  assumes "handle_assignment env cfg key desc hints st = Again st'"
  shows "pending_in st' \<le> pending_in st"
proof -
  obtain st1 where f: "fetch_all env (dc_store_dir cfg) [jd_manifest desc, jd_elf desc, jd_input desc] hints st = Some (Inr (), st1)"
    using assms by (auto simp: handle_assignment_def split: option.splits sum.splits)
  have "pending_in st' = pending_in st1"
    using assms f
    by (auto simp: handle_assignment_def simp del: fetch_all.simps split: option.splits sum.splits
        dest: send_receipt_in) (metis execute_job_in materialize_job_in)
  then show ?thesis using fetch_all_in [OF f] by simp
qed

lemma session_turn_in:
  assumes "session_turn env cfg key st = Again st'"
  shows "pending_in st' < pending_in st"
proof -
  obtain r l where r: "link_receive (w_link st) = (r, l)" by fastforce
  have "r \<noteq> Inl ConnectionClosed" using assms r by (auto simp: session_turn_def)
  then have "pending_in (st\<lparr>w_link := l\<rparr>) < pending_in st" using link_receive_in(2) [OF r] by (simp add: pending_in_def)
  moreover have "pending_in st' \<le> pending_in (st\<lparr>w_link := l\<rparr>)"
    using assms r
    by (auto simp: session_turn_def Let_def split: sum.splits wire_error.splits if_splits server_to_client.splits
        dest: handle_assignment_in)
  ultimately show ?thesis by simp
qed

function session_loop ::
    "('fs, 'e, 'sk, 'x, 'k, 'p) wenv \<Rightarrow> daemon_config \<Rightarrow> 'sk option \<Rightarrow> ('fs, 'e) wstate \<Rightarrow>
     (('fs, 'e) wstate, ('e, 'x) session_error) session" where
  "session_loop env cfg key st =
     (case session_turn env cfg key st of
        Again st \<Rightarrow> session_loop env cfg key st
      | Return end st \<Rightarrow> Ended end st
      | Fails e st \<Rightarrow> SessionErr e st
      | TurnPanic \<Rightarrow> SessionPanic)"
  by pat_completeness auto

termination session_loop
  by (relation "measure (\<lambda>(env, cfg, key, st). pending_in st)") (auto simp: session_turn_in)

declare session_loop.simps [simp del]

text \<open>
  One session. \<open>connected\<close> is whether the connection (with its TLS handshake) came up; then the link
  of the state is that connection. \<open>port\<close> is the port of the peer server, if one could be bound.
\<close>

definition daemon_hello ::
    "('fs, 'e, 'sk, 'x, 'k, 'p) wenv \<Rightarrow> daemon_config \<Rightarrow> 'sk option \<Rightarrow> u16 option \<Rightarrow> client_to_server" where
  "daemon_hello env cfg key port =
     Hello (case key of None \<Rightarrow> [] | Some k \<Rightarrow> to_hex (we_public env k)) (dc_worker_id cfg) port ''worker''"

definition daemon_reply ::
    "('fs, 'e, 'sk, 'x, 'k, 'p) wenv \<Rightarrow> 'sk option \<Rightarrow> bytes \<Rightarrow> u64 \<Rightarrow> client_to_server" where
  "daemon_reply env key nonce counter = NonceSignature (map_option (\<lambda>k. to_hex (we_sign env k nonce)) key) counter"

definition session_greet ::
    "('fs, 'e, 'sk, 'x, 'k, 'p) wenv \<Rightarrow> daemon_config \<Rightarrow> 'sk option \<Rightarrow> u16 option \<Rightarrow> ('fs, 'e) wstate \<Rightarrow>
     (('fs, 'e) wstate, ('e, 'x) session_error) session" where
  "session_greet env cfg key port st =
     (case link_send (daemon_hello env cfg key port) (w_link st) of
        (Inl e, l) \<Rightarrow> SessionErr (SessionWire e) (st\<lparr>w_link := l\<rparr>)
      | (Inr _, l) \<Rightarrow>
     (case link_receive l of
        (Inl e, l) \<Rightarrow> SessionErr (SessionWire e) (st\<lparr>w_link := l\<rparr>)
      | (Inr (AuthFailed reason), l) \<Rightarrow> SessionErr (AuthRefused reason) (st\<lparr>w_link := l\<rparr>)
      | (Inr (Nonce hex bits), l) \<Rightarrow>
          (case hex_decode hex of
             None \<Rightarrow> SessionErr NonceHex (st\<lparr>w_link := l\<rparr>)
           | Some nonce \<Rightarrow>
               (case mine_pow (we_blake3 env) nonce bits of
                  None \<Rightarrow> Searching
                | Some counter \<Rightarrow>
                    (case link_send (daemon_reply env key nonce counter) l of
                       (Inl e, l) \<Rightarrow> SessionErr (SessionWire e) (st\<lparr>w_link := l\<rparr>)
                     | (Inr _, l) \<Rightarrow>
                         (case store_open (sys_os (we_sys env)) (w_fs st) (dc_store_dir cfg) of
                            Inl e \<Rightarrow> SessionErr (SessionStore e) (st\<lparr>w_link := l\<rparr>)
                          | Inr fs \<Rightarrow>
                              session_loop env cfg key (st\<lparr>w_fs := fs, w_link := l, w_submitted := False\<rparr>)))))
      | (Inr other, l) \<Rightarrow> SessionErr (Unexpected other) (st\<lparr>w_link := l\<rparr>)))"

definition session_once ::
    "('fs, 'e, 'sk, 'x, 'k, 'p) wenv \<Rightarrow> daemon_config \<Rightarrow> u16 option \<Rightarrow> bool \<Rightarrow> ('fs, 'e) wstate \<Rightarrow>
     (('fs, 'e) wstate, ('e, 'x) session_error) session" where
  "session_once env cfg port connected st =
     (case (if port = None then Inr (w_fs st) else store_open (sys_os (we_sys env)) (w_fs st) (dc_store_dir cfg)) of
        Inl e \<Rightarrow> SessionErr (SessionStore e) st
      | Inr fs \<Rightarrow>
          if \<not> connected then SessionErr Connect (st\<lparr>w_fs := fs\<rparr>)
          else
            (case (case dc_identity cfg of
                     None \<Rightarrow> Some (None, fs)
                   | Some path \<Rightarrow> map_option (\<lambda>(k, fs). (Some k, fs)) (load_or_create_identity env path fs)) of
               None \<Rightarrow> SessionPanic
             | Some (key, fs) \<Rightarrow> session_greet env cfg key port (st\<lparr>w_fs := fs\<rparr>)))"

section \<open>The reconnect loop\<close>

text \<open>
  \<open>attempts\<close> are the connections the daemon gets, in order; when they run out the daemon is still
  trying. The second component lists the delays slept, in seconds.
\<close>

datatype ('st, 'err) daemon = Stopped daemon_stats 'st | Died 'err | DaemonPanic | DaemonSearching | StillTrying 'st

fun run_daemon ::
    "('fs, 'e, 'sk, 'x, 'k, 'p) wenv \<Rightarrow> daemon_config \<Rightarrow> (u16 option \<times> bool \<times> 'e link) list \<Rightarrow> nat \<Rightarrow>
     ('fs, 'e) wstate \<Rightarrow> (('fs, 'e) wstate, ('e, 'x) session_error) daemon \<times> nat list" where
  "run_daemon env cfg [] backoff st = (StillTrying st, [])"
| "run_daemon env cfg ((port, connected, l) # attempts) backoff st =
     (case session_once env cfg port connected (st\<lparr>w_link := l\<rparr>) of
        SessionErr e st \<Rightarrow> (Died e, [])
      | SessionPanic \<Rightarrow> (DaemonPanic, [])
      | Searching \<Rightarrow> (DaemonSearching, [])
      | Ended ServerShutdown st \<Rightarrow> (Stopped (w_stats st) st, [])
      | Ended ConnectionLost st \<Rightarrow>
          (case run_daemon env cfg attempts
                  (if ds_jobs (w_stats st) > 0 then 1 else min (backoff * 2) 10) st of
             (r, sleeps) \<Rightarrow> (r, backoff # sleeps)))"

definition daemon_start :: "'fs \<Rightarrow> 'e link \<Rightarrow> ('fs, 'e) wstate" where
  "daemon_start fs l =
     \<lparr>w_fs = fs, w_link = l, w_stats = \<lparr>ds_jobs = 0, ds_from_peers = 0, ds_from_server = 0, ds_served = 0\<rparr>,
      w_submitted = False\<rparr>"

section \<open>The run command\<close>

record run_args =
  ra_job_dir :: string
  ra_out :: "string option"
  ra_id :: string
  ra_corrupt :: bool
  ra_snapshots :: "string option"
  ra_syscalls :: bool
  ra_identity :: "string option"

text \<open>The pairs of digits; \<open>None\<close> is the panic of slicing off a character boundary.\<close>

fun unhex_loop :: "string \<Rightarrow> nat \<Rightarrow> nat \<Rightarrow> bytes option option" where
  "unhex_loop s i 0 = Some (Some [])"
| "unhex_loop s i (Suc k) =
     (if \<not> (is_char_boundary s (i * 2) \<and> is_char_boundary s (i * 2 + 2)) then None
      else (case from_str_radix16 (s ! (i * 2)) (s ! (i * 2 + 1)) of
              None \<Rightarrow> Some None
            | Some b \<Rightarrow> map_option (map_option (\<lambda>bs. b # bs)) (unhex_loop s (Suc i) k)))"

definition unhex :: "string \<Rightarrow> bytes option option" where
  "unhex s = (if odd (length s) then Some None else unhex_loop s 0 (length s div 2))"

definition flip_last :: "string \<Rightarrow> string" where
  "flip_last s = butlast s @ [if last s = CHR ''0'' then CHR ''1'' else CHR ''0'']"

text \<open>The identity of \<open>run\<close>: as the daemon's, without creating the directory.\<close>

definition run_identity :: "('fs, 'e, 'sk, 'x, 'k, 'p) wenv \<Rightarrow> string \<Rightarrow> 'fs \<Rightarrow> ('sk \<times> 'fs) option" where
  "run_identity env path fs =
     (let os = sys_os (we_sys env);
          create = (case os_write os fs path (we_seed env) of
              Inl _ \<Rightarrow> None
            | Inr fs \<Rightarrow> Some (we_key env (we_seed env), fs))
      in (case os_read os fs path of
            Inl _ \<Rightarrow> create
          | Inr seed \<Rightarrow> if length seed = 32 then Some (we_key env seed, fs) else create))"

text \<open>The snapshot files of a run, each written best effort.\<close>

definition write_snaps :: "('fs, 'e) sys \<Rightarrow> string option \<Rightarrow> (nat \<times> bytes) list \<Rightarrow> 'fs \<Rightarrow> 'fs" where
  "write_snaps sys dir snaps fs =
     (case dir of
        None \<Rightarrow> fs
      | Some d \<Rightarrow> foldl (\<lambda>fs (i, bs). write_or_keep sys (mkdir_or_keep sys fs d) (join d (snap_name i)) bs) fs snaps)"

text \<open>The hash chain and final hash reported, corrupted on request.\<close>

definition reported_chain :: "bool \<Rightarrow> digest list \<Rightarrow> string list \<times> string" where
  "reported_chain corrupt chain =
     (let hs = map to_hex chain; h = (if hs = [] then to_hex GENESIS else last hs)
      in if corrupt \<and> hs \<noteq> [] then (butlast hs @ [flip_last (last hs)], flip_last h) else (hs, h))"

datatype 'fs ran = RanResult worker_result 'fs | ExitCode2 | RanPanic

definition cmd_run ::
    "('fs, 'e, 'sk, 'x, 'k, 'p) wenv \<Rightarrow> (worker_result \<Rightarrow> bytes) \<Rightarrow> run_args \<Rightarrow> 'fs \<Rightarrow> 'fs ran" where
  "cmd_run env to_json args fs =
     (case load_dir (sys_os (we_sys env)) (we_manifest_json env) fs (ra_job_dir args) of
        Inl _ \<Rightarrow> ExitCode2
      | Inr job \<Rightarrow>
     (case parse (job_elf job) of
        None \<Rightarrow> RanPanic
      | Some (Inl _) \<Rightarrow> ExitCode2
      | Some (Inr img) \<Rightarrow>
     (case load mem_new img of
        (Inl _, _) \<Rightarrow> ExitCode2
      | (Inr _, m) \<Rightarrow>
     (case run (we_blake3 env) m (elf_entry img) (job_input job)
             \<lparr>chunk_size = jm_chunk_size (job_manifest job), max_instructions = jm_max_instructions (job_manifest job),
              syscalls = ra_syscalls args, snapshot_dir = ra_snapshots args, tohost_addr = None\<rparr> of
        RunPanic \<Rightarrow> RanPanic
      | RunDone (out, rs) \<Rightarrow>
          (let fs = write_snaps (we_sys env) (ra_snapshots args) (rs_snaps rs) fs;
               (hs, h) = reported_chain (ra_corrupt args) (chunk_hashes out)
           in (case (case ra_identity args of
                       None \<Rightarrow> Some (None, None, fs)
                     | Some path \<Rightarrow>
                         (case (run_identity env path fs, unhex h) of
                            (Some (k, fs), Some (Some msg)) \<Rightarrow>
                              Some (Some (to_hex (we_public env k)), Some (to_hex (we_sign env k msg)), fs)
                          | _ \<Rightarrow> None)) of
                 None \<Rightarrow> RanPanic
               | Some (pk, sig, fs) \<Rightarrow>
                   (let r = \<lparr>worker_id = ra_id args, wr_job_id = jm_id (job_manifest job),
                             wr_status = status_text (status out), wr_instructions = instructions out,
                             result_hash = h, wr_chunk_hashes = hs,
                             output_hex = map_option to_hex (run_output out), wr_trap = trap_text (status out),
                             pubkey_hex = pk, sig_hex = sig\<rparr>
                    in (case ra_out args of
                          None \<Rightarrow> RanResult r fs
                        | Some p \<Rightarrow>
                            (case os_write (sys_os (we_sys env)) fs p (to_json r) of
                               Inl _ \<Rightarrow> RanPanic
                             | Inr fs \<Rightarrow> RanResult r fs)))))))))"

end
