(* ===== verification/WorkerProps.thy ===== *)
theory WorkerProps
  imports Worker
begin

text \<open>
  What the worker's definitions guarantee: how a result relates to the replay of the job, the
  agreement of the native and the zkVM build, the signatures of a session, the blob fetch, the
  retry delays, and the composition with the coordinator's admission test and replay judge.
\<close>

section \<open>Execution is replay\<close>

lemma execute_native_replay:
  assumes "execute_native blake3 job = (Some (Inr (j, n, st, tr)) :: (('e, 'x) exec_error + executed) option)"
  obtains img out where "parse (job_elf job) = Some (Inr img)"
    and "replay blake3 (job_elf job) (elf_entry img) (job_input job) (jm_chunk_size (job_manifest job))
           (jm_max_instructions (job_manifest job)) = Ret (Some out)"
    and "j = journal (instructions out) (output_bytes out)" and "n = instructions out"
    and "st = status_text (status out)" and "tr = trap_text (status out)"
proof -
  obtain img where i: "parse (job_elf job) = Some (Inr img)"
    using assms by (auto simp: execute_native_def split: option.splits sum.splits)
  obtain m where m: "load mem_new img = (Inr (), m)"
    using assms i by (auto simp: execute_native_def split: sum.splits prod.splits)
  obtain out rs where r: "run blake3 m (elf_entry img) (job_input job)
      (judge_config (jm_chunk_size (job_manifest job)) (jm_max_instructions (job_manifest job))) = RunDone (out, rs)"
    using assms i m by (auto simp: execute_native_def split: run_res.splits)
  show ?thesis
    by (rule that [of img out]) (use assms i m r in \<open>auto simp: execute_native_def replay_def\<close>)
qed

lemma guest_status: "guest_status_text (status_code s) = status_text s"
  by (cases s) (simp_all add: guest_status_text_def status_code_def status_text_def)

lemma guest_of_native:
  assumes "from_json mb = Some (job_manifest job)"
    and "execute_native blake3 job = (Some (Inr (j, n, st, tr)) :: (('e, 'x) exec_error + executed) option)"
  obtains c where "guest_emu blake3 from_json mb (job_elf job) (job_input job) = Some c"
    and "cm_binding c = job_binding blake3 mb (job_elf job) (job_input job)"
    and "j = journal (cm_instructions c) (cm_output c)" and "n = cm_instructions c"
    and "st = guest_status_text (cm_status c)"
proof -
  obtain img where i: "parse (job_elf job) = Some (Inr img)"
    using assms by (auto simp: execute_native_def split: option.splits sum.splits)
  obtain m where m: "load mem_new img = (Inr (), m)"
    using assms i by (auto simp: execute_native_def split: sum.splits prod.splits)
  obtain out rs where r: "run blake3 m (elf_entry img) (job_input job)
      (judge_config (jm_chunk_size (job_manifest job)) (jm_max_instructions (job_manifest job))) = RunDone (out, rs)"
    using assms i m by (auto simp: execute_native_def split: run_res.splits)
  have o: "j = journal (instructions out) (output_bytes out) \<and> n = instructions out \<and> st = status_text (status out)"
    using assms(2) i m r by (auto simp: execute_native_def)
  show ?thesis
    by (rule that [of "\<lparr>cm_binding = job_binding blake3 mb (job_elf job) (job_input job),
          cm_status = status_code (status out), cm_instructions = instructions out,
          cm_chain = chunk_hashes out, cm_output = output_bytes out\<rparr>"])
      (use assms(1) i m r o in \<open>simp_all add: guest_emu_def guest_status\<close>)
qed

lemma read_committed_binding: "read_committed sdk pv = Some c \<Longrightarrow> \<exists>rest. rd_binding sdk pv = Some (cm_binding c, rest)"
  by (auto simp: read_committed_def split: option.splits prod.splits)

section \<open>The job a worker runs\<close>

text \<open>The blobs a descriptor names in the worker's store.\<close>

definition worker_job ::
    "('fs, 'e, 'sk, 'x, 'k, 'p) wenv \<Rightarrow> daemon_config \<Rightarrow> 'fs \<Rightarrow> job_descriptor \<Rightarrow> bytes \<Rightarrow> job_manifest \<Rightarrow> bytes \<Rightarrow>
     bytes \<Rightarrow> bool" where
  "worker_job env cfg fs desc mb man elf input \<longleftrightarrow>
     (let get = get_hex (sys_os (we_sys env)) (we_blake3 env) (dc_store_dir cfg) fs
      in get (jd_manifest desc) = Inr mb \<and> we_manifest_json env mb = Some man \<and>
         get (jd_elf desc) = Inr elf \<and> get (jd_input desc) = Inr input)"

lemma materialize_jobD:
  assumes "os_ok (sys_os (we_sys env))" and "materialize_job env cfg desc st = Some (Inr (job, st'))"
    and "job_materialize_dir (we_sys env) (dc_worker_id cfg) (jd_job_id desc) = Inr dir"
    and "worker_job env cfg (remove_dir_all (we_sys env) (w_fs st) dir) desc mb man elf input" and "names_apart man"
  shows "job = \<lparr>job_manifest = man, job_dir = dir, job_elf = elf, job_input = input\<rparr>"
    and "os_read (sys_os (we_sys env)) (w_fs st') (join dir ''job.json'') = Inr mb"
proof -
  obtain fs where m: "materialize (sys_os (we_sys env)) (we_blake3 env) (we_manifest_json env) (dc_store_dir cfg)
      (remove_dir_all (we_sys env) (w_fs st) dir) desc dir = Inr fs"
    using assms(2,3) by (auto simp: materialize_job_def Let_def split: sum.splits store_error.splits)
  have l: "load_dir (sys_os (we_sys env)) (we_manifest_json env) fs dir = Inr job" and st': "st' = st\<lparr>w_fs := fs\<rparr>"
    using assms(2,3) m by (auto simp: materialize_job_def Let_def split: sum.splits)
  note w = assms(4) [unfolded worker_job_def Let_def]
  from m have files: "os_read (sys_os (we_sys env)) fs (join dir ''job.json'') = Inr mb \<and>
        os_read (sys_os (we_sys env)) fs (join dir (jm_elf man)) = Inr elf \<and>
        os_read (sys_os (we_sys env)) fs (join dir (jm_input man)) = Inr input"
  proof (cases rule: materializeD)
    case (1 mb' man' elf' input' f1 f2 f3)
    then have "mb' = mb" "man' = man" "elf' = elf" "input' = input" using w by simp_all
    then show ?thesis using written_files [OF assms(1) 1(7-9)] assms(5) by (simp add: names_apart_def)
  qed
  show "job = \<lparr>job_manifest = man, job_dir = dir, job_elf = elf, job_input = input\<rparr>"
    using l files w by (simp add: load_dir_def split: sum.splits if_splits)
  show "os_read (sys_os (we_sys env)) (w_fs st') (join dir ''job.json'') = Inr mb"
    using files st' by simp
qed

section \<open>The replay judge and the worker\<close>

lemma replay_agreed_mem:
  assumes "r \<in> set rs" and "wr_chunk_hashes r = [d]"
  shows "worker_id r \<in> set (replay_agreed d rs)"
proof -
  let ?f = "\<lambda>agreed r. if wr_chunk_hashes r = [d] \<and> worker_id r \<notin> set agreed then agreed @ [worker_id r] else agreed"
  have step: "set ag \<subseteq> set (?f ag q)" for ag q by auto
  have mono: "set ag \<subseteq> set (foldl ?f ag qs)" for ag qs
  proof (induction qs arbitrary: ag)
    case (Cons q qs)
    then show ?case using subset_trans [OF step [of ag q] Cons.IH [of "?f ag q"]] by simp
  qed simp
  obtain ps qs where "rs = ps @ r # qs" using assms(1) by (meson split_list)
  moreover have "worker_id r \<in> set (?f (foldl ?f [] ps) r)" using assms(2) by simp
  ultimately have "worker_id r \<in> set (foldl ?f [] rs)"
    using subsetD [OF mono [of "?f (foldl ?f [] ps) r" qs]] by simp
  then show ?thesis by (simp only: replay_agreed_def)
qed

lemma sign_result_simps [simp]:
  "worker_id (sign_result env key r) = worker_id r" "result_hash (sign_result env key r) = result_hash r"
  "wr_chunk_hashes (sign_result env key r) = wr_chunk_hashes r"
  "signing_message (sign_result env key r) = signing_message r"
  by (simp_all add: sign_result_def signing_message_def split: option.split)

lemma honest_result:
  assumes "\<not> dc_corrupt cfg"
  shows "result_hash (daemon_result env cfg man (j, n, st, tr)) = to_hex (we_sha256 env j)"
    "wr_chunk_hashes (daemon_result env cfg man (j, n, st, tr)) = [to_hex (we_sha256 env j)]"
    "worker_id (daemon_result env cfg man (j, n, st, tr)) = dc_worker_id cfg"
  using assms by (simp_all add: daemon_result_def corrupt_journal_def Let_def)

lemma daemon_result_replay:
  assumes "\<not> dc_corrupt cfg" and "execute_native (we_blake3 env) job = (Some (Inr ex) :: (('e, 'x) exec_error + executed) option)"
  obtains img n outp where "parse (job_elf job) = Some (Inr img)"
    and "replay_journal (we_blake3 env) (job_elf job) (elf_entry img) (job_input job)
           (jm_chunk_size (job_manifest job)) (jm_max_instructions (job_manifest job)) = Ret (Some (n, outp))"
    and "result_hash (daemon_result env cfg man ex) = to_hex (journal_digest (we_sha256 env) n outp)"
    and "wr_chunk_hashes (daemon_result env cfg man ex) = [to_hex (journal_digest (we_sha256 env) n outp)]"
proof -
  obtain j n st tr where ex: "ex = (j, n, st, tr)" by (cases ex)
  from assms(2) [unfolded ex] show ?thesis
  proof (cases rule: execute_native_replay)
    case (1 img out)
    show ?thesis
      by (rule that [OF 1(1), of "instructions out" "output_bytes out"])
        (use 1 assms(1) in \<open>simp_all add: ex replay_journal_def output_bytes_def honest_result journal_digest_def\<close>)
  qed
qed

text \<open>Different bytes under one id in the worker's and in the coordinator's store.\<close>

definition blob_clash ::
    "('fs, 'e, 'vk) env \<Rightarrow> serve_config \<Rightarrow> 'fs \<Rightarrow> job_descriptor \<Rightarrow> bytes \<Rightarrow> bytes \<Rightarrow> bytes \<Rightarrow> bool" where
  "blob_clash env scfg fs desc mb elf input \<longleftrightarrow>
     (\<exists>(h, a) \<in> {(jd_manifest desc, mb), (jd_elf desc, elf), (jd_input desc, input)}.
        \<exists>b. get_hex (sys_os (e_sys env)) (e_blake3 env) (cfg_store_dir scfg) fs h = Inr b \<and> collision (e_blake3 env) a b)"

lemma get_hex_hash:
  "get_hex os blake3 root fs h = Inr a \<Longrightarrow> content_id_from_hex h = Some (Inr (blake3 a))"
  by (auto simp: get_hex_def split: option.splits sum.splits dest: store_get_hash)

lemma stored_jobs_equal:
  assumes "worker_job wenv cfg wfs desc mb man elf input" and "stored_job scfg env fs desc mb' man' elf' input'"
    and "we_blake3 wenv = e_blake3 env" and "we_manifest_json wenv = e_manifest_json env"
    and "\<not> blob_clash env scfg fs desc mb elf input"
  shows "mb' = mb \<and> man' = man \<and> elf' = elf \<and> input' = input"
proof -
  have same: "a = b" if "get_hex (sys_os (we_sys wenv)) (e_blake3 env) (dc_store_dir cfg) wfs h = Inr a"
    "get_hex (sys_os (e_sys env)) (e_blake3 env) (cfg_store_dir scfg) fs h = Inr b"
    "\<not> collision (e_blake3 env) a b" for h a b
  proof -
    have "Some (Inr (e_blake3 env a)) = (Some (Inr (e_blake3 env b)) :: (content_error + digest) option)"
      using get_hex_hash [OF that(1)] get_hex_hash [OF that(2)] by (rule trans [OF sym])
    then show ?thesis using that(3) by (simp add: collision_def)
  qed
  note w = assms(1) [unfolded worker_job_def Let_def assms(3,4)] and s = assms(2) [unfolded stored_job_def Let_def]
  have "\<not> collision (e_blake3 env) mb mb'" "\<not> collision (e_blake3 env) elf elf'" "\<not> collision (e_blake3 env) input input'"
    using assms(5) s unfolding blob_clash_def by simp_all
  then have "mb = mb'" "elf = elf'" "input = input'" using same w s by blast+
  then show ?thesis using w s by simp
qed

section \<open>Blobs\<close>

text \<open>A successful fetch either found the blob cached or stored bytes with the requested hash.\<close>

lemma accept_blobD:
  assumes "accept_blob env root cid e1 e2 hex fs = Inr fs'" and "os_ok (sys_os (we_sys env))"
    and "\<not> os_exists (sys_os (we_sys env)) fs (blob_path root cid)"
  obtains bs where "we_blake3 env bs = cid" and "os_read (sys_os (we_sys env)) fs' (blob_path root cid) = Inr bs"
    and "\<And>p. p \<noteq> blob_path root cid \<Longrightarrow> os_read (sys_os (we_sys env)) fs' p = os_read (sys_os (we_sys env)) fs p"
proof -
  obtain bs where h: "we_blake3 env bs = cid"
    and p: "store_put (sys_os (we_sys env)) (we_blake3 env) root fs bs = Inr (cid, fs')"
    using assms(1) by (auto simp: accept_blob_def from_data_def split: option.splits if_splits sum.splits) (metis store_put_id)
  show ?thesis
    by (rule that [OF h store_put_read [OF assms(2) p assms(3)]]) (rule store_put_frame [OF assms(2) p])
qed

lemma fetch_from_peers_accepts:
  assumes "fetch_from_peers env root i cid hints fs = Some (Inr fs')"
  shows "\<exists>hex. accept_blob env root cid PeerHex PeerMismatch hex fs = Inr fs'"
  using assms by (induction hints) (auto split: option.splits sum.splits peer_to_peer.splits)

lemma fetch_from_server_accepts:
  assumes "fetch_from_server env root i cid st = (Inr (), st')"
  shows "\<exists>hex. accept_blob env root cid ServerHex ServerMismatch hex (w_fs st) = Inr (w_fs st')"
  using assms
  by (auto simp: fetch_from_server_def Let_def split: prod.splits sum.splits server_to_client.splits option.splits)

section \<open>Messages sent\<close>

text \<open>Sending only appends, so what was sent stays sent.\<close>

lemma link_send_out:
  "link_send msg l = (r, l') \<Longrightarrow> l_out l' = l_out l \<or> (r = Inr () \<and> l_out l' = l_out l @ [msg])"
  by (auto simp: link_send_def split: list.splits sum.splits)

lemma link_receive_out: "link_receive l = (r, l') \<Longrightarrow> l_out l' = l_out l"
  by (auto simp: link_receive_def split: list.splits)

text \<open>All messages of a connection, and of the state a turn leaves, whichever way it ends.\<close>

definition all_sent :: "(client_to_server \<Rightarrow> bool) \<Rightarrow> ('fs, 'e) wstate \<Rightarrow> bool" where
  "all_sent good st \<longleftrightarrow> list_all good (l_out (w_link st))"

definition turn_sent :: "(client_to_server \<Rightarrow> bool) \<Rightarrow> (('fs, 'e) wstate, 'err) turn \<Rightarrow> bool" where
  "turn_sent good t \<longleftrightarrow>
     (case t of
        Again st \<Rightarrow> all_sent good st
      | Return _ st \<Rightarrow> all_sent good st
      | Fails _ st \<Rightarrow> all_sent good st
      | TurnPanic \<Rightarrow> True)"

text \<open>
  A property of messages that the session keeps for all it sends, given for each kind of message
  of the job loop: blob requests, signed results and receipt claims.
\<close>

locale sent_messages =
  fixes env :: "('fs, 'e, 'sk, 'x, 'k, 'p) wenv" and cfg :: daemon_config and key :: "'sk option"
    and good :: "client_to_server \<Rightarrow> bool"
  assumes requests: "good (BlobRequest i)"
    and results: "worker_id r = dc_worker_id cfg \<Longrightarrow> good (JobResult (sign_result env key r))"
    and claims: "key = Some k \<Longrightarrow> good (ReceiptClaim (dc_worker_id cfg) j (to_hex (we_public env k))
       (to_hex (we_sign env k (receipt_claim_message j (we_blake3 env bs)))) (to_hex bs))"
begin

lemma send_good: "link_send msg l = (r, l') \<Longrightarrow> good msg \<Longrightarrow> list_all good (l_out l) \<Longrightarrow> list_all good (l_out l')"
  using link_send_out [of msg l r l'] by auto

lemma fetch_from_server_good:
  assumes "fetch_from_server env root i cid st = (r, st')" and "all_sent good st"
  shows "all_sent good st'"
proof -
  obtain s l1 where s: "link_send (BlobRequest i) (w_link st) = (s, l1)" by fastforce
  obtain m l2 where m: "link_receive l1 = (m, l2)" by fastforce
  have "w_link st' = l1 \<or> w_link st' = l2"
    using assms(1) s m
    by (auto simp: fetch_from_server_def Let_def split: sum.splits server_to_client.splits option.splits)
  then show ?thesis
    using send_good [OF s requests] link_receive_out [OF m] assms(2) by (auto simp: all_sent_def)
qed

lemma fetch_blob_good:
  assumes "fetch_blob env root i hints st = Some (r, st')" and "all_sent good st"
  shows "all_sent good st'"
proof -
  have "w_link st' = w_link st \<or> (\<exists>cid r. fetch_from_server env root i cid st = (r, st'))"
    using assms(1) by (auto simp: fetch_blob_def split: option.splits sum.splits if_splits)
  then show ?thesis using fetch_from_server_good assms(2) by (auto simp: all_sent_def)
qed

lemma fetch_all_good: "fetch_all env root ids hints st = Some (r, st') \<Longrightarrow> all_sent good st \<Longrightarrow> all_sent good st'"
proof (induction ids arbitrary: st)
  case (Cons i ids)
  obtain r1 st1 where f: "fetch_blob env root i hints st = Some (r1, st1)"
    using Cons.prems(1) by (auto split: option.splits)
  have "all_sent good st1" using fetch_blob_good [OF f Cons.prems(2)] .
  then show ?case using Cons.prems(1) f Cons.IH by (cases r1) auto
qed simp

lemma submit_result_good:
  "submit_result n (sign_result env key r) l = (b, l') \<Longrightarrow> worker_id r = dc_worker_id cfg \<Longrightarrow>
     list_all good (l_out l) \<Longrightarrow> list_all good (l_out l')"
proof (induction n arbitrary: l)
  case (Suc n)
  obtain x l1 where s: "link_send (JobResult (sign_result env key r)) l = (x, l1)" by fastforce
  have "list_all good (l_out l1)" using send_good [OF s results] Suc.prems by simp
  then show ?case using Suc s by (cases x) auto
qed simp

lemma finish_job_good:
  assumes "all_sent good st" and "worker_id r = dc_worker_id cfg"
  shows "turn_sent good (finish_job env key n r st)"
proof -
  obtain b l where s: "submit_result n (sign_result env key r) (w_link st) = (b, l)" by fastforce
  have "list_all good (l_out l)" using submit_result_good [OF s assms(2)] assms(1) by (simp add: all_sent_def)
  then show ?thesis using s by (cases b) (simp_all add: finish_job_def turn_sent_def all_sent_def Let_def)
qed

lemma execute_job_good: "all_sent good st \<Longrightarrow> turn_sent good (execute_job env cfg key job st)"
  using finish_job_good [of st]
  by (auto simp: execute_job_def Let_def turn_sent_def daemon_result_def v2_result_def
      split: option.splits sum.splits prod.splits)

lemma send_receipt_good:
  assumes "all_sent good st"
  shows "turn_sent good (send_receipt env cfg key desc path st)"
proof (cases "\<exists>bs k. os_read (sys_os (we_sys env)) (w_fs st) path = Inr bs \<and> key = Some k")
  case True
  then obtain bs k where b: "os_read (sys_os (we_sys env)) (w_fs st) path = Inr bs" and k: "key = Some k" by blast
  let ?m = "ReceiptClaim (dc_worker_id cfg) (jd_job_id desc) (to_hex (we_public env k))
      (to_hex (we_sign env k (receipt_claim_message (jd_job_id desc) (we_blake3 env bs)))) (to_hex bs)"
  obtain r l where s: "link_send ?m (w_link st) = (r, l)" by fastforce
  have "list_all good (l_out l)" using send_good [OF s claims [OF k]] assms by (simp add: all_sent_def)
  then show ?thesis using s b k by (cases r) (simp_all add: send_receipt_def turn_sent_def all_sent_def)
next
  case False
  then show ?thesis using assms by (auto simp: send_receipt_def turn_sent_def split: sum.splits option.splits)
qed

lemma handle_assignment_good:
  assumes "all_sent good st"
  shows "turn_sent good (handle_assignment env cfg key desc hints st)"
proof (cases "fetch_all env (dc_store_dir cfg) [jd_manifest desc, jd_elf desc, jd_input desc] hints st")
  case None
  then show ?thesis by (simp add: handle_assignment_def turn_sent_def del: fetch_all.simps)
next
  case (Some p)
  obtain r st1 where p: "p = (r, st1)" by (cases p)
  have g: "all_sent good st1" using fetch_all_good Some p assms by blast
  have m: "all_sent good st2" if "materialize_job env cfg desc st1 = Some (Inr (job, st2))" for job st2
    using that g by (auto simp: materialize_job_def Let_def all_sent_def split: sum.splits store_error.splits)
  show ?thesis
    using Some p g m send_receipt_good execute_job_good
    by (auto simp: handle_assignment_def turn_sent_def simp del: fetch_all.simps split: sum.splits option.splits)
qed

lemma session_turn_good:
  assumes "all_sent good st"
  shows "turn_sent good (session_turn env cfg key st)"
proof -
  obtain r l where r: "link_receive (w_link st) = (r, l)" by fastforce
  have g: "all_sent good (st\<lparr>w_link := l\<rparr>)" using assms link_receive_out [OF r] by (simp add: all_sent_def)
  show ?thesis
    using r g handle_assignment_good [OF g]
    by (auto simp: session_turn_def Let_def turn_sent_def split: sum.splits wire_error.splits server_to_client.splits)
qed

lemma session_loop_good:
  "all_sent good st \<Longrightarrow> session_loop env cfg key st = Ended e st' \<or> session_loop env cfg key st = SessionErr err st' \<Longrightarrow>
     all_sent good st'"
proof (induction st rule: measure_induct_rule [of pending_in])
  case (less st)
  note g = session_turn_good [OF less.prems(1)]
  show ?case
  proof (cases "session_turn env cfg key st")
    case (Again st1)
    then show ?thesis
      using less.IH [OF session_turn_in [OF Again]] less.prems(2) g session_loop.simps [of env cfg key st]
      by (simp add: turn_sent_def)
  qed (use less.prems(2) g session_loop.simps [of env cfg key st] in \<open>auto simp: turn_sent_def\<close>)
qed

end

text \<open>What the daemon's messages of a session carry: its own id, its key and its signature.\<close>

definition signed_by ::
    "('fs, 'e, 'sk, 'x, 'k, 'p) wenv \<Rightarrow> daemon_config \<Rightarrow> 'sk option \<Rightarrow> client_to_server \<Rightarrow> bool" where
  "signed_by env cfg key msg \<longleftrightarrow>
     (case msg of
        JobResult r \<Rightarrow>
          worker_id r = dc_worker_id cfg \<and>
          (case key of
             None \<Rightarrow> True
           | Some k \<Rightarrow> pubkey_hex r = Some (to_hex (we_public env k)) \<and>
                       sig_hex r = Some (to_hex (we_sign env k (signing_message r))))
      | ReceiptClaim w j pk sig rc \<Rightarrow>
          w = dc_worker_id cfg \<and>
          (\<exists>k bs. key = Some k \<and> pk = to_hex (we_public env k) \<and> rc = to_hex bs \<and>
             sig = to_hex (we_sign env k (receipt_claim_message j (we_blake3 env bs))))
      | _ \<Rightarrow> True)"

interpretation daemon: sent_messages env cfg key "signed_by env cfg key" for env cfg key
proof unfold_locales
  fix r :: worker_result
  assume "worker_id r = dc_worker_id cfg"
  moreover have "signing_message (r\<lparr>pubkey_hex := a, sig_hex := b\<rparr>) = signing_message r" for a b
    by (simp add: signing_message_def)
  ultimately show "signed_by env cfg key (JobResult (sign_result env key r))"
    by (simp add: signed_by_def sign_result_def split: option.split)
qed (auto simp: signed_by_def)

lemma session_greet_signed:
  assumes "session_greet env cfg key port st = Ended e st' \<or> session_greet env cfg key port st = SessionErr err st'"
    and "list_all (signed_by env cfg key) (l_out (w_link st))"
  shows "list_all (signed_by env cfg key) (l_out (w_link st'))"
proof -
  have h: "signed_by env cfg key (daemon_hello env cfg key port)" "signed_by env cfg key (daemon_reply env key n c)" for n c
    by (simp_all add: signed_by_def daemon_hello_def daemon_reply_def)
  obtain r l where s: "link_send (daemon_hello env cfg key port) (w_link st) = (r, l)" by fastforce
  have g: "list_all (signed_by env cfg key) (l_out l)" using daemon.send_good [OF s h(1) assms(2)] .
  obtain m l1 where m: "link_receive l = (m, l1)" by fastforce
  have g1: "list_all (signed_by env cfg key) (l_out l1)" using g link_receive_out [OF m] by simp
  have early: "w_link st' \<in> {l, l1}" if "\<nexists>u hex bits nonce counter. r = Inr u \<and> m = Inr (Nonce hex bits) \<and>
      hex_decode hex = Some nonce \<and> mine_pow (we_blake3 env) nonce bits = Some counter"
    using assms(1) s m that
    by (auto simp: session_greet_def split: sum.splits server_to_client.splits option.splits)
  show ?thesis
  proof (cases "\<exists>u hex bits nonce counter. r = Inr u \<and> m = Inr (Nonce hex bits) \<and>
      hex_decode hex = Some nonce \<and> mine_pow (we_blake3 env) nonce bits = Some counter")
    case True
    then obtain hex bits nonce counter where n: "r = Inr ()" "m = Inr (Nonce hex bits)" "hex_decode hex = Some nonce"
      "mine_pow (we_blake3 env) nonce bits = Some counter" by auto
    obtain x l2 where x: "link_send (daemon_reply env key nonce counter) l1 = (x, l2)" by fastforce
    have g2: "list_all (signed_by env cfg key) (l_out l2)" using daemon.send_good [OF x h(2) g1] .
    have ag: "all_sent (signed_by env cfg key) (st\<lparr>w_fs := fs, w_link := l2, w_submitted := False\<rparr>)" for fs
      using g2 by (simp add: all_sent_def)
    show ?thesis
      using assms(1) s m n x g2 daemon.session_loop_good [OF ag]
      by (auto simp: session_greet_def all_sent_def split: sum.splits)
  next
    case False
    then show ?thesis using early g g1 by auto
  qed
qed

section \<open>Properties\<close>

text \<open>
  C7: An honest worker is vindicated. Suppose a native worker, not corrupted, materialises the
  assigned job from its store, executes it and its (signed) result is among the job's results when
  the workers disagree. If the coordinator's replay judge reaches a verdict, it accepts exactly the
  worker's result hash and names the worker among those who agreed, unless the two stores hold
  different bytes under one content id, that is a BLAKE3 collision.
\<close>

theorem honest_worker_vindicated:
  assumes "os_ok (sys_os (we_sys wenv))" and "os_ok (sys_os (e_sys env))"
    and "we_blake3 wenv = e_blake3 env" and "we_sha256 wenv = e_sha256 env" and "we_manifest_json wenv = e_manifest_json env"
    and "job_materialize_dir (we_sys wenv) (dc_worker_id cfg) (jd_job_id desc) = Inr dir"
    and "worker_job wenv cfg (remove_dir_all (we_sys wenv) (w_fs st) dir) desc mb man elf input" and "names_apart man"
    and "materialize_job wenv cfg desc st = Some (Inr (wjob, st'))"
    and "\<not> dc_corrupt cfg" and "execute_native (we_blake3 wenv) wjob = (Some (Inr ex) :: (('e, 'x) exec_error + executed) option)"
    and "r = sign_result wenv key (daemon_result wenv cfg (job_manifest wjob) ex)" and "r \<in> set (pj_results job)"
    and "pj_descriptor job = desc" and "judge_by_replay_network scfg env job fs = Some (Some d, fs')"
  shows "(\<exists>outp agreed. d = Accept (result_hash r) outp agreed False \<and> dc_worker_id cfg \<in> set agreed) \<or>
         blob_clash env scfg (remove_dir_all (e_sys env) fs (judge_dir env job)) desc mb elf input"
proof (rule disjCI)
  assume nc: "\<not> blob_clash env scfg (remove_dir_all (e_sys env) fs (judge_dir env job)) desc mb elf input"
  note wj = materialize_jobD(1) [OF assms(1,9,6,7,8)]
  from assms(10,11) obtain img n outp where i: "parse elf = Some (Inr img)"
    and j: "replay_journal (e_blake3 env) elf (elf_entry img) input (jm_chunk_size man) (jm_max_instructions man) =
       Ret (Some (n, outp))"
    and h: "result_hash r = to_hex (journal_digest (e_sha256 env) n outp)"
      "wr_chunk_hashes r = [to_hex (journal_digest (e_sha256 env) n outp)]"
    by (rule daemon_result_replay [where man = "job_manifest wjob"]) (simp_all add: wj assms(3,4,12))
  have w: "worker_id r = dc_worker_id cfg" by (cases ex) (simp add: assms(12) daemon_result_def Let_def)
  obtain mb' man' elf' input' where s: "stored_job scfg env (remove_dir_all (e_sys env) fs (judge_dir env job)) desc mb' man' elf' input'"
    and v: "names_apart man' \<longrightarrow> \<not> is_sp1_v2 man' \<and> (\<exists>img n outp. parse elf' = Some (Inr img) \<and>
        replay_journal (e_blake3 env) elf' (elf_entry img) input' (jm_chunk_size man') (jm_max_instructions man')
          = Ret (Some (n, outp)) \<and>
        d = (let digest = to_hex (journal_digest (e_sha256 env) n outp)
             in Accept digest (Some (to_hex outp)) (replay_agreed digest (pj_results job)) False))"
    using judge_by_replay_networkD [OF assms(2,15)] unfolding replay_at_def assms(14) by blast
  have "mb' = mb \<and> man' = man \<and> elf' = elf \<and> input' = input"
    by (rule stored_jobs_equal [OF assms(7) s assms(3,5) nc])
  then have "d = Accept (result_hash r) (Some (to_hex outp)) (replay_agreed (result_hash r) (pj_results job)) False"
    using v assms(8) i j h by (auto simp: Let_def)
  then show "\<exists>outp agreed. d = Accept (result_hash r) outp agreed False \<and> dc_worker_id cfg \<in> set agreed"
    using replay_agreed_mem [OF assms(13)] h w by auto
qed

text \<open>
  C10: The two builds of the worker report the same result. If the zkVM executes the embedded guest
  faithfully on the job's files, the zkVM build obtains the journal, the instruction count and the
  status that native execution obtains, so the digest that is voted on is the same.
\<close>

theorem sp1_and_native_agree:
  assumes "os_read os fs (join (job_dir job) ''job.json'') = Inr mb" and "from_json mb = Some (job_manifest job)"
    and "sdk_execute sdk emu_elf [mb, job_elf job, job_input job] = Inr (pv, vm_cycles)"
    and "read_committed sdk pv = guest_emu blake3 from_json mb (job_elf job) (job_input job)"
    and "execute_native blake3 job = (Some (Inr (j, n, st, tr)) :: (('e, 'x) exec_error + executed) option)"
  shows "\<exists>tr'. execute_sp1 os blake3 sdk emu_elf fs job = Some (Inr (j, n, st, tr')) \<and> (tr' = None \<longleftrightarrow> tr = None)"
proof -
  from assms(2,5) obtain c where c: "guest_emu blake3 from_json mb (job_elf job) (job_input job) = Some c"
    and b: "cm_binding c = job_binding blake3 mb (job_elf job) (job_input job)"
    and o: "j = journal (cm_instructions c) (cm_output c)" "n = cm_instructions c" "st = guest_status_text (cm_status c)"
    by (rule guest_of_native)
  from assms(5) obtain out :: run_outcome where t: "st = status_text (status out)" "tr = trap_text (status out)"
    by (rule execute_native_replay) blast
  obtain rest where r: "rd_binding sdk pv = Some (cm_binding c, rest)"
    using read_committed_binding assms(4) c by metis
  have "st = ''trap'' \<longleftrightarrow> tr \<noteq> None" using t by (cases "status out") (simp_all add: status_text_def trap_text_def)
  then show ?thesis using assms(1,3,4) c b o r by (auto simp: execute_sp1_def)
qed

text \<open>
  What the code relies on from Ed25519: keys and signatures have their fixed lengths, a public key
  parses, and a signature made with the key verifies.
\<close>

definition ed25519_ok ::
    "('fs, 'e, 'sk, 'x, 'k, 'p) wenv \<Rightarrow> (bytes \<Rightarrow> 'vk option) \<Rightarrow> ('vk \<Rightarrow> bytes \<Rightarrow> bytes \<Rightarrow> bool) \<Rightarrow> bool" where
  "ed25519_ok env vk_from_bytes vk_verify \<longleftrightarrow>
     (\<forall>k. length (we_public env k) = 32 \<and>
        (\<exists>vk. vk_from_bytes (we_public env k) = Some vk \<and>
           (\<forall>m. length (we_sign env k m) = 64 \<and> vk_verify vk m (we_sign env k m))))"

lemma ed25519_okD:
  assumes "ed25519_ok env vk_from_bytes vk_verify"
  obtains vk where "from_hex (to_hex (we_public env k)) 32 = Inr (we_public env k)"
    and "vk_from_bytes (we_public env k) = Some vk"
    and "\<And>m. from_hex (to_hex (we_sign env k m)) 64 = Inr (we_sign env k m)"
    and "\<And>m. vk_verify vk m (we_sign env k m)"
  using assms from_hex_to_hex [of "we_public env k"] from_hex_to_hex [of "we_sign env k _"]
  unfolding ed25519_ok_def by metis

text \<open>
  C24: Everything an identified daemon submits is accepted by the coordinator's signature checks.
  However a session ends, every job result it sent carries the daemon's own id and passes the
  coordinator's result verification, and every receipt claim passes the claim verification for the
  receipt it carries.
\<close>

theorem session_submissions_verify:
  assumes "session_once wenv cfg port connected st = Ended e st' \<or> session_once wenv cfg port connected st = SessionErr err st'"
    and "dc_identity cfg = Some path" and "l_out (w_link st) = []"
    and "ed25519_ok wenv (e_vk_from_bytes env) (e_vk_verify env)"
  shows "(\<forall>r. JobResult r \<in> set (l_out (w_link st')) \<longrightarrow>
            worker_id r = dc_worker_id cfg \<and> verify_signature (e_vk_from_bytes env) (e_vk_verify env) r = Inr ()) \<and>
         (\<forall>w j pk sig rc. ReceiptClaim w j pk sig rc \<in> set (l_out (w_link st')) \<longrightarrow>
            w = dc_worker_id cfg \<and>
            (\<exists>bs. rc = to_hex bs \<and> verify_claim_sig env pk j (we_blake3 wenv bs) sig = Inr ()))"
proof -
  have "l_out (w_link st') = [] \<or> (\<exists>k fs. session_greet wenv cfg (Some k) port (st\<lparr>w_fs := fs\<rparr>) = Ended e st' \<or>
      session_greet wenv cfg (Some k) port (st\<lparr>w_fs := fs\<rparr>) = SessionErr err st')"
    using assms(1-3) by (auto simp: session_once_def split: sum.splits if_splits option.splits)
  then have "\<exists>k. list_all (signed_by wenv cfg (Some k)) (l_out (w_link st'))"
    using session_greet_signed [of wenv cfg "Some _" port "st\<lparr>w_fs := _\<rparr>" e st' err] assms(3)
    by (metis list.pred_inject(1) wstate.select_convs(2) wstate.surjective wstate.update_convs(1))
  then obtain k where k: "list_all (signed_by wenv cfg (Some k)) (l_out (w_link st'))" ..
  from assms(4) obtain vk where v: "from_hex (to_hex (we_public wenv k)) 32 = Inr (we_public wenv k)"
    "e_vk_from_bytes env (we_public wenv k) = Some vk"
    "\<And>m. from_hex (to_hex (we_sign wenv k m)) 64 = Inr (we_sign wenv k m)"
    "\<And>m. e_vk_verify env vk m (we_sign wenv k m)" by (rule ed25519_okD [where k = k]) blast
  show ?thesis
    using k v
    by (fastforce simp: list_all_iff signed_by_def verify_signature_def verify_claim_sig_def verify_msg_def)
qed

lemma mine_from_valid:
  assumes "mine_from blake3 nonce bits start = Some c"
  shows "verify_pow blake3 nonce c bits"
proof (rule mine_from.raw_induct [OF _ assms, where P = "\<lambda>blake3 nonce bits start c. verify_pow blake3 nonce c bits"])
  fix f and blake3 :: "bytes \<Rightarrow> digest" and nonce bits counter y
  assume IH: "\<And>blake3 nonce bits counter y. f blake3 nonce bits counter = Some y \<Longrightarrow> verify_pow blake3 nonce y bits"
    and e: "(if verify_pow blake3 nonce counter bits then Some counter else f blake3 nonce bits (counter + 1)) = Some y"
  show "verify_pow blake3 nonce y bits"
  proof (cases "verify_pow blake3 nonce counter bits")
    case True
    then show ?thesis using e by simp
  next
    case False
    then have "f blake3 nonce bits (counter + 1) = Some y" using e by (simp only: if_False)
    then show ?thesis by (rule IH)
  qed
qed

text \<open>
  C25: An honest worker is admitted. The coordinator's answer to the daemon's greeting carries the
  nonce the daemon decodes, and the daemon's reply to it, with the counter it mined, authenticates
  the connection under the daemon's id.
\<close>

theorem honest_worker_admitted:
  assumes "ed25519_ok wenv (e_vk_from_bytes env) (e_vk_verify env)" and "we_blake3 wenv = e_blake3 env"
    and "map_of (s_conns s) i = Some c" and "dc_worker_id cfg \<noteq> []"
    and "daemon_hello wenv cfg (Some k) port = Hello pk wid lp role"
    and "mine_pow (we_blake3 wenv) nonce (cfg_pow_bits scfg) = Some counter"
    and "daemon_reply wenv (Some k) nonce counter = NonceSignature sig pow"
  shows "\<exists>c1 c2. map_of (handle_hello scfg nonce i pk wid lp role (s_conns s)) i = Some c1 \<and>
     (\<exists>hex. last (c_outbound c1) = Nonce hex (cfg_pow_bits scfg) \<and> hex_decode hex = Some nonce) \<and>
     map_of (s_conns (handle_nonce_sig scfg env i sig pow (s\<lparr>s_conns := handle_hello scfg nonce i pk wid lp role (s_conns s)\<rparr>))) i
       = Some c2 \<and>
     c_authed c2 \<and> c_worker_id c2 = dc_worker_id cfg \<and> c_role c2 = ''worker'' \<and>
     last (c_outbound c2) = AuthOk (dc_worker_id cfg)"
proof -
  have h: "pk = to_hex (we_public wenv k)" "wid = dc_worker_id cfg" "lp = port" "role = ''worker''"
    "sig = Some (to_hex (we_sign wenv k nonce))" "pow = counter"
    using assms(5,7) by (auto simp: daemon_hello_def daemon_reply_def)
  have m: "verify_pow (e_blake3 env) nonce counter (cfg_pow_bits scfg)"
    using mine_from_valid assms(2,6) by (simp add: mine_pow_def)
  have n: "hex_decode (to_hex nonce) = Some nonce" using from_hex_to_hex [of nonce] by (simp add: hex_decode_def)
  from assms(1) obtain vk where v: "from_hex pk 32 = Inr (we_public wenv k)" "e_vk_from_bytes env (we_public wenv k) = Some vk"
    "from_hex (to_hex (we_sign wenv k nonce)) 64 = Inr (we_sign wenv k nonce)" "e_vk_verify env vk nonce (we_sign wenv k nonce)"
    unfolding h(1) by (rule ed25519_okD [where k = k]) blast
  have ne: "pk \<noteq> []" using v(1) by (auto simp: from_hex_def)
  show ?thesis
    using assms(3,4) m n v ne
    by (simp add: handle_hello_def handle_nonce_sig_def map_of_conn_update conn_send_def auth_ok_def verify_nonce_def
        verify_msg_def h(2-))
qed

text \<open>
  C26: A fetched blob is the requested one. When a fetch succeeds, the id parses; either the blob was
  in the store already and nothing changed, or the store now returns bytes that hash to the id,
  whoever served them, and no other file changed.
\<close>

theorem fetched_blob_matches_id:
  assumes "fetch_blob env root id_hex hints st = Some (Inr (), st')" and "os_ok (sys_os (we_sys env))"
  shows "\<exists>cid. content_id_from_hex id_hex = Some (Inr cid) \<and>
     (if store_has (sys_os (we_sys env)) root (w_fs st) cid then w_fs st' = w_fs st
      else (\<exists>bs. store_get (sys_os (we_sys env)) (we_blake3 env) root (w_fs st') cid = Inr bs \<and> we_blake3 env bs = cid) \<and>
           (\<forall>p. p \<noteq> blob_path root cid \<longrightarrow>
              os_read (sys_os (we_sys env)) (w_fs st') p = os_read (sys_os (we_sys env)) (w_fs st) p))"
proof -
  obtain cid where c: "content_id_from_hex id_hex = Some (Inr cid)"
    using assms(1) by (auto simp: fetch_blob_def split: option.splits sum.splits)
  show ?thesis
  proof (cases "store_has (sys_os (we_sys env)) root (w_fs st) cid")
    case True
    then show ?thesis using assms(1) c by (auto simp: fetch_blob_def)
  next
    case False
    have "\<exists>e1 e2 hex. accept_blob env root cid e1 e2 hex (w_fs st) = Inr (w_fs st')"
    proof (cases "fetch_from_peers env root id_hex cid hints (w_fs st)")
      case None
      then have "fetch_from_server env root id_hex cid st = (Inr (), st')"
        using assms(1) c False by (simp add: fetch_blob_def)
      from fetch_from_server_accepts [OF this] show ?thesis by blast
    next
      case (Some p)
      then have "fetch_from_peers env root id_hex cid hints (w_fs st) = Some (Inr (w_fs st'))"
        using assms(1) c False by (auto simp: fetch_blob_def split: sum.splits)
      from fetch_from_peers_accepts [OF this] show ?thesis by blast
    qed
    then obtain e1 e2 hex where a: "accept_blob env root cid e1 e2 hex (w_fs st) = Inr (w_fs st')" by blast
    have n: "\<not> os_exists (sys_os (we_sys env)) (w_fs st) (blob_path root cid)" using False by (simp add: store_has_def)
    from a assms(2) n show ?thesis
      by (rule accept_blobD) (use c False in \<open>auto simp: store_get_def from_data_def\<close>)
  qed
qed

text \<open>
  One bad peer defeats a fetch. If the first peer that answers serves bytes that do not hash to
  the requested id (or no hex at all), the fetch fails without asking the remaining peers or the
  coordinator, and the assignment is abandoned with the connection declared lost.
\<close>

theorem bad_peer_defeats_fetch:
  assumes "content_id_from_hex (jd_manifest desc) = Some (Inr cid)"
    and "\<not> store_has (sys_os (we_sys env)) (dc_store_dir cfg) (w_fs st) cid"
    and "we_peer env p (jd_manifest desc) = Some (Inr (Inr (PeerBlob (Some hex))))"
    and "\<And>bs. hex_decode hex = Some bs \<Longrightarrow> we_blake3 env bs \<noteq> cid"
  shows "handle_assignment env cfg key desc (p # hints) st = Return ConnectionLost st"
  using assms
  by (auto simp: handle_assignment_def fetch_blob_def accept_blob_def from_data_def split: option.splits)

text \<open>
  C33: The delay between two connection attempts is at least one second and at most ten,
  whatever the sessions before it did.
\<close>

theorem retry_delay_bounded:
  "list_all (\<lambda>d. 1 \<le> d \<and> d \<le> 10) (snd (run_daemon env cfg attempts 1 st))"
proof -
  have "list_all (\<lambda>d. 1 \<le> d \<and> d \<le> 10) (snd (run_daemon env cfg attempts b st))" if "1 \<le> b \<and> b \<le> 10" for b
    using that
  proof (induction attempts arbitrary: b st)
    case (Cons a as)
    obtain port connected l where a: "a = (port, connected, l)" by (cases a)
    have IH: "list_all (\<lambda>d. 1 \<le> d \<and> d \<le> 10) (snd (run_daemon env cfg as 1 st'))"
      "list_all (\<lambda>d. 1 \<le> d \<and> d \<le> 10) (snd (run_daemon env cfg as (min (b * 2) 10) st'))" for st'
      using Cons.prems by (intro Cons.IH, simp)+
    show ?case
      using Cons.prems IH by (simp add: a case_prod_unfold split: session.split session_end.split)
  qed simp
  then show ?thesis by simp
qed

text \<open>
  The test hook's lie is a lie. A corrupted result carries another hash than the honest result
  of the same execution, unless the two journals collide under SHA-256.
\<close>

theorem corrupted_result_differs:
  assumes "dc_corrupt cfg" and "length j \<ge> 8"
  shows "result_hash (daemon_result env cfg man (j, n, st, tr)) \<noteq>
           result_hash (daemon_result env (cfg\<lparr>dc_corrupt := False\<rparr>) man (j, n, st, tr)) \<or>
         collision (we_sha256 env) (corrupt_journal cfg j) j"
proof -
  have ne: "j \<noteq> []" using assms(2) by auto
  define i where "i = (case dc_corrupt_byte cfg of Some b \<Rightarrow> unat b mod length j | None \<Rightarrow> length j - 1)"
  have i: "i < length j" using ne by (simp add: i_def split: option.split)
  have c: "corrupt_journal cfg j = j[i := j ! i + 1]"
    using assms(1) ne by (simp add: corrupt_journal_def i_def Let_def)
  have "corrupt_journal cfg j \<noteq> j"
  proof
    assume "corrupt_journal cfg j = j"
    then have "j ! i + 1 = j ! i" using c i by (metis nth_list_update_eq)
    then show False by simp
  qed
  moreover have "corrupt_journal (cfg\<lparr>dc_corrupt := False\<rparr>) j = j" by (simp add: corrupt_journal_def)
  ultimately show ?thesis by (auto simp: daemon_result_def collision_def Let_def to_hex_inject)
qed

lemma cmd_run_resultD:
  assumes "cmd_run env to_json args fs = RanResult r fs'"
  obtains job img m out rs where "load_dir (sys_os (we_sys env)) (we_manifest_json env) fs (ra_job_dir args) = Inr job"
    and "parse (job_elf job) = Some (Inr img)" and "load mem_new img = (Inr (), m)"
    and "run (we_blake3 env) m (elf_entry img) (job_input job)
             \<lparr>chunk_size = jm_chunk_size (job_manifest job), max_instructions = jm_max_instructions (job_manifest job),
              syscalls = ra_syscalls args, snapshot_dir = ra_snapshots args, tohost_addr = None\<rparr> = RunDone (out, rs)"
    and "(wr_chunk_hashes r, result_hash r) = reported_chain (ra_corrupt args) (chunk_hashes out)"
    and "worker_id r = ra_id args" and "wr_status r = status_text (status out)"
    and "\<And>path. ra_identity args = Some path \<Longrightarrow> \<exists>k msg. unhex (result_hash r) = Some (Some msg) \<and>
        pubkey_hex r = Some (to_hex (we_public env k)) \<and> sig_hex r = Some (to_hex (we_sign env k msg))"
proof -
  obtain job where j: "load_dir (sys_os (we_sys env)) (we_manifest_json env) fs (ra_job_dir args) = Inr job"
    using assms by (auto simp: cmd_run_def split: sum.splits)
  obtain img where i: "parse (job_elf job) = Some (Inr img)"
    using assms j by (auto simp: cmd_run_def split: option.splits sum.splits)
  obtain m where m: "load mem_new img = (Inr (), m)"
    using assms j i by (auto simp: cmd_run_def split: sum.splits prod.splits)
  obtain out rs where u: "run (we_blake3 env) m (elf_entry img) (job_input job)
             \<lparr>chunk_size = jm_chunk_size (job_manifest job), max_instructions = jm_max_instructions (job_manifest job),
              syscalls = ra_syscalls args, snapshot_dir = ra_snapshots args, tohost_addr = None\<rparr> = RunDone (out, rs)"
    using assms j i m by (auto simp: cmd_run_def split: run_res.splits)
  obtain hs h where h: "reported_chain (ra_corrupt args) (chunk_hashes out) = (hs, h)" by fastforce
  have r: "wr_chunk_hashes r = hs \<and> result_hash r = h \<and> worker_id r = ra_id args \<and> wr_status r = status_text (status out) \<and>
     (\<forall>path. ra_identity args = Some path \<longrightarrow> (\<exists>k msg. unhex h = Some (Some msg) \<and>
        pubkey_hex r = Some (to_hex (we_public env k)) \<and> sig_hex r = Some (to_hex (we_sign env k msg))))"
    using assms j i m u h
    by (auto simp: cmd_run_def Let_def split: option.splits sum.splits prod.splits)
  show ?thesis by (rule that [OF j i m u]) (use r h in auto)
qed

lemma unhex_loop_length: "unhex_loop s i k = Some (Some bs) \<Longrightarrow> length bs = k"
  by (induction s i k arbitrary: bs rule: unhex_loop.induct) (auto split: if_splits option.splits)

text \<open>
  The run command signs something else than the coordinator verifies. A result it signs carries
  a signature over the raw bytes of the result hash, which is never the message of the coordinator's
  check, so the check passes only if a signature on one message verifies for the other.
\<close>

theorem run_signature_covers_other_message:
  assumes "cmd_run env to_json args fs = RanResult r fs'" and "ra_identity args = Some path"
    and "ed25519_ok env vk_from_bytes vk_verify"
  shows "\<exists>k vk msg. unhex (result_hash r) = Some (Some msg) \<and> msg \<noteq> signing_message r \<and>
     vk_from_bytes (we_public env k) = Some vk \<and>
     verify_signature vk_from_bytes vk_verify r =
       (if vk_verify vk (signing_message r) (we_sign env k msg) then Inr () else Inl SigInvalid)"
proof -
  obtain k msg where s: "unhex (result_hash r) = Some (Some msg)" "pubkey_hex r = Some (to_hex (we_public env k))"
    "sig_hex r = Some (to_hex (we_sign env k msg))"
    using cmd_run_resultD [OF assms(1)] assms(2) by metis
  from assms(3) obtain vk where v: "from_hex (to_hex (we_public env k)) 32 = Inr (we_public env k)"
    "vk_from_bytes (we_public env k) = Some vk"
    "\<And>m. from_hex (to_hex (we_sign env k m)) 64 = Inr (we_sign env k m)" by (rule ed25519_okD [where k = k]) blast
  have "length msg = length (result_hash r) div 2"
    using s(1) by (auto simp: unhex_def split: if_splits dest: unhex_loop_length)
  moreover have "length (signing_message r) > length (result_hash r)" by (simp add: signing_message_def put_def)
  ultimately have "msg \<noteq> signing_message r" by auto
  then show ?thesis using s v by (auto simp: verify_signature_def)
qed

section \<open>Witnesses\<close>

definition limit_desc :: job_descriptor where
  "limit_desc = \<lparr>jd_job_id = ''j1'', jd_manifest = to_hex (pad32 [1]), jd_elf = to_hex (pad32 demo_elf), jd_input = to_hex (pad32 [])\<rparr>"

definition limit_store :: "string \<rightharpoonup> bytes" where
  "limit_store = [blob_path ''s'' (pad32 [1]) \<mapsto> [1], blob_path ''s'' (pad32 demo_elf) \<mapsto> demo_elf, blob_path ''s'' (pad32 []) \<mapsto> [],
     ''key'' \<mapsto> replicate 32 0]"

definition limit_wenv :: "(string \<rightharpoonup> bytes, unit, unit, unit, unit, unit) wenv" where
  "limit_wenv =
     \<lparr>we_sys = demo_sys, we_blake3 = pad32, we_sha256 = pad32, we_manifest_json = (\<lambda>_. Some limit_manifest),
      we_key = (\<lambda>_. ()), we_public = (\<lambda>_. replicate 32 0), we_sign = (\<lambda>_ _. replicate 64 0), we_seed = replicate 32 0,
      we_peer = (\<lambda>p i. if p = ''bad'' then Some (Inr (Inr (PeerBlob (Some ''ff'')))) else None),
      we_reset = (\<lambda>_. True), we_sdk = None, we_emu_elf = []\<rparr>"

definition limit_dcfg :: daemon_config where
  "limit_dcfg =
     \<lparr>dc_worker_id = ''w1'', dc_identity = Some ''key'', dc_store_dir = ''s'', dc_corrupt = False, dc_corrupt_byte = None,
      dc_extra_submits = 0, dc_receipt_file = None\<rparr>"

lemma limit_simps:
  "we_sys limit_wenv = demo_sys" "we_blake3 limit_wenv = pad32" "we_sha256 limit_wenv = pad32"
  "we_manifest_json limit_wenv = (\<lambda>_. Some limit_manifest)" "dc_store_dir limit_dcfg = ''s''" "dc_worker_id limit_dcfg = ''w1''"
  "\<not> dc_corrupt limit_dcfg" "jd_job_id limit_desc = ''j1''" "remove_dir_all demo_sys fs d = fs" "sys_os demo_sys = disk"
  "we_sdk limit_wenv = None" "dc_receipt_file limit_dcfg = None" "dc_extra_submits limit_dcfg = 0"
  by (simp_all add: limit_wenv_def limit_dcfg_def limit_desc_def demo_sys_def)

lemma limit_ids: "pad32 [1] \<noteq> pad32 demo_elf" "pad32 [1] \<noteq> pad32 []" "pad32 demo_elf \<noteq> pad32 []"
proof -
  have "hd (pad32 [1]) = 1" "hd (pad32 demo_elf) = 127" "hd (pad32 []) = 0" by (simp_all add: pad32_def demo_elf_def)
  then show "pad32 [1] \<noteq> pad32 demo_elf" "pad32 [1] \<noteq> pad32 []" "pad32 demo_elf \<noteq> pad32 []" by auto
qed

definition no_link :: "unit link" where
  "no_link = \<lparr>l_in = [], l_sends = [], l_out = []\<rparr>"

lemma limit_key: "blob_path ''s'' c \<noteq> ''key''"
  by (simp add: blob_path_def blob_dir_def join_def)

lemma limit_get:
  "get_hex disk pad32 ''s'' limit_store (jd_manifest limit_desc) = Inr [1]"
  "get_hex disk pad32 ''s'' limit_store (jd_elf limit_desc) = Inr demo_elf"
  "get_hex disk pad32 ''s'' limit_store (jd_input limit_desc) = Inr []"
  using limit_ids limit_ids [symmetric]
  by (simp_all add: limit_desc_def get_hex_def content_id_round_trip pad32_demo(4) store_get_def disk_def limit_store_def
      from_data_def blob_path_inject limit_key)

lemma limit_names: "confined_name ''e'' = Inr ()" "confined_name ''i'' = Inr ()" "confined_name ''j1'' = Inr ()"
  by (simp_all add: confined_name_def path_components_def is_relative_def piece_component_def)

definition limit_dir :: "string \<Rightarrow> string \<rightharpoonup> bytes" where
  "limit_dir d = limit_store(join d ''job.json'' \<mapsto> [1], join d ''e'' \<mapsto> demo_elf, join d ''i'' \<mapsto> [])"

lemma limit_materialize:
  "materialize disk pad32 (\<lambda>_. Some limit_manifest) ''s'' limit_store limit_desc d = Inr (limit_dir d)"
  by (simp add: materialize_def limit_get limit_manifest_simps limit_names) (simp add: disk_def limit_dir_def limit_manifest_simps)

lemma limit_dir_read:
  "os_read disk (limit_dir d) (join d ''job.json'') = Inr [1]" "os_read disk (limit_dir d) (join d ''e'') = Inr demo_elf"
  "os_read disk (limit_dir d) (join d ''i'') = Inr []"
  by (simp_all add: disk_def limit_dir_def)

definition limit_job :: job where
  "limit_job = \<lparr>job_manifest = limit_manifest, job_dir = join ''/tmp'' ''p2pc-worker-w1-j1'', job_elf = demo_elf, job_input = []\<rparr>"

lemma limit_load:
  "load_dir disk (\<lambda>_. Some limit_manifest) (limit_dir (job_dir limit_job)) (job_dir limit_job) = Inr limit_job"
proof -
  have "jm_schema limit_manifest = SCHEMA" "jm_isa limit_manifest = abi_ISA"
    by (simp_all add: limit_manifest_def demo_manifest_def SCHEMA_def)
  then show ?thesis
    by (simp add: load_dir_def limit_dir_read limit_manifest_simps limit_names) (simp add: limit_job_def)
qed

lemma limit_materialize_job:
  "job_materialize_dir demo_sys ''w1'' ''j1'' = Inr (job_dir limit_job)"
  "w_fs st = limit_store \<Longrightarrow>
     materialize_job limit_wenv limit_dcfg limit_desc st = Some (Inr (limit_job, st\<lparr>w_fs := limit_dir (job_dir limit_job)\<rparr>))"
proof -
  show d: "job_materialize_dir demo_sys ''w1'' ''j1'' = Inr (job_dir limit_job)"
    by (simp add: job_materialize_dir_def limit_names limit_job_def demo_sys_simps)
  show "w_fs st = limit_store \<Longrightarrow>
     materialize_job limit_wenv limit_dcfg limit_desc st = Some (Inr (limit_job, st\<lparr>w_fs := limit_dir (job_dir limit_job)\<rparr>))"
    by (simp add: materialize_job_def limit_simps d limit_materialize limit_load)
qed

lemma limit_execute:
  "execute_native pad32 limit_job = (Some (Inr (journal 0 [], 0, ''instruction_limit'', None)) :: (('e, 'x) exec_error + executed) option)"
proof -
  obtain m out rs where "load mem_new demo_image = (Inr (), m)"
    "run pad32 m (elf_entry demo_image) [] (judge_config 1 0) = RunDone (out, rs)"
    "status out = InstructionLimit" "instructions out = 0" "run_output out = None"
    using demo_limit_run .
  then show ?thesis
    by (simp add: execute_native_def limit_job_def demo_elf_parses limit_manifest_simps output_bytes_def status_text_def trap_text_def)
qed

theorem fetched_blob_matches_id_witness:
  "store_has disk ''s'' limit_store (pad32 [1]) \<and>
   fetch_blob limit_wenv ''s'' (to_hex (pad32 [1])) [] (daemon_start limit_store no_link) =
     Some (Inr (), daemon_start limit_store no_link) \<and>
   (\<exists>cid. content_id_from_hex (to_hex (pad32 [1])) = Some (Inr cid))"
proof -
  let ?st = "daemon_start limit_store no_link"
  have h: "store_has disk ''s'' limit_store (pad32 [1])"
    using limit_ids by (simp add: store_has_def disk_def limit_store_def blob_path_inject limit_key)
  then have "store_has (sys_os (we_sys limit_wenv)) ''s'' (w_fs ?st) (pad32 [1])" by (simp add: limit_simps daemon_start_def)
  then have f: "fetch_blob limit_wenv ''s'' (to_hex (pad32 [1])) [] ?st = Some (Inr (), ?st)"
    by (simp add: fetch_blob_def content_id_round_trip pad32_demo(4))
  then show ?thesis using fetched_blob_matches_id [OF f] h disk_ok by (auto simp: limit_simps)
qed

theorem bad_peer_defeats_fetch_witness:
  "handle_assignment limit_wenv limit_dcfg None limit_desc [''bad'', ''good''] (daemon_start Map.empty no_link) =
     Return ConnectionLost (daemon_start Map.empty no_link)"
proof (rule bad_peer_defeats_fetch [where hex = "''ff''" and cid = "pad32 [1]"])
  show "content_id_from_hex (jd_manifest limit_desc) = Some (Inr (pad32 [1]))"
    by (simp add: limit_desc_def content_id_round_trip pad32_demo(4))
  show "we_blake3 limit_wenv bs \<noteq> pad32 [1]" if "hex_decode ''ff'' = Some bs" for bs
  proof -
    have "bs = [255]" using that demo_ff by (simp add: hex_decode_def)
    then show ?thesis by (simp add: limit_simps pad32_def)
  qed
qed (simp_all add: limit_simps store_has_def disk_def daemon_start_def limit_wenv_def)

theorem corrupted_result_differs_witness:
  "result_hash (daemon_result limit_wenv (limit_dcfg\<lparr>dc_corrupt := True\<rparr>) limit_manifest (journal 0 [], 0, ''halted'', None)) \<noteq>
   result_hash (daemon_result limit_wenv limit_dcfg limit_manifest (journal 0 [], 0, ''halted'', None))"
proof -
  let ?c = "limit_dcfg\<lparr>dc_corrupt := True\<rparr>"
  have "le_bytes 8 (0 :: u64) = [0, 0, 0, 0, 0, 0, 0, 0]" by code_simp
  then have "\<not> collision pad32 (corrupt_journal ?c (journal 0 [])) (journal 0 [])"
    by (simp add: collision_def pad32_def corrupt_journal_def journal_def limit_dcfg_def)
  moreover have q: "limit_dcfg\<lparr>dc_corrupt := False\<rparr> = limit_dcfg" by (simp add: limit_dcfg_def)
  moreover have "8 \<le> length (journal 0 [])" by (simp add: journal_def)
  ultimately show ?thesis
    using corrupted_result_differs [of ?c "journal 0 []" limit_wenv limit_manifest 0 "''halted''" None]
    by (simp add: limit_simps q)
qed

definition limit_env :: "(string \<rightharpoonup> bytes, unit, unit) env" where
  "limit_env =
     \<lparr>e_sys = demo_sys, e_blake3 = pad32, e_sha256 = pad32, e_vk_from_bytes = (\<lambda>bs. Some ()), e_vk_verify = (\<lambda>vk msg sig. True),
      e_manifest_json = (\<lambda>_. Some limit_manifest), e_desc_from_json = (\<lambda>bs. Some limit_desc),
      e_desc_to_json = (\<lambda>d. Some []), e_receipt_json = (\<lambda>bs. None), e_judge_json = (\<lambda>bs. None),
      e_ledger_from_json = (\<lambda>bs. None), e_ledger_to_json = (\<lambda>l. []), e_not_found = (\<lambda>e. True),
      e_outcome_json = (\<lambda>j d rs ds. []), e_meta_json = (\<lambda>k j v. []), e_error_text = (\<lambda>e. []),
      e_upload_text = (\<lambda>e. [])\<rparr>"

definition limit_scfg :: serve_config where
  "limit_scfg =
     \<lparr>cfg_jobs_dir = ''jobs'', cfg_store_dir = ''s'', cfg_deadline = 1000, cfg_ledger = None,
      cfg_require_identity = True, cfg_zk = None, cfg_zk_judge = None, cfg_zk_prover = None,
      cfg_accept_submissions = False, cfg_results_dir = None, cfg_pow_bits = 0, cfg_pool = None,
      cfg_max_jobs = None, cfg_round1_size = None, cfg_round1_ids = None\<rparr>"

lemma limit_env_simps:
  "e_sys limit_env = demo_sys" "e_blake3 limit_env = pad32" "e_sha256 limit_env = pad32"
  "e_manifest_json limit_env = (\<lambda>_. Some limit_manifest)" "cfg_store_dir limit_scfg = ''s''"
  "e_vk_from_bytes limit_env = (\<lambda>bs. Some ())" "e_vk_verify limit_env = (\<lambda>vk msg sig. True)" "cfg_pow_bits limit_scfg = 0"
  by (simp_all add: limit_env_def limit_scfg_def)

lemma limit_ed25519: "ed25519_ok limit_wenv (e_vk_from_bytes limit_env) (e_vk_verify limit_env)"
  by (simp add: ed25519_ok_def limit_wenv_def limit_env_def)

definition limit_result :: worker_result where
  "limit_result = sign_result limit_wenv None (daemon_result limit_wenv limit_dcfg limit_manifest (journal 0 [], 0, ''instruction_limit'', None))"

definition limit_pending :: pending_job where
  "limit_pending = (queued 0 (limit_desc, None, ''p'') [])\<lparr>pj_results := [limit_result]\<rparr>"

lemma limit_pending_simps: "pj_descriptor limit_pending = limit_desc" "pj_results limit_pending = [limit_result]"
  by (simp_all add: limit_pending_def queued_def)

lemma limit_judged:
  obtains d fs' where "judge_by_replay_network limit_scfg limit_env limit_pending limit_store = Some (Some d, fs')"
proof -
  obtain m out rs where r: "load mem_new demo_image = (Inr (), m)"
    "run pad32 m (elf_entry demo_image) [] (judge_config 1 0) = RunDone (out, rs)"
    "status out = InstructionLimit" "instructions out = 0" "run_output out = None"
    using demo_limit_run .
  have "replay_journal pad32 demo_elf (elf_entry demo_image) [] 1 0 = Ret (Some (0, []))"
    using r by (simp add: replay_journal_def replay_def demo_elf_parses)
  then show ?thesis
    by (intro that)
      (simp add: judge_by_replay_network_def fresh_materialize_def limit_env_simps limit_simps limit_pending_simps limit_materialize
        limit_dir_read limit_manifest_simps demo_elf_parses Let_def)
qed

theorem honest_worker_vindicated_witness:
  "\<exists>d fs' outp agreed. judge_by_replay_network limit_scfg limit_env limit_pending limit_store = Some (Some d, fs') \<and>
     d = Accept (result_hash limit_result) outp agreed False \<and> ''w1'' \<in> set agreed"
proof -
  obtain d fs' where j: "judge_by_replay_network limit_scfg limit_env limit_pending limit_store = Some (Some d, fs')"
    using limit_judged .
  let ?st = "daemon_start limit_store no_link"
  have ws: "w_fs ?st = limit_store" by (simp add: daemon_start_def)
  have "(\<exists>outp agreed. d = Accept (result_hash limit_result) outp agreed False \<and> dc_worker_id limit_dcfg \<in> set agreed) \<or>
      blob_clash limit_env limit_scfg (remove_dir_all (e_sys limit_env) limit_store (judge_dir limit_env limit_pending)) limit_desc [1] demo_elf []"
  proof (rule honest_worker_vindicated [OF _ _ _ _ _ _ _ _ limit_materialize_job(2) [OF ws] _ limit_execute [folded limit_simps(2)] _ _ _ j])
    show "worker_job limit_wenv limit_dcfg (remove_dir_all (we_sys limit_wenv) (w_fs ?st) (job_dir limit_job)) limit_desc [1] limit_manifest demo_elf []"
      by (simp add: worker_job_def limit_simps ws limit_get)
    show "names_apart limit_manifest" by (simp add: names_apart_def limit_manifest_simps)
    show "limit_result = sign_result limit_wenv None (daemon_result limit_wenv limit_dcfg (job_manifest limit_job)
        (journal 0 [], 0, ''instruction_limit'', None))" by (simp add: limit_result_def limit_job_def)
  qed (simp_all add: limit_simps limit_env_simps disk_ok limit_materialize_job(1) limit_pending_simps)
  moreover have "\<not> blob_clash limit_env limit_scfg limit_store limit_desc [1] demo_elf []"
    by (simp add: blob_clash_def limit_env_simps limit_simps limit_get collision_def)
  ultimately show ?thesis using j by (auto simp: limit_env_simps limit_simps)
qed

theorem sp1_and_native_agree_witness:
  "\<exists>c tr'. guest_emu pad32 (\<lambda>_. Some limit_manifest) [1] demo_elf [] = Some c \<and>
     execute_sp1 disk pad32 (demo_sdk c) [] (limit_dir (job_dir limit_job)) limit_job =
       (Some (Inr (journal 0 [], 0, ''instruction_limit'', tr')) :: ((unit, unit) exec_error + executed) option)"
proof -
  obtain c where c: "guest_emu pad32 (\<lambda>_. Some limit_manifest) [1] demo_elf [] = Some c" using limit_guest by blast
  have e: "sdk_execute (demo_sdk c) [] [[1], job_elf limit_job, job_input limit_job] = Inr ([], 0)" by (simp add: demo_sdk_def)
  have "\<exists>tr'. execute_sp1 disk pad32 (demo_sdk c) [] (limit_dir (job_dir limit_job)) limit_job =
       (Some (Inr (journal 0 [], 0, ''instruction_limit'', tr')) :: ((unit, unit) exec_error + executed) option) \<and>
       (tr' = None \<longleftrightarrow> None = (None :: string option))"
    by (rule sp1_and_native_agree [OF limit_dir_read(1) _ e _ limit_execute, of "\<lambda>_. Some limit_manifest"])
      (simp_all add: limit_job_def c demo_sdk_committed)
  then show ?thesis using c by blast
qed

theorem honest_worker_admitted_witness:
  "\<exists>c2. map_of (s_conns (handle_nonce_sig limit_scfg limit_env 1 (Some (to_hex (replicate 64 0))) 0
      (\<lparr>s_conns = handle_hello limit_scfg [5] 1 (to_hex (replicate 32 0)) ''w1'' None ''worker'' [(1, new_conn 1 ''ip'')],
        s_pending = None, s_outcomes = [], s_jobs_done = 0, s_scan_errors = Map.empty, s_subs = Map.empty, s_events = [],
        s_queue = [], s_fs = limit_store, s_ctr = 0\<rparr>))) 1 = Some c2 \<and> c_authed c2 \<and> c_worker_id c2 = ''w1''"
proof -
  let ?s = "\<lparr>s_conns = [(1, new_conn 1 ''ip'')], s_pending = None, s_outcomes = [], s_jobs_done = 0, s_scan_errors = Map.empty,
      s_subs = Map.empty, s_events = [], s_queue = [], s_fs = limit_store, s_ctr = 0\<rparr> :: (string \<rightharpoonup> bytes) server"
  have p: "mine_pow (we_blake3 limit_wenv) [5] (cfg_pow_bits limit_scfg) = Some 0"
    by (subst mine_pow_def, subst mine_from.simps) (simp add: verify_pow_def limit_env_simps)
  have h: "daemon_hello limit_wenv limit_dcfg (Some ()) None = Hello (to_hex (replicate 32 0)) ''w1'' None ''worker''"
    "daemon_reply limit_wenv (Some ()) [5] 0 = NonceSignature (Some (to_hex (replicate 64 0))) 0"
    by (simp_all add: daemon_hello_def daemon_reply_def limit_wenv_def limit_dcfg_def)
  have b: "we_blake3 limit_wenv = e_blake3 limit_env" "dc_worker_id limit_dcfg \<noteq> []" "map_of (s_conns ?s) 1 = Some (new_conn 1 ''ip'')"
    by (simp_all add: limit_simps limit_env_simps)
  show ?thesis
    using honest_worker_admitted [OF limit_ed25519 b(1,3,2) h(1) p h(2)] by (auto simp: limit_simps)
qed

definition limit_link :: "unit link" where
  "limit_link =
     \<lparr>l_in = [Inr (Nonce (to_hex [5]) 0), Inr (AuthOk ''w1''), Inr (JobAssignment limit_desc []), Inr (ShutDown [])],
      l_sends = [], l_out = []\<rparr>"

lemma limit_fetch:
  assumes "w_fs st = limit_store"
  shows "fetch_all limit_wenv ''s'' [jd_manifest limit_desc, jd_elf limit_desc, jd_input limit_desc] [] st = Some (Inr (), st)"
proof -
  have has: "store_has disk ''s'' limit_store (pad32 bs)" if "bs = [1] \<or> bs = demo_elf \<or> bs = []" for bs
    using that limit_key [symmetric] by (elim disjE) (simp_all add: store_has_def disk_def limit_store_def)
  have "fetch_blob limit_wenv ''s'' (to_hex (pad32 bs)) [] st = Some (Inr (), st)"
    if "bs = [1] \<or> bs = demo_elf \<or> bs = []" for bs
    using has [OF that] assms by (simp add: fetch_blob_def content_id_round_trip pad32_demo(4) limit_simps)
  then show ?thesis by (simp add: limit_desc_def)
qed

lemma limit_session:
  obtains st' r where "session_once limit_wenv limit_dcfg None True (daemon_start limit_store limit_link) = Ended ServerShutdown st'"
    and "JobResult r \<in> set (l_out (w_link st'))"
proof -
  let ?S = "\<lambda>ins outs. (daemon_start limit_store \<lparr>l_in = ins, l_sends = [], l_out = outs\<rparr>) :: (string \<rightharpoonup> bytes, unit) wstate"
  let ?msgs = "[daemon_hello limit_wenv limit_dcfg (Some ()) None, daemon_reply limit_wenv (Some ()) [5] 0]"
  have k: "load_or_create_identity limit_wenv ''key'' limit_store = Some ((), limit_store)"
    by (simp add: load_or_create_identity_def limit_simps disk_def limit_store_def limit_wenv_def)
  have o: "store_open disk fs r = Inr fs" for fs r by (simp add: store_open_def disk_def)
  have n: "hex_decode (to_hex [5]) = Some [5]" using from_hex_to_hex [of "[5]"] by (simp add: hex_decode_def)
  have p: "mine_pow pad32 [5] 0 = Some 0"
    by (subst mine_pow_def, subst mine_from.simps) (simp add: verify_pow_def)
  have i: "dc_identity limit_dcfg = Some ''key''" by (simp add: limit_dcfg_def)
  have start: "session_once limit_wenv limit_dcfg None True (daemon_start limit_store limit_link) =
      session_loop limit_wenv limit_dcfg (Some ()) (?S (tl (l_in limit_link)) ?msgs)"
    by (simp add: session_once_def i k session_greet_def limit_simps o n p link_send_def link_receive_def
        limit_link_def daemon_start_def)
  have w: "w_fs (?S ins outs) = limit_store" for ins outs by (simp add: daemon_start_def)
  have t1: "session_turn limit_wenv limit_dcfg (Some ()) (?S (Inr (AuthOk a) # ins) outs) = Again (?S ins outs)" for a ins outs
    by (simp add: session_turn_def link_receive_def daemon_start_def)
  have man: "job_manifest limit_job = limit_manifest" by (simp add: limit_job_def)
  obtain r st1 where t2: "session_turn limit_wenv limit_dcfg (Some ()) (?S [Inr (JobAssignment limit_desc []), Inr (ShutDown [])] ?msgs) = Again st1"
    and l: "w_link st1 = \<lparr>l_in = [Inr (ShutDown [])], l_sends = [], l_out = ?msgs @ [JobResult r]\<rparr>"
  proof -
    have "handle_assignment limit_wenv limit_dcfg (Some ()) limit_desc [] (?S ins outs) =
        execute_job limit_wenv limit_dcfg (Some ()) limit_job ((?S ins outs)\<lparr>w_fs := limit_dir (job_dir limit_job)\<rparr>)" for ins outs
      using limit_fetch [OF w [of ins outs]] limit_materialize_job(2) [OF w [of ins outs]]
      by (simp add: handle_assignment_def limit_simps del: fetch_all.simps)
    moreover have "\<exists>r. execute_job limit_wenv limit_dcfg (Some ()) limit_job st =
        finish_job limit_wenv (Some ()) 1 r st" for st
      by (intro exI) (simp add: execute_job_def limit_simps limit_execute man limit_manifest_simps limit_dcfg_def)
    ultimately obtain r where h: "handle_assignment limit_wenv limit_dcfg (Some ()) limit_desc [] (?S [Inr (ShutDown [])] ?msgs) =
        finish_job limit_wenv (Some ()) 1 r ((?S [Inr (ShutDown [])] ?msgs)\<lparr>w_fs := limit_dir (job_dir limit_job)\<rparr>)" by metis
    show ?thesis
      by (rule that [of _ "sign_result limit_wenv (Some ()) r"])
        (simp add: session_turn_def link_receive_def daemon_start_def h [unfolded daemon_start_def] finish_job_def link_send_def, simp)
  qed
  have t3: "session_turn limit_wenv limit_dcfg (Some ()) st1 = Return ServerShutdown (st1\<lparr>w_link := \<lparr>l_in = [], l_sends = [], l_out = ?msgs @ [JobResult r]\<rparr>\<rparr>)"
    by (simp add: session_turn_def l link_receive_def)
  have e: "session_loop limit_wenv limit_dcfg (Some ()) (?S (tl (l_in limit_link)) ?msgs) =
      Ended ServerShutdown (st1\<lparr>w_link := \<lparr>l_in = [], l_sends = [], l_out = ?msgs @ [JobResult r]\<rparr>\<rparr>)"
    by (simp add: limit_link_def session_loop.simps t1 t2 t3)
  show ?thesis by (rule that [OF trans [OF start e], of r]) simp
qed

theorem session_submissions_verify_witness:
  "\<exists>st' r. session_once limit_wenv limit_dcfg None True (daemon_start limit_store limit_link) = Ended ServerShutdown st' \<and>
     JobResult r \<in> set (l_out (w_link st')) \<and> worker_id r = ''w1'' \<and>
     verify_signature (e_vk_from_bytes limit_env) (e_vk_verify limit_env) r = Inr ()"
proof -
  obtain st' r where s: "session_once limit_wenv limit_dcfg None True (daemon_start limit_store limit_link) = Ended ServerShutdown st'"
    and r: "JobResult r \<in> set (l_out (w_link st'))" using limit_session .
  have "dc_identity limit_dcfg = Some ''key''" "l_out (w_link (daemon_start limit_store limit_link)) = []"
    by (simp_all add: limit_dcfg_def daemon_start_def limit_link_def)
  then show ?thesis
    using session_submissions_verify [OF disjI1 [OF s] _ _ limit_ed25519] s r by (auto simp: limit_simps)
qed

lemma unhex_loop_to_hex: "i + k = length bs \<Longrightarrow> unhex_loop (to_hex bs) i k = Some (Some (drop i bs))"
proof (induction k arbitrary: i)
  case (Suc k)
  have b: "is_char_boundary (to_hex bs) (i * 2)" "is_char_boundary (to_hex bs) (i * 2 + 2)"
    using Suc.prems by (intro to_hex_boundary; simp)+
  have "drop i bs = bs ! i # drop (Suc i) bs" using Suc.prems by (simp add: Cons_nth_drop_Suc)
  then show ?case using Suc b to_hex_nth [of i bs] radix_to_hex [of "bs ! i"] by simp
qed simp

lemma unhex_to_hex: "unhex (to_hex bs) = Some (Some bs)"
  using unhex_loop_to_hex [of 0 "length bs" bs] by (simp add: unhex_def)

definition limit_args :: run_args where
  "limit_args = \<lparr>ra_job_dir = job_dir limit_job, ra_out = None, ra_id = ''w1'', ra_corrupt = False,
     ra_snapshots = None, ra_syscalls = False, ra_identity = Some ''key''\<rparr>"

lemma limit_cmd_run:
  obtains r fs' where "cmd_run limit_wenv (\<lambda>_. []) limit_args (limit_dir (job_dir limit_job)) = RanResult r fs'"
proof -
  obtain m out rs where r: "load mem_new demo_image = (Inr (), m)"
    "run pad32 m (elf_entry demo_image) [] (judge_config 1 0) = RunDone (out, rs)"
    using demo_limit_run .
  have j: "job_elf limit_job = demo_elf" "job_input limit_job = []" "job_manifest limit_job = limit_manifest"
    by (simp_all add: limit_job_def)
  have a: "ra_job_dir limit_args = job_dir limit_job" "ra_out limit_args = None" "ra_corrupt limit_args = False"
    "ra_snapshots limit_args = None" "ra_syscalls limit_args = False" "ra_identity limit_args = Some ''key''"
    by (simp_all add: limit_args_def)
  have "\<exists>fs'. run_identity limit_wenv ''key'' fs = Some ((), fs')" for fs
    by (cases "fs ''key''") (simp_all add: run_identity_def limit_simps disk_def)
  then obtain fs' where k: "run_identity limit_wenv ''key'' (limit_dir (job_dir limit_job)) = Some ((), fs')" by blast
  obtain bs where h: "reported_chain False (chunk_hashes out) = (map to_hex (chunk_hashes out), to_hex bs)"
    by (cases "chunk_hashes out = []") (auto simp: reported_chain_def last_map)
  show ?thesis
    by (rule that) (simp add: cmd_run_def limit_simps limit_load j demo_elf_parses r(1) a limit_manifest_simps
        r(2) [unfolded judge_config_def config_default_def, simplified] write_snaps_def h k unhex_to_hex)
qed

theorem run_signature_covers_other_message_witness:
  "\<exists>r fs' k vk msg. cmd_run limit_wenv (\<lambda>_. []) limit_args (limit_dir (job_dir limit_job)) = RanResult r fs' \<and>
     unhex (result_hash r) = Some (Some msg) \<and> msg \<noteq> signing_message r \<and>
     e_vk_from_bytes limit_env (we_public limit_wenv k) = Some vk \<and>
     verify_signature (e_vk_from_bytes limit_env) (e_vk_verify limit_env) r =
       (if e_vk_verify limit_env vk (signing_message r) (we_sign limit_wenv k msg) then Inr () else Inl SigInvalid)"
proof -
  obtain r fs' where c: "cmd_run limit_wenv (\<lambda>_. []) limit_args (limit_dir (job_dir limit_job)) = RanResult r fs'"
    using limit_cmd_run .
  have i: "ra_identity limit_args = Some ''key''" by (simp add: limit_args_def)
  from run_signature_covers_other_message [OF c i limit_ed25519] c show ?thesis by blast
qed

end
