(* ===== verification/Commands.thy ===== *)
theory Commands
  imports WorkerProps "HOL-Library.Countable"
begin

text \<open>
  The coordinator's command line (\<open>crates/coordinator/src/main.rs\<close>): the local quorum run over
  spawned workers, the dispute and optimistic-acceptance commands, publishing and fetching jobs,
  and the set-up of the network server. The worker program the commands spawn is a parameter
  \<open>sp\<close> (program, arguments and file system to the exit status and the file system it leaves);
  \<open>worker_program\<close> states that it is the worker of \<open>crates/worker\<close>. Main results: what the quorum
  run decides with honest and with corrupted workers, that it rejects every job when identities
  are switched on, that an optimistic result survives a false challenge, and that a published job
  is fetched unchanged.
\<close>

section \<open>Operations\<close>

type_synonym 'fs program = "string \<Rightarrow> string list \<Rightarrow> 'fs \<Rightarrow> (bool \<times> 'fs) option"

text \<open>Publishing, fetching and verifying; \<open>None\<close> is the panic of an \<open>expect\<close>.\<close>

definition cmd_publish ::
    "('fs, 'e, 'vk) env \<Rightarrow> string \<Rightarrow> string \<Rightarrow> string \<Rightarrow> 'fs \<Rightarrow> (job_descriptor \<times> digest \<times> 'fs) option" where
  "cmd_publish env job_path store outp fs =
     (let os = sys_os (e_sys env)
      in (case store_open os fs store of
            Inl _ \<Rightarrow> None
          | Inr fs \<Rightarrow>
         (case publish os (e_blake3 env) (e_manifest_json env) store fs job_path of
            Inl _ \<Rightarrow> None
          | Inr (desc, fs) \<Rightarrow>
         (case (descriptor_id (e_blake3 env) (e_desc_to_json env) desc, e_desc_to_json env desc) of
            (Some cid, Some bs) \<Rightarrow>
              (case os_write os fs outp bs of Inl _ \<Rightarrow> None | Inr fs \<Rightarrow> Some (desc, cid, fs))
          | _ \<Rightarrow> None))))"

definition cmd_fetch :: "('fs, 'e, 'vk) env \<Rightarrow> string \<Rightarrow> string \<Rightarrow> string \<Rightarrow> 'fs \<Rightarrow> (job_descriptor \<times> 'fs) option" where
  "cmd_fetch env desc_path store outp fs =
     (let os = sys_os (e_sys env)
      in (case store_open os fs store of
            Inl _ \<Rightarrow> None
          | Inr fs \<Rightarrow>
         (case os_read os fs desc_path of
            Inl _ \<Rightarrow> None
          | Inr bs \<Rightarrow>
         (case e_desc_from_json env bs of
            None \<Rightarrow> None
          | Some desc \<Rightarrow>
         (case materialize os (e_blake3 env) (e_manifest_json env) store fs desc outp of
            Inl _ \<Rightarrow> None
          | Inr fs \<Rightarrow> Some (desc, fs))))))"

definition cmd_verify :: "('fs, 'e, 'vk) env \<Rightarrow> string \<Rightarrow> 'fs \<Rightarrow> (nat \<times> 'fs) option" where
  "cmd_verify env store fs =
     (case store_open (sys_os (e_sys env)) fs store of
        Inl _ \<Rightarrow> None
      | Inr fs \<Rightarrow>
          (case verify_all (sys_os (e_sys env)) (e_blake3 env) store fs of
             Inl _ \<Rightarrow> None
           | Inr n \<Rightarrow> Some (n, fs)))"

subsection \<open>Serving\<close>

record serve_args =
  sa_jobs_dir :: string
  sa_pool :: nat
  sa_deadline_secs :: nat
  sa_max_jobs :: "nat option"
  sa_sample_size :: "nat option"
  sa_round1_ids :: "string option"
  sa_pow_bits :: u32
  sa_zk_verify_cmd :: "string option"
  sa_zk_guest_elf :: "string option"
  sa_zk_judge_cmd :: "string option"
  sa_zk_judge_guest_elf :: "string option"
  sa_zk_judge_max_cycles :: u64
  sa_results_dir :: "string option"
  sa_accept_submissions :: bool
  sa_store :: string
  sa_ledger :: "string option"
  sa_tls :: bool

definition zk_judge_cfg :: "serve_args \<Rightarrow> zk_judge option" where
  "zk_judge_cfg a =
     (case (sa_zk_judge_cmd a, sa_zk_judge_guest_elf a) of
        (Some cmd, Some elf) \<Rightarrow>
          Some \<lparr>zj_cmd = cmd, zj_guest_elf = elf, zj_max_vm_cycles = sa_zk_judge_max_cycles a,
                zj_receipt_dir = sa_results_dir a, zj_verify_cmd = sa_zk_verify_cmd a\<rparr>
      | _ \<Rightarrow> None)"

text \<open>
  The server's certificate and key: read when both files exist, generated and written otherwise.
  \<open>gen\<close> is the certificate generator; \<open>None\<close> is the panic of an \<open>expect\<close>.
\<close>

definition tls_identity ::
    "('fs, 'e) os \<Rightarrow> (bytes \<times> bytes) option \<Rightarrow> string \<Rightarrow> 'fs \<Rightarrow> ((bytes \<times> bytes) \<times> 'fs) option" where
  "tls_identity os gen store fs =
     (let cert_path = join store ''coordinator-cert.der''; key_path = join store ''coordinator-key.der''
      in if os_exists os fs cert_path \<and> os_exists os fs key_path
         then (case (os_read os fs cert_path, os_read os fs key_path) of
                 (Inr cert, Inr key) \<Rightarrow> Some ((cert, key), fs)
               | _ \<Rightarrow> None)
         else (case gen of
                 None \<Rightarrow> None
               | Some (cert, key) \<Rightarrow>
                   (case os_write os fs cert_path cert of
                      Inl _ \<Rightarrow> None
                    | Inr fs \<Rightarrow>
                        (case os_write os fs key_path key of
                           Inl _ \<Rightarrow> None
                         | Inr fs \<Rightarrow> Some ((cert, key), fs)))))"

definition serve_config_of :: "serve_args \<Rightarrow> serve_config" where
  "serve_config_of a =
     \<lparr>cfg_jobs_dir = sa_jobs_dir a, cfg_store_dir = sa_store a, cfg_deadline = 1000 * sa_deadline_secs a,
      cfg_ledger = sa_ledger a, cfg_require_identity = True,
      cfg_zk = (case (sa_zk_verify_cmd a, sa_zk_guest_elf a) of
                  (Some cmd, Some elf) \<Rightarrow> Some \<lparr>zv_cmd = cmd, zv_guest_elf = elf\<rparr>
                | _ \<Rightarrow> None),
      cfg_zk_judge = zk_judge_cfg a, cfg_zk_prover = zk_judge_cfg a,
      cfg_accept_submissions = sa_accept_submissions a, cfg_results_dir = sa_results_dir a,
      cfg_pow_bits = sa_pow_bits a, cfg_pool = Some (sa_pool a), cfg_max_jobs = sa_max_jobs a,
      cfg_round1_size = sa_sample_size a,
      cfg_round1_ids = map_option (\<lambda>s. map trim (split_on CHR '','' s)) (sa_round1_ids a)\<rparr>"

text \<open>What \<open>cmd_serve\<close> hands to the server: the configuration and, with \<open>--tls\<close>, certificate and key.\<close>

definition serve_setup ::
    "('fs, 'e) os \<Rightarrow> (bytes \<times> bytes) option \<Rightarrow> serve_args \<Rightarrow> 'fs \<Rightarrow>
     (serve_config \<times> (bytes \<times> bytes) option \<times> 'fs) option" where
  "serve_setup os gen a fs =
     (if sa_tls a
      then (case tls_identity os gen (sa_store a) fs of
              None \<Rightarrow> None
            | Some (ck, fs) \<Rightarrow>
                \<comment> \<open>the printed fingerprint reads the certificate file again\<close>
                (case os_read os fs (join (sa_store a) ''coordinator-cert.der'') of
                   Inl _ \<Rightarrow> None
                 | Inr _ \<Rightarrow> Some (serve_config_of a, Some ck, fs)))
      else Some (serve_config_of a, None, fs))"

text \<open>The report per served job; printing an accepted hash slices its first 16 bytes.\<close>

definition report_panics :: "decision \<Rightarrow> bool" where
  "report_panics d = (case d of Accept h _ _ _ \<Rightarrow> \<not> prefix_ok h 16 | _ \<Rightarrow> False)"

subsection \<open>The local quorum run\<close>

definition load_result :: "('fs, 'e) os \<Rightarrow> (bytes \<Rightarrow> worker_result option) \<Rightarrow> string \<Rightarrow> 'fs \<Rightarrow> worker_result option" where
  "load_result os from_json path fs = (case os_read os fs path of Inl _ \<Rightarrow> None | Inr bs \<Rightarrow> from_json bs)"

definition worker_args :: "string \<Rightarrow> string \<Rightarrow> string \<Rightarrow> string list \<Rightarrow> string list" where
  "worker_args job_path outp wid extra = [''run'', job_path, ''--out'', outp, ''--id'', wid] @ extra"

definition result_file :: "('fs, 'e) sys \<Rightarrow> string \<Rightarrow> string" where
  "result_file sys wid = join (temp_dir sys) (''p2pc-'' @ wid @ ''.json'')"

definition run_worker ::
    "('fs, 'e) sys \<Rightarrow> 'fs program \<Rightarrow> (bytes \<Rightarrow> worker_result option) \<Rightarrow> string \<Rightarrow> string \<Rightarrow> string \<Rightarrow> string list \<Rightarrow>
     'fs \<Rightarrow> (worker_result \<times> 'fs) option" where
  "run_worker sys sp from_json worker job_path wid extra fs =
     (case sp worker (worker_args job_path (result_file sys wid) wid extra) fs of
        None \<Rightarrow> None
      | Some (success, fs) \<Rightarrow>
          if \<not> success then None
          else map_option (\<lambda>r. (r, fs)) (load_result (sys_os sys) from_json (result_file sys wid) fs))"

record quorum_args =
  qa_job_dir :: string
  qa_worker :: string
  qa_out :: "string option"
  qa_corrupt :: bool
  qa_ledger :: "string option"
  qa_snapshots :: bool
  qa_identities :: bool

definition spawned_id :: "nat \<Rightarrow> string" where
  "spawned_id n = CHR ''w'' # dec_nat n"

definition spawn_extra :: "quorum_args \<Rightarrow> nat \<Rightarrow> string list" where
  "spawn_extra a i =
     (if qa_corrupt a \<and> i = 1 then [''--corrupt''] else []) @
     (if qa_snapshots a then [''--snapshots'', ''snaps-'' @ spawned_id (i + 1)] else []) @
     (if qa_identities a then [''--identity'', ''identities/'' @ spawned_id (i + 1) @ ''.key''] else [])"

text \<open>Round 1: a result whose signature does not verify stays in the pool, marked malformed.\<close>

definition checked_result :: "('fs, 'e, 'vk) env \<Rightarrow> quorum_args \<Rightarrow> worker_result \<Rightarrow> worker_result" where
  "checked_result env a r =
     (if qa_identities a \<and> verify_signature (e_vk_from_bytes env) (e_vk_verify env) r \<noteq> Inr ()
      then r\<lparr>wr_status := ''malformed''\<rparr> else r)"

fun first_round ::
    "('fs, 'e, 'vk) env \<Rightarrow> 'fs program \<Rightarrow> (bytes \<Rightarrow> worker_result option) \<Rightarrow> quorum_args \<Rightarrow> nat list \<Rightarrow> 'fs \<Rightarrow>
     (worker_result list \<times> 'fs) option" where
  "first_round env sp from_json a [] fs = Some ([], fs)"
| "first_round env sp from_json a (i # is) fs =
     (case run_worker (e_sys env) sp from_json (qa_worker a) (qa_job_dir a) (spawned_id (i + 1)) (spawn_extra a i) fs of
        None \<Rightarrow> None
      | Some (r, fs) \<Rightarrow>
          map_option (\<lambda>(rs, fs). (checked_result env a r # rs, fs)) (first_round env sp from_json a is fs))"

fun more_workers ::
    "('fs, 'e, 'vk) env \<Rightarrow> 'fs program \<Rightarrow> (bytes \<Rightarrow> worker_result option) \<Rightarrow> quorum_args \<Rightarrow> nat list \<Rightarrow> 'fs \<Rightarrow>
     (worker_result list \<times> 'fs) option" where
  "more_workers env sp from_json a [] fs = Some ([], fs)"
| "more_workers env sp from_json a (n # ns) fs =
     (case run_worker (e_sys env) sp from_json (qa_worker a) (qa_job_dir a) (spawned_id n) [] fs of
        None \<Rightarrow> None
      | Some (r, fs) \<Rightarrow> map_option (\<lambda>(rs, fs). (r # rs, fs)) (more_workers env sp from_json a ns fs))"

definition pool_size :: "worker_result list \<Rightarrow> nat" where
  "pool_size pool = (if length pool > 3 then 5 else 3)"

text \<open>Both rounds: the pool, the decision and the file system; \<open>None\<close> is a panic.\<close>

definition run_rounds ::
    "('fs, 'e, 'vk) env \<Rightarrow> 'fs program \<Rightarrow> (bytes \<Rightarrow> worker_result option) \<Rightarrow> quorum_args \<Rightarrow> 'fs \<Rightarrow>
     (worker_result list \<times> decision \<times> 'fs) option" where
  "run_rounds env sp from_json a fs =
     (let fs = (if qa_identities a then mkdir_or_keep (e_sys env) fs ''identities'' else fs)
      in (case first_round env sp from_json a [0, 1, 2] fs of
            None \<Rightarrow> None
          | Some (pool, fs) \<Rightarrow>
              (if decide pool (pool_size pool) = Escalate
               then (case more_workers env sp from_json a [4, 5] fs of
                       None \<Rightarrow> None
                     | Some (late, fs) \<Rightarrow>
                         (let pool = pool @ late in Some (pool, decide pool (pool_size pool), fs)))
               else Some (pool, decide pool (pool_size pool), fs))))"

definition run_deltas :: "decision \<Rightarrow> worker_result list \<Rightarrow> string \<times> (string \<times> int) list" where
  "run_deltas d pool =
     (case d of
        Accept _ _ _ _ \<Rightarrow> (''accept'', slashing d pool)
      | Escalate \<Rightarrow> (''escalate'', [])
      | Reject _ \<Rightarrow> (''reject'', slashing d pool))"

text \<open>The ledger text and the exit code. \<open>summary\<close> is the JSON of a run without a ledger.\<close>

definition coordinator_run ::
    "('fs, 'e, 'vk) env \<Rightarrow> 'fs program \<Rightarrow> (bytes \<Rightarrow> worker_result option) \<Rightarrow>
     (string \<Rightarrow> string \<Rightarrow> (string \<times> int) list \<Rightarrow> bytes) \<Rightarrow> quorum_args \<Rightarrow> 'fs \<Rightarrow> (nat \<times> bytes \<times> 'fs) option" where
  "coordinator_run env sp from_json summary a fs =
     (case run_rounds env sp from_json a fs of
        None \<Rightarrow> None
      | Some (pool, d, fs) \<Rightarrow>
          (let os = sys_os (e_sys env); (dec, deltas) = run_deltas d pool; job = wr_job_id (pool ! 0)
           in if report_panics d \<or> \<not> list_all (\<lambda>r. prefix_ok (result_hash r) (min 16 (length (result_hash r)))) pool then None
              else
                (case (case qa_ledger a of
                         None \<Rightarrow> Some (summary job dec deltas, fs)
                       | Some path \<Rightarrow>
                           (case ledger_load os (e_not_found env) (e_ledger_from_json env) fs path of
                              Inl _ \<Rightarrow> None
                            | Inr led \<Rightarrow>
                                (let led = ledger_apply led job dec (map (\<lambda>(w, x). (w, word_of_int x)) deltas)
                                 in (case ledger_save os (e_ledger_to_json env) fs path led of
                                       Inl _ \<Rightarrow> None
                                     | Inr fs \<Rightarrow> Some (e_ledger_to_json env led, fs))))) of
                   None \<Rightarrow> None
                 | Some (txt, fs) \<Rightarrow>
                     (case (case qa_out a of
                              None \<Rightarrow> Some fs
                            | Some p \<Rightarrow> (case os_write os fs p txt of Inl _ \<Rightarrow> None | Inr fs \<Rightarrow> Some fs)) of
                        None \<Rightarrow> None
                      | Some fs \<Rightarrow> Some (if dec = ''reject'' then 1 else 0, txt, fs)))))"

subsection \<open>Disputes and optimistic acceptance\<close>

definition dispute_of ::
    "('fs, 'e, 'vk) env \<Rightarrow> job \<Rightarrow> worker_result \<Rightarrow> worker_result \<Rightarrow> string option \<Rightarrow> 'fs \<Rightarrow> verdict judged" where
  "dispute_of env job claim counter snaps fs =
     (case parse (job_elf job) of
        Some (Inr img) \<Rightarrow>
          resolve (sys_os (e_sys env)) (e_blake3 env) fs
            \<lparr>di_claim = claim, di_counter = counter, di_elf = job_elf job, di_entry = elf_entry img,
             di_input = job_input job, di_chunk_size = jm_chunk_size (job_manifest job),
             di_max_instructions = jm_max_instructions (job_manifest job), di_snapshot_dir = snaps\<rparr>
      | _ \<Rightarrow> Panics)"

text \<open>The exit code and the verdict.\<close>

definition cmd_dispute ::
    "('fs, 'e, 'vk) env \<Rightarrow> (bytes \<Rightarrow> worker_result option) \<Rightarrow> string \<Rightarrow> string \<Rightarrow> string \<Rightarrow> string option \<Rightarrow> 'fs \<Rightarrow>
     (nat \<times> verdict) judged" where
  "cmd_dispute env from_json job_path a b snaps fs =
     (let os = sys_os (e_sys env)
      in (case (load_dir os (e_manifest_json env) fs job_path, load_result os from_json a fs, load_result os from_json b fs) of
            (Inr job, Some ra, Some rb) \<Rightarrow>
              (case dispute_of env job ra rb snaps fs of
                 Ret v \<Rightarrow>
                   Ret (case v of ClaimHonest _ \<Rightarrow> 0 | CounterHonest _ \<Rightarrow> 0 | Agreement \<Rightarrow> 0 | _ \<Rightarrow> 1, v)
               | Panics \<Rightarrow> Panics
               | Diverges \<Rightarrow> Diverges)
          | _ \<Rightarrow> Panics))"

record optimistic_args =
  oa_job_dir :: string
  oa_worker :: string
  oa_challenge :: bool

definition cmd_optimistic ::
    "('fs, 'e, 'vk) env \<Rightarrow> 'fs program \<Rightarrow> (bytes \<Rightarrow> worker_result option) \<Rightarrow> optimistic_args \<Rightarrow> 'fs \<Rightarrow> opt_state judged" where
  "cmd_optimistic env sp from_json a fs =
     (case load_dir (sys_os (e_sys env)) (e_manifest_json env) fs (oa_job_dir a) of
        Inl _ \<Rightarrow> Panics
      | Inr job \<Rightarrow>
     (case run_worker (e_sys env) sp from_json (oa_worker a) (oa_job_dir a) ''prover'' [] fs of
        None \<Rightarrow> Panics
      | Some (prover, fs) \<Rightarrow>
          if oa_challenge a
          then (case run_worker (e_sys env) sp from_json (oa_worker a) (oa_job_dir a) ''challenger'' [''--corrupt''] fs of
                  None \<Rightarrow> Panics
                | Some (counter, fs) \<Rightarrow>
                    (case dispute_of env job prover counter None fs of
                       Ret v \<Rightarrow>
                         (case transition Awaiting (Challenge v) True of Inl _ \<Rightarrow> Panics | Inr st \<Rightarrow> Ret st)
                     | Panics \<Rightarrow> Panics
                     | Diverges \<Rightarrow> Diverges))
          else (case expire Awaiting (result_hash prover) of
                  Inl _ \<Rightarrow> Panics
                | Inr st \<Rightarrow>
                    if prefix_ok (result_hash prover) (min 16 (length (result_hash prover))) then Ret st else Panics)))"

section \<open>The worker program\<close>

text \<open>
  A value on the command line that is not taken for an option, and the program the coordinator
  spawns: called with the arguments the coordinator builds, it does what \<open>cmd_run\<close> of
  \<open>crates/worker\<close> does and exits with success exactly when that returns a result.
\<close>

definition plain_arg :: "string \<Rightarrow> bool" where
  "plain_arg s \<longleftrightarrow> s \<noteq> [] \<and> hd s \<noteq> CHR ''-''"

definition run_flags :: "bool \<Rightarrow> string option \<Rightarrow> string list" where
  "run_flags corrupt identity =
     (if corrupt then [''--corrupt''] else []) @ (case identity of None \<Rightarrow> [] | Some p \<Rightarrow> [''--identity'', p])"

definition parsed_args :: "string \<Rightarrow> string \<Rightarrow> string \<Rightarrow> bool \<Rightarrow> string option \<Rightarrow> run_args" where
  "parsed_args dir outp w corrupt identity =
     \<lparr>ra_job_dir = dir, ra_out = Some outp, ra_id = w, ra_corrupt = corrupt, ra_snapshots = None,
      ra_syscalls = False, ra_identity = identity\<rparr>"

definition worker_program ::
    "('fs, 'e, 'sk, 'x, 'k, 'p) wenv \<Rightarrow> (worker_result \<Rightarrow> bytes) \<Rightarrow> 'fs program \<Rightarrow> string \<Rightarrow> bool" where
  "worker_program wenv to_json sp worker \<longleftrightarrow>
     (\<forall>dir outp w corrupt identity fs r fs'.
        plain_arg dir \<and> plain_arg outp \<and> plain_arg w \<and> (\<forall>p. identity = Some p \<longrightarrow> plain_arg p) \<and>
        cmd_run wenv to_json (parsed_args dir outp w corrupt identity) fs = RanResult r fs' \<longrightarrow>
        sp worker (worker_args dir outp w (run_flags corrupt identity)) fs = Some (True, fs'))"

text \<open>The coordinator and the workers it spawns share one machine and one build of the program.\<close>

definition local_fleet ::
    "('fs, 'e, 'vk) env \<Rightarrow> ('fs, 'e, 'sk, 'x, 'k, 'p) wenv \<Rightarrow> (worker_result \<Rightarrow> bytes) \<Rightarrow>
     (bytes \<Rightarrow> worker_result option) \<Rightarrow> 'fs program \<Rightarrow> string \<Rightarrow> bool" where
  "local_fleet env wenv to_json from_json sp worker \<longleftrightarrow>
     e_sys env = we_sys wenv \<and> e_blake3 env = we_blake3 wenv \<and> e_manifest_json env = we_manifest_json wenv \<and>
     os_ok (sys_os (we_sys wenv)) \<and> plain_arg (temp_dir (we_sys wenv)) \<and>
     (\<forall>r. from_json (to_json r) = Some r) \<and> worker_program wenv to_json sp worker"

text \<open>The files a run writes can be written and are not files of the job.\<close>

definition job_files :: "string \<Rightarrow> job \<Rightarrow> string set" where
  "job_files dir job = {join dir ''job.json'', join dir (jm_elf (job_manifest job)), join dir (jm_input (job_manifest job))}"

definition writable :: "('fs, 'e) os \<Rightarrow> string set \<Rightarrow> bool" where
  "writable os W \<longleftrightarrow> (\<forall>fs bs. \<forall>p \<in> W. \<exists>fs'. os_write os fs p bs = Inr fs')"

definition job_runs ::
    "('fs, 'e, 'sk, 'x, 'k, 'p) wenv \<Rightarrow> 'fs \<Rightarrow> string \<Rightarrow> job \<Rightarrow> run_outcome \<Rightarrow> bool" where
  "job_runs wenv fs dir job out \<longleftrightarrow>
     load_dir (sys_os (we_sys wenv)) (we_manifest_json wenv) fs dir = Inr job \<and>
     (\<exists>img m rs. parse (job_elf job) = Some (Inr img) \<and> load mem_new img = (Inr (), m) \<and>
        run (we_blake3 wenv) m (elf_entry img) (job_input job)
          (judge_config (jm_chunk_size (job_manifest job)) (jm_max_instructions (job_manifest job))) = RunDone (out, rs))"

lemma load_dir_manifest:
  assumes "load_dir os mj fs dir = Inr job"
  obtains raw where "os_read os fs (join dir ''job.json'') = Inr raw" and "mj raw = Some (job_manifest job)"
    and "os_read os fs (join dir (jm_elf (job_manifest job))) = Inr (job_elf job)"
    and "os_read os fs (join dir (jm_input (job_manifest job))) = Inr (job_input job)"
  using assms by (auto simp: load_dir_def split: sum.splits option.splits if_splits)

lemma load_dir_frame:
  assumes "load_dir os mj fs dir = Inr job" and "\<And>p. p \<in> job_files dir job \<Longrightarrow> os_read os fs' p = os_read os fs p"
  shows "load_dir os mj fs' dir = Inr job"
proof -
  obtain raw where r: "os_read os fs (join dir ''job.json'') = Inr raw" "mj raw = Some (job_manifest job)"
    "os_read os fs (join dir (jm_elf (job_manifest job))) = Inr (job_elf job)"
    "os_read os fs (join dir (jm_input (job_manifest job))) = Inr (job_input job)"
    using load_dir_manifest [OF assms(1)] .
  have "os_read os fs' (join dir ''job.json'') = Inr raw"
    "os_read os fs' (join dir (jm_elf (job_manifest job))) = Inr (job_elf job)"
    "os_read os fs' (join dir (jm_input (job_manifest job))) = Inr (job_input job)"
    using r assms(2) by (simp_all add: job_files_def)
  then have "load_dir os mj fs' dir = load_dir os mj fs dir" using r by (simp add: load_dir_def split: sum.split)
  then show ?thesis using assms(1) by simp
qed

lemma job_runs_frame:
  assumes "job_runs wenv fs dir job out"
    and "\<And>p. p \<in> job_files dir job \<Longrightarrow> os_read (sys_os (we_sys wenv)) fs' p = os_read (sys_os (we_sys wenv)) fs p"
  shows "job_runs wenv fs' dir job out"
  using assms(1) load_dir_frame [OF _ assms(2), where mj = "we_manifest_json wenv"] by (auto simp: job_runs_def)

section \<open>Corrupted hashes\<close>

lemma hex_char_zero: "d < 16 \<Longrightarrow> hex_char d = CHR ''0'' \<longleftrightarrow> d = 0"
  using u8_below_16 [of d] by (auto simp: hex_char_def char_of_eq_iff)

lemma hex_char_digits: "hex_char 0 = CHR ''0''" "hex_char 1 = CHR ''1''"
  by (simp_all add: hex_char_def char_of_eq_iff)

definition flip_nibble :: "u8 \<Rightarrow> u8" where
  "flip_nibble y = (y AND 0xF0) OR (if y AND 15 = 0 then 1 else 0)"

lemma flip_nibble:
  "drop_bit 4 (flip_nibble y) = drop_bit 4 y" "flip_nibble y AND 15 = (if y AND 15 = 0 then 1 else 0)" "flip_nibble y \<noteq> y"
proof -
  have "\<forall>n < 8. bit (0xF0 :: u8) n = (4 \<le> n) \<and> bit (15 :: u8) n = (n < 4)" by code_simp
  then have m: "bit (0xF0 :: u8) n \<longleftrightarrow> 4 \<le> n" "bit (15 :: u8) n \<longleftrightarrow> n < 4" if "n < 8" for n using that by blast+
  have "bit (flip_nibble y) n \<longleftrightarrow> bit y n" if "4 \<le> n" for n
  proof (cases "n < 8")
    case True
    then show ?thesis using m(1) [OF True] that by (simp add: flip_nibble_def bit_or_iff bit_and_iff bit_1_iff)
  qed (auto dest: bit_imp_le_length)
  then show "drop_bit 4 (flip_nibble y) = drop_bit 4 y"
    by (intro bit_word_eqI) (simp add: bit_drop_bit_eq)
  show "flip_nibble y AND 15 = (if y AND 15 = 0 then 1 else 0)"
  proof (rule bit_word_eqI)
    fix n assume "n < LENGTH(8)"
    then have "n < 8" by simp
    from m [OF this] show "bit (flip_nibble y AND 15) n \<longleftrightarrow> bit (if y AND 15 = 0 then 1 else 0 :: u8) n"
      by (auto simp: flip_nibble_def bit_or_iff bit_and_iff bit_1_iff)
  qed
  then show "flip_nibble y \<noteq> y" by (auto split: if_splits)
qed

lemma flip_last_to_hex:
  assumes "length d = 32"
  obtains d' where "length d' = 32" and "d' \<noteq> d" and "flip_last (to_hex d) = to_hex d'"
proof -
  obtain xs y where d: "d = xs @ [y]" using assms by (cases d rule: rev_cases) auto
  have "flip_last (to_hex d) = to_hex (xs @ [flip_nibble y])"
    using flip_nibble [of y] hex_char_zero [OF nibbles(2), of y]
    by (simp add: d to_hex_def flip_last_def butlast_append hex_char_digits)
  then show ?thesis using that [of "xs @ [flip_nibble y]"] flip_nibble(3) [of y] assms by (simp add: d)
qed

text \<open>What the report of a worker says, honest or corrupted.\<close>

definition final_hash :: "digest list \<Rightarrow> digest" where
  "final_hash chain = (if chain = [] then GENESIS else last chain)"

lemma reported_chain_honest: "reported_chain False chain = (map to_hex chain, to_hex (final_hash chain))"
  by (simp add: reported_chain_def final_hash_def last_map)

lemma reported_chain_corrupt:
  assumes "chain \<noteq> []" and "\<forall>d \<in> set chain. length d = 32"
  obtains d' where "length d' = 32" and "d' \<noteq> last chain"
    and "reported_chain True chain = (map to_hex (butlast chain @ [d']), to_hex d')"
proof -
  obtain d' where "length d' = 32" "d' \<noteq> last chain" "flip_last (to_hex (last chain)) = to_hex d'"
    using flip_last_to_hex [of "last chain"] assms by auto
  then show ?thesis
    using that assms(1) by (simp add: reported_chain_def last_map map_butlast)
qed

section \<open>One spawned worker\<close>

lemma reported_hash:
  assumes "\<forall>d \<in> set chain. length d = 32"
  obtains d where "length d = 32" and "snd (reported_chain corrupt chain) = to_hex d"
proof (cases "corrupt \<and> chain \<noteq> []")
  case True
  then obtain d' where "length d' = 32" "reported_chain True chain = (map to_hex (butlast chain @ [d']), to_hex d')"
    using reported_chain_corrupt [OF _ assms] by metis
  then show ?thesis using that True by simp
next
  case False
  then have "snd (reported_chain corrupt chain) = to_hex (final_hash chain)"
    by (auto simp: reported_chain_def final_hash_def last_map)
  moreover have "length (final_hash chain) = 32" using assms by (simp add: final_hash_def GENESIS_def)
  ultimately show ?thesis using that by blast
qed

lemma run_identity_ok:
  assumes "os_ok (sys_os (we_sys wenv))" and "writable (sys_os (we_sys wenv)) W" and "path \<in> W"
  obtains k fs' where "run_identity wenv path fs = Some (k, fs')"
    and "\<And>p. p \<notin> W \<Longrightarrow> os_read (sys_os (we_sys wenv)) fs' p = os_read (sys_os (we_sys wenv)) fs p"
proof -
  obtain f1 where w: "os_write (sys_os (we_sys wenv)) fs path (we_seed wenv) = Inr f1"
    using assms(2,3) unfolding writable_def by blast
  have f: "os_read (sys_os (we_sys wenv)) f1 p = os_read (sys_os (we_sys wenv)) fs p" if "p \<notin> W" for p
    by (rule os_okD(2) [OF assms(1) w]) (use that assms(3) in auto)
  have "run_identity wenv path fs = Some (we_key wenv (we_seed wenv), f1) \<or>
      (\<exists>seed. run_identity wenv path fs = Some (we_key wenv seed, fs))"
    using w by (auto simp: run_identity_def Let_def split: sum.split)
  then consider "run_identity wenv path fs = Some (we_key wenv (we_seed wenv), f1)"
    | seed where "run_identity wenv path fs = Some (we_key wenv seed, fs)" by blast
  then show ?thesis
  proof cases
    case 1
    then show ?thesis using f by (rule that)
  next
    case 2
    then show ?thesis by (rule that) simp
  qed
qed

lemma worker_run_reports:
  assumes "os_ok (sys_os (we_sys wenv))" and "job_runs wenv fs dir job out" and "\<forall>x. length (we_blake3 wenv x) = 32"
    and "writable (sys_os (we_sys wenv)) W" and "W \<inter> job_files dir job = {}" and "outp \<in> W"
    and "\<forall>p. identity = Some p \<longrightarrow> p \<in> W"
  obtains r fs' where "cmd_run wenv to_json (parsed_args dir outp w corrupt identity) fs = RanResult r fs'"
    and "os_read (sys_os (we_sys wenv)) fs' outp = Inr (to_json r)" and "job_runs wenv fs' dir job out"
    and "(wr_chunk_hashes r, result_hash r) = reported_chain corrupt (chunk_hashes out)"
    and "worker_id r = w" and "wr_status r = status_text (status out)" and "output_hex r = map_option to_hex (run_output out)"
    and "wr_job_id r = jm_id (job_manifest job)"
proof -
  let ?os = "sys_os (we_sys wenv)" and ?man = "job_manifest job"
  obtain img m rs where j: "load_dir ?os (we_manifest_json wenv) fs dir = Inr job" "parse (job_elf job) = Some (Inr img)"
    "load mem_new img = (Inr (), m)"
    "run (we_blake3 wenv) m (elf_entry img) (job_input job) (judge_config (jm_chunk_size ?man) (jm_max_instructions ?man)) = RunDone (out, rs)"
    using assms(2) unfolding job_runs_def by blast
  have "replay (we_blake3 wenv) (job_elf job) (elf_entry img) (job_input job) (jm_chunk_size ?man) (jm_max_instructions ?man) = Ret (Some out)"
    using j by (simp add: replay_def)
  from replay_hash_lengths [OF _ this] have c: "\<forall>d \<in> set (chunk_hashes out). length d = 32" using assms(3) by blast
  obtain d where d: "snd (reported_chain corrupt (chunk_hashes out)) = to_hex d" by (rule reported_hash [OF c, of corrupt])
  obtain hs where h: "reported_chain corrupt (chunk_hashes out) = (hs, to_hex d)" using d by (cases "reported_chain corrupt (chunk_hashes out)") simp
  let ?signed = "case identity of None \<Rightarrow> Some (None, None, fs)
      | Some path \<Rightarrow> (case (run_identity wenv path fs, unhex (to_hex d)) of
          (Some (k, fs), Some (Some msg)) \<Rightarrow> Some (Some (to_hex (we_public wenv k)), Some (to_hex (we_sign wenv k msg)), fs)
        | _ \<Rightarrow> None)"
  obtain pk sig f1 where i: "?signed = Some (pk, sig, f1)" and f1: "\<And>p. p \<notin> W \<Longrightarrow> os_read ?os f1 p = os_read ?os fs p"
  proof (cases identity)
    case (Some path)
    then obtain k f1 where "run_identity wenv path fs = Some (k, f1)" "\<And>p. p \<notin> W \<Longrightarrow> os_read ?os f1 p = os_read ?os fs p"
      using run_identity_ok [OF assms(1,4), of path fs] assms(7) by blast
    then show ?thesis using that Some by (simp add: unhex_to_hex)
  qed (use that in simp)
  let ?r = "\<lparr>worker_id = w, wr_job_id = jm_id ?man, wr_status = status_text (status out), wr_instructions = instructions out,
     result_hash = to_hex d, wr_chunk_hashes = hs, output_hex = map_option to_hex (run_output out), wr_trap = trap_text (status out),
     pubkey_hex = pk, sig_hex = sig\<rparr>"
  obtain f2 where w: "os_write ?os f1 outp (to_json ?r) = Inr f2" using assms(4,6) unfolding writable_def by blast
  have "os_read ?os f2 p = os_read ?os fs p" if "p \<in> job_files dir job" for p
    using that os_okD(2) [OF assms(1) w] f1 assms(5,6) by (metis disjoint_iff)
  then have "job_runs wenv f2 dir job out" by (rule job_runs_frame [OF assms(2)])
  moreover have "cmd_run wenv to_json (parsed_args dir outp w corrupt identity) fs = RanResult ?r f2"
    using w by (simp add: cmd_run_def parsed_args_def j(1-3) write_snaps_def h
        j(4) [unfolded judge_config_def config_default_def, simplified] i)
  ultimately show ?thesis using that [of ?r f2] os_okD(1) [OF assms(1) w] h by simp
qed

definition reports :: "job \<Rightarrow> run_outcome \<Rightarrow> string \<Rightarrow> bool \<Rightarrow> worker_result \<Rightarrow> bool" where
  "reports job out w corrupt r \<longleftrightarrow>
     (wr_chunk_hashes r, result_hash r) = reported_chain corrupt (chunk_hashes out) \<and> worker_id r = w \<and>
     wr_status r = status_text (status out) \<and> output_hex r = map_option to_hex (run_output out) \<and>
     wr_job_id r = jm_id (job_manifest job)"

definition signed_hash :: "('fs, 'e, 'sk, 'x, 'k, 'p) wenv \<Rightarrow> worker_result \<Rightarrow> bool" where
  "signed_hash wenv r \<longleftrightarrow>
     (\<exists>k msg. unhex (result_hash r) = Some (Some msg) \<and> pubkey_hex r = Some (to_hex (we_public wenv k)) \<and>
        sig_hex r = Some (to_hex (we_sign wenv k msg)))"

lemma run_worker_ok:
  assumes "local_fleet env wenv to_json from_json sp worker" and "job_runs wenv fs dir job out"
    and "\<forall>x. length (we_blake3 wenv x) = 32"
    and "writable (sys_os (we_sys wenv)) W" and "W \<inter> job_files dir job = {}" and "result_file (we_sys wenv) w \<in> W"
    and "\<forall>p. identity = Some p \<longrightarrow> p \<in> W \<and> plain_arg p" and "plain_arg dir" and "plain_arg w"
  obtains r fs' where "run_worker (e_sys env) sp from_json worker dir w (run_flags corrupt identity) fs = Some (r, fs')"
    and "job_runs wenv fs' dir job out" and "reports job out w corrupt r" and "identity \<noteq> None \<Longrightarrow> signed_hash wenv r"
proof -
  let ?o = "result_file (we_sys wenv) w" and ?os = "sys_os (we_sys wenv)"
  have f: "e_sys env = we_sys wenv" "os_ok ?os" "plain_arg (temp_dir (we_sys wenv))" "\<And>r. from_json (to_json r) = Some r"
    "worker_program wenv to_json sp worker"
    using assms(1) by (simp_all add: local_fleet_def)
  have i: "\<forall>p. identity = Some p \<longrightarrow> p \<in> W" "\<forall>p. identity = Some p \<longrightarrow> plain_arg p" using assms(7) by blast+
  obtain r fs' where c: "cmd_run wenv to_json (parsed_args dir ?o w corrupt identity) fs = RanResult r fs'"
    "os_read ?os fs' ?o = Inr (to_json r)" "job_runs wenv fs' dir job out"
    and r: "(wr_chunk_hashes r, result_hash r) = reported_chain corrupt (chunk_hashes out)"
    "worker_id r = w" "wr_status r = status_text (status out)" "output_hex r = map_option to_hex (run_output out)"
    "wr_job_id r = jm_id (job_manifest job)"
    by (rule worker_run_reports [OF f(2) assms(2-6) i(1)])
  have "plain_arg ?o" using f(3) by (simp add: plain_arg_def result_file_def join_def)
  then have s: "sp worker (worker_args dir ?o w (run_flags corrupt identity)) fs = Some (True, fs')"
    using f(5) c(1) i(2) assms(8,9) unfolding worker_program_def by blast
  have "signed_hash wenv r" if "identity \<noteq> None"
    using that cmd_run_resultD [OF c(1)] unfolding signed_hash_def by (auto simp: parsed_args_def)
  then show ?thesis
    using s c(2,3) r by (intro that) (simp_all add: run_worker_def f(1,4) load_result_def reports_def)
qed

section \<open>The first round\<close>

definition identity_file :: "nat \<Rightarrow> string" where
  "identity_file n = ''identities/'' @ spawned_id n @ ''.key''"

definition run_files :: "('fs, 'e) sys \<Rightarrow> string set" where
  "run_files sys = (\<Union>n \<in> {1, 2, 3}. {result_file sys (spawned_id n), identity_file n})"

definition checked_report ::
    "('fs, 'e, 'vk) env \<Rightarrow> ('fs, 'e, 'sk, 'x, 'k, 'p) wenv \<Rightarrow> quorum_args \<Rightarrow> job \<Rightarrow> run_outcome \<Rightarrow> nat \<Rightarrow> worker_result \<Rightarrow> bool" where
  "checked_report env wenv a job out n r' \<longleftrightarrow>
     (\<exists>r. r' = checked_result env a r \<and> reports job out (spawned_id n) (qa_corrupt a \<and> n = 2) r \<and>
        (qa_identities a \<longrightarrow> signed_hash wenv r))"

lemma first_round_ok:
  assumes "local_fleet env wenv to_json from_json sp (qa_worker a)" and "job_runs wenv fs (qa_job_dir a) job out"
    and "\<forall>x. length (we_blake3 wenv x) = 32" and "writable (sys_os (we_sys wenv)) (run_files (we_sys wenv))"
    and "run_files (we_sys wenv) \<inter> job_files (qa_job_dir a) job = {}" and "plain_arg (qa_job_dir a)"
    and "\<not> qa_snapshots a" and "set is \<subseteq> {0, 1, 2}"
  shows "\<exists>rs fs'. first_round env sp from_json a is fs = Some (rs, fs') \<and> job_runs wenv fs' (qa_job_dir a) job out \<and>
     list_all2 (\<lambda>i r. checked_report env wenv a job out (i + 1) r) is rs"
  using assms(2,8)
proof (induction "is" arbitrary: fs)
  case (Cons i "is")
  let ?idf = "if qa_identities a then Some (identity_file (i + 1)) else None"
  have n: "i + 1 \<in> {1, 2, 3}" using Cons.prems(2) by auto
  then have w: "result_file (we_sys wenv) (spawned_id (i + 1)) \<in> run_files (we_sys wenv)"
    and p: "\<forall>p. ?idf = Some p \<longrightarrow> p \<in> run_files (we_sys wenv) \<and> plain_arg p"
    by (auto simp: run_files_def plain_arg_def identity_file_def simp del: One_nat_def)
  have "plain_arg (spawned_id (i + 1))" by (simp add: plain_arg_def spawned_id_def)
  from run_worker_ok [OF assms(1) Cons.prems(1) assms(3-5) w p assms(6) this, of "qa_corrupt a \<and> i = 1"]
  obtain r fs1 where r: "run_worker (e_sys env) sp from_json (qa_worker a) (qa_job_dir a) (spawned_id (i + 1))
      (run_flags (qa_corrupt a \<and> i = 1) ?idf) fs = Some (r, fs1)" "job_runs wenv fs1 (qa_job_dir a) job out"
    "reports job out (spawned_id (i + 1)) (qa_corrupt a \<and> i = 1) r" "?idf \<noteq> None \<Longrightarrow> signed_hash wenv r"
    by blast
  have x: "run_flags (qa_corrupt a \<and> i = 1) ?idf = spawn_extra a i"
    using assms(7) by (simp add: run_flags_def spawn_extra_def identity_file_def)
  have c: "checked_report env wenv a job out (i + 1) (checked_result env a r)"
    using r(3,4) unfolding checked_report_def by (intro exI [of _ r]) (auto split: if_splits)
  obtain rs fs' where "first_round env sp from_json a is fs1 = Some (rs, fs')" "job_runs wenv fs' (qa_job_dir a) job out"
    "list_all2 (\<lambda>i r. checked_report env wenv a job out (i + 1) r) is rs"
    using Cons.IH [OF r(2)] Cons.prems(2) by auto
  then show ?case using r(1) c by (simp add: x del: One_nat_def)
qed simp

lemma three_reports:
  assumes "local_fleet env wenv to_json from_json sp (qa_worker a)" and "job_runs wenv fs (qa_job_dir a) job out"
    and "\<forall>x. length (we_blake3 wenv x) = 32" and "writable (sys_os (we_sys wenv)) (run_files (we_sys wenv))"
    and "run_files (we_sys wenv) \<inter> job_files (qa_job_dir a) job = {}" and "plain_arg (qa_job_dir a)"
    and "\<not> qa_snapshots a"
  obtains r1 r2 r3 fs' where "first_round env sp from_json a [0, 1, 2] fs = Some ([r1, r2, r3], fs')"
    and "checked_report env wenv a job out 1 r1" and "checked_report env wenv a job out 2 r2"
    and "checked_report env wenv a job out 3 r3"
proof -
  obtain rs fs' where f: "first_round env sp from_json a [0, 1, 2] fs = Some (rs, fs')"
    and l: "list_all2 (\<lambda>i r. checked_report env wenv a job out (i + 1) r) [0, 1, 2] rs"
    using first_round_ok [OF assms, of "[0, 1, 2]"] by auto
  from l obtain r1 r2 r3 where "rs = [r1, r2, r3]" "checked_report env wenv a job out 1 r1"
    "checked_report env wenv a job out 2 r2" "checked_report env wenv a job out 3 r3"
    by (auto simp: list_all2_Cons1 numeral_eq_Suc)
  then show ?thesis using f by (intro that) simp_all
qed

lemma spawned_ids: "spawned_id 1 = ''w1''" "spawned_id 2 = ''w2''" "spawned_id 3 = ''w3''"
  by (simp_all add: spawned_id_def dec_nat.simps char_of_eq_iff)

section \<open>Decisions of three reports\<close>

lemma decide_three_halted:
  assumes "worker_id r1 = ''w1''" and "worker_id r2 = ''w2''" and "worker_id r3 = ''w3''"
    and "wr_status r1 = ''halted''" and "wr_status r2 = ''halted''" and "wr_status r3 = ''halted''"
    and "result_hash r1 = result_hash r3" and "wr_chunk_hashes r1 = wr_chunk_hashes r3"
    and "result_hash r2 = result_hash r1 \<longrightarrow> wr_chunk_hashes r2 = wr_chunk_hashes r1"
  shows "decide [r1, r2, r3] 3 =
     Accept (result_hash r1) (output_hex r1) (if result_hash r2 = result_hash r1 then [''w1'', ''w2'', ''w3''] else [''w1'', ''w3'']) False"
  using assms by (auto simp: decide_def threshold_def decide_halted_def group_by_def Let_def)

lemma decide_three_failed:
  assumes "worker_id r1 = ''w1''" and "worker_id r2 = ''w2''" and "worker_id r3 = ''w3''"
    and "wr_status r1 \<noteq> ''halted''" and "wr_status r2 \<noteq> ''halted''" and "wr_status r3 \<noteq> ''halted''"
  shows "decide [r1, r2, r3] 3 = Reject reject_trapped"
  using assms by (simp add: decide_def threshold_def Let_def)

lemma run_rounds_three:
  assumes "first_round env sp from_json a [0, 1, 2] (if qa_identities a then mkdir_or_keep (e_sys env) fs ''identities'' else fs) =
      Some ([r1, r2, r3], fs')" and "decide [r1, r2, r3] 3 \<noteq> Escalate"
  shows "run_rounds env sp from_json a fs = Some ([r1, r2, r3], decide [r1, r2, r3] 3, fs')"
  using assms by (simp add: run_rounds_def pool_size_def)

lemma coordinator_run_plain:
  assumes "run_rounds env sp from_json a fs = Some (pool, d, fs')" and "qa_ledger a = None" and "qa_out a = None"
    and "\<forall>r \<in> set pool. \<exists>h. length h = 32 \<and> result_hash r = to_hex h" and "\<forall>h v g z. d = Accept h v g z \<longrightarrow> (\<exists>x. length x = 32 \<and> h = to_hex x)"
  shows "coordinator_run env sp from_json summary a fs =
     Some (if fst (run_deltas d pool) = ''reject'' then 1 else 0,
           summary (wr_job_id (pool ! 0)) (fst (run_deltas d pool)) (snd (run_deltas d pool)), fs')"
proof -
  have p: "prefix_ok (to_hex h) 16" if "length h = 32" for h using that by (simp add: prefix_ok_def to_hex_boundary)
  have "\<not> report_panics d" using assms(5) p by (auto simp: report_panics_def split: decision.split)
  moreover have "list_all (\<lambda>r. prefix_ok (result_hash r) (min 16 (length (result_hash r)))) pool"
    unfolding list_all_iff
  proof
    fix r assume "r \<in> set pool"
    then obtain h where "length h = 32" "result_hash r = to_hex h" using assms(4) by blast
    then show "prefix_ok (result_hash r) (min 16 (length (result_hash r)))" using p [of h] by simp
  qed
  ultimately show ?thesis using assms(1-3) by (simp add: coordinator_run_def case_prod_unfold Let_def)
qed

lemma reports_hash:
  assumes "reports job out w corrupt r" and "\<forall>d \<in> set (chunk_hashes out). length d = 32"
  shows "\<exists>h. length h = 32 \<and> result_hash r = to_hex h"
  using reported_hash [OF assms(2), of corrupt] assms(1) unfolding reports_def by (metis snd_conv)

lemma reports_honest:
  assumes "reports job out w False r"
  shows "result_hash r = to_hex (final_hash (chunk_hashes out))" and "wr_chunk_hashes r = map to_hex (chunk_hashes out)"
  using assms by (auto simp: reports_def reported_chain_honest)

text \<open>The second worker's report equals the first one's exactly when it is not corrupted.\<close>

lemma reports_second:
  assumes "reports job out w1 False r1" and "reports job out w2 corrupt r2" and "\<forall>d \<in> set (chunk_hashes out). length d = 32"
    and "corrupt \<longrightarrow> chunk_hashes out \<noteq> []"
  shows "result_hash r2 = result_hash r1 \<longleftrightarrow> \<not> corrupt" and "\<not> corrupt \<Longrightarrow> wr_chunk_hashes r2 = wr_chunk_hashes r1"
proof -
  let ?ch = "chunk_hashes out"
  show "\<not> corrupt \<Longrightarrow> wr_chunk_hashes r2 = wr_chunk_hashes r1" using reports_honest [OF assms(1)] assms(2) reports_honest by simp
  show "result_hash r2 = result_hash r1 \<longleftrightarrow> \<not> corrupt"
  proof (cases corrupt)
    case True
    then obtain d' where "d' \<noteq> last ?ch" "reported_chain True ?ch = (map to_hex (butlast ?ch @ [d']), to_hex d')"
      using reported_chain_corrupt [OF _ assms(3)] assms(4) by metis
    then show ?thesis using assms(2,4) reports_honest [OF assms(1)] True by (simp add: reports_def to_hex_inject final_hash_def)
  next
    case False
    then show ?thesis using reports_honest [OF assms(1)] assms(2) reports_honest(1) by simp
  qed
qed

lemma job_runs_hashes:
  assumes "job_runs wenv fs dir job out" and "\<forall>x. length (we_blake3 wenv x) = 32"
  shows "\<forall>d \<in> set (chunk_hashes out). length d = 32"
proof -
  obtain img m rs where "parse (job_elf job) = Some (Inr img)" "load mem_new img = (Inr (), m)"
    "run (we_blake3 wenv) m (elf_entry img) (job_input job)
       (judge_config (jm_chunk_size (job_manifest job)) (jm_max_instructions (job_manifest job))) = RunDone (out, rs)"
    using assms(1) unfolding job_runs_def by blast
  then have "replay (we_blake3 wenv) (job_elf job) (elf_entry img) (job_input job) (jm_chunk_size (job_manifest job))
      (jm_max_instructions (job_manifest job)) = Ret (Some out)"
    by (simp add: replay_def)
  then show ?thesis using replay_hash_lengths assms(2) by blast
qed

section \<open>Properties\<close>


text \<open>
  A signature over the 32 raw bytes of a result hash does not verify for the signing message of a
  result with that hash: the two messages differ.
\<close>

definition no_cross_signing :: "('fs, 'e, 'sk, 'x, 'k, 'p) wenv \<Rightarrow> ('vk \<Rightarrow> bytes \<Rightarrow> bytes \<Rightarrow> bool) \<Rightarrow> bool" where
  "no_cross_signing wenv vk_verify \<longleftrightarrow>
     (\<forall>k vk msg r. length msg = 32 \<and> result_hash r = to_hex msg \<longrightarrow> \<not> vk_verify vk (signing_message r) (we_sign wenv k msg))"

lemma signed_hash_fails:
  assumes "no_cross_signing wenv vk_verify" and "signed_hash wenv r" and "length h = 32" and "result_hash r = to_hex h"
    and "\<forall>k m. length (we_sign wenv k m) = 64"
  shows "verify_signature vk_from_bytes vk_verify r \<noteq> Inr ()"
proof -
  obtain k where k: "pubkey_hex r = Some (to_hex (we_public wenv k))" "sig_hex r = Some (to_hex (we_sign wenv k h))"
    using assms(2,4) by (auto simp: signed_hash_def unhex_to_hex)
  have "\<not> vk_verify vk (signing_message r) (we_sign wenv k h)" for vk
    using assms(1,3,4) unfolding no_cross_signing_def by blast
  moreover have "from_hex (to_hex (we_sign wenv k h)) 64 = Inr (we_sign wenv k h)"
    using from_hex_to_hex [of "we_sign wenv k h"] assms(5) by simp
  ultimately show ?thesis using k by (auto simp: verify_signature_def split: sum.splits option.splits)
qed


lemma first_divergence_last:
  assumes "chain \<noteq> []" and "d' \<noteq> last chain"
  shows "first_divergence chain (butlast chain @ [d']) = Some (length chain - 1)"
proof -
  let ?b = "butlast chain @ [d']"
  have l: "length ?b = length chain" using assms(1) by simp
  have ne: "chain \<noteq> ?b" using assms by (metis last_snoc)
  obtain k where k: "first_divergence chain ?b = Some k"
    using ne first_divergence_None [of chain ?b] by (cases "first_divergence chain ?b") auto
  have same: "lget chain i = lget ?b i" if "i < length chain - 1" for i
    using that l by (simp add: lget_def nth_append nth_butlast)
  have "\<not> k < length chain - 1" using same first_divergence_SomeD(4) [OF k] by blast
  moreover have "k < length chain"
    using first_divergence_SomeD(4) [OF k] l by (cases "k < length chain") (simp_all add: lget_def)
  ultimately show ?thesis using k by simp
qed

text \<open>
  C13: An honest result survives optimistic acceptance. Without a challenge the command accepts the
  final hash of the job's real run; against the corrupted challenger the dispute is decided for the
  prover, and the recorded verdict names the last chunk, the one the challenger falsified.
\<close>

theorem honest_prover_survives_challenge:
  assumes "local_fleet env wenv to_json from_json sp (oa_worker a)" and "job_runs wenv fs (oa_job_dir a) job out"
    and "\<forall>x. length (we_blake3 wenv x) = 32"
    and "writable (sys_os (we_sys wenv)) {result_file (we_sys wenv) ''prover'', result_file (we_sys wenv) ''challenger''}"
    and "{result_file (we_sys wenv) ''prover'', result_file (we_sys wenv) ''challenger''} \<inter> job_files (oa_job_dir a) job = {}"
    and "plain_arg (oa_job_dir a)" and "chunk_hashes out \<noteq> []"
  shows "cmd_optimistic env sp from_json a fs =
     Ret (if oa_challenge a then Disputed (debug_verdict (ClaimHonest (length (chunk_hashes out) - 1)))
          else Accepted (to_hex (last (chunk_hashes out))))"
proof -
  let ?ch = "chunk_hashes out" and ?os = "sys_os (we_sys wenv)" and ?man = "job_manifest job"
  have c: "\<forall>d \<in> set ?ch. length d = 32" using job_runs_hashes [OF assms(2,3)] .
  have e: "e_sys env = we_sys wenv" "e_blake3 env = we_blake3 wenv" "e_manifest_json env = we_manifest_json wenv"
    using assms(1) by (simp_all add: local_fleet_def)
  have a: "plain_arg ''prover''" "plain_arg ''challenger''" by (simp_all add: plain_arg_def)
  from run_worker_ok [OF assms(1-5) _ _ assms(6) a(1), of None False]
  obtain r fs1 where r: "run_worker (e_sys env) sp from_json (oa_worker a) (oa_job_dir a) ''prover'' [] fs = Some (r, fs1)"
    "job_runs wenv fs1 (oa_job_dir a) job out" "reports job out ''prover'' False r"
    by (auto simp: run_flags_def)
  from run_worker_ok [OF assms(1) r(2) assms(3-5) _ _ assms(6) a(2), of None True]
  obtain q fs2 where q: "run_worker (e_sys env) sp from_json (oa_worker a) (oa_job_dir a) ''challenger'' [''--corrupt''] fs1 = Some (q, fs2)"
    "job_runs wenv fs2 (oa_job_dir a) job out" "reports job out ''challenger'' True q"
    by (auto simp: run_flags_def)
  obtain d' where d': "length d' = 32" "d' \<noteq> last ?ch" "reported_chain True ?ch = (map to_hex (butlast ?ch @ [d']), to_hex d')"
    using reported_chain_corrupt [OF assms(7) c] .
  have cq: "\<forall>d \<in> set (butlast ?ch @ [d']). length d = 32" using c d'(1) by (auto dest: in_set_butlastD)
  have ch: "decode_chain (wr_chunk_hashes r) = Some (Inr ?ch)" "decode_chain (wr_chunk_hashes q) = Some (Inr (butlast ?ch @ [d']))"
    using decode_chain_to_hex [of ?ch] decode_chain_to_hex [of "butlast ?ch @ [d']"] c cq r(3) q(3) d'(3)
    by (simp_all add: reports_def reported_chain_honest del: map_append)
  obtain img m rs where j: "load_dir ?os (we_manifest_json wenv) fs (oa_job_dir a) = Inr job" "parse (job_elf job) = Some (Inr img)"
    "load mem_new img = (Inr (), m)"
    "run (we_blake3 wenv) m (elf_entry img) (job_input job) (judge_config (jm_chunk_size ?man) (jm_max_instructions ?man)) = RunDone (out, rs)"
    using assms(2) unfolding job_runs_def by blast
  have v: "dispute_of env job r q None fs2 = Ret (ClaimHonest (length ?ch - 1))"
  proof -
    have "lget ?ch (length ?ch - 1) = Some (last ?ch)" "lget (butlast ?ch @ [d']) (length ?ch - 1) = Some d'"
      using assms(7) by (simp_all add: lget_def last_conv_nth nth_append)
    moreover have "?ch \<noteq> butlast ?ch @ [d']" using d'(2) by (metis last_snoc)
    ultimately show ?thesis
      using d'(2) first_divergence_last [OF assms(7) d'(2)]
      by (simp add: dispute_of_def j(2) e resolve_def ch judge_truth_def judge_by_replay_def replay_def j(3,4) verdict_with_truth_def)
  qed
  have h: "result_hash r = to_hex (last ?ch)" using r(3) assms(7) by (simp add: reports_def reported_chain_honest final_hash_def)
  have "prefix_ok (to_hex (last ?ch)) 16" using c assms(7) by (simp add: prefix_ok_def to_hex_boundary)
  then show ?thesis
    using c assms(7) by (simp add: cmd_optimistic_def e j(1) r(1) [unfolded e] q(1) [unfolded e] v transition_def expire_def h)
qed

text \<open>
  C28: What the publish command stores, the fetch command brings back: the descriptor read from the
  file is the one that was written, and the directory it is materialised into holds the same job,
  or a published file and the blob the store holds for it are an explicit BLAKE3 collision.
\<close>

theorem publish_then_fetch:
  assumes "os_ok (sys_os (e_sys env))" and "\<forall>bs. length (e_blake3 env bs) = 32"
    and "\<forall>d bs. e_desc_to_json env d = Some bs \<longrightarrow> e_desc_from_json env bs = Some d"
    and "load_dir (sys_os (e_sys env)) (e_manifest_json env) fs dir = Inr j"
    and "jm_elf (job_manifest j) \<noteq> ''job.json''" "jm_input (job_manifest j) \<noteq> ''job.json''"
      "jm_elf (job_manifest j) \<noteq> jm_input (job_manifest j)"
    and "cmd_publish env dir store path fs = Some (desc, cid, fs1)"
    and "cmd_fetch env path store outp fs1 = Some (desc', fs2)"
  shows "desc' = desc \<and>
     (load_dir (sys_os (e_sys env)) (e_manifest_json env) fs2 outp = Inr (j\<lparr>job_dir := outp\<rparr>) \<or>
      (\<exists>a b. collision (e_blake3 env) a b \<and>
         get_hex (sys_os (e_sys env)) (e_blake3 env) store fs1 (to_hex (e_blake3 env a)) = Inr b \<and>
         (os_read (sys_os (e_sys env)) fs (join dir ''job.json'') = Inr a \<or> a = job_elf j \<or> a = job_input j)))"
proof -
  let ?os = "sys_os (e_sys env)"
  obtain f0 fp bs where p: "store_open ?os fs store = Inr f0" "publish ?os (e_blake3 env) (e_manifest_json env) store f0 dir = Inr (desc, fp)"
    "e_desc_to_json env desc = Some bs" "os_write ?os fp path bs = Inr fs1"
    using assms(8) by (auto simp: cmd_publish_def Let_def split: sum.splits option.splits)
  obtain fm bs' where m: "store_open ?os fs1 store = Inr fm" "os_read ?os fm path = Inr bs'" "e_desc_from_json env bs' = Some desc'"
    "materialize ?os (e_blake3 env) (e_manifest_json env) store fm desc' outp = Inr fs2"
    using assms(9) by (auto simp: cmd_fetch_def Let_def split: sum.splits option.splits)
  have o: "os_read ?os f0 q = os_read ?os fs q" "os_read ?os fm q = os_read ?os fs1 q" for q
    using os_okD(3) [OF assms(1)] p(1) m(1) by (auto simp: store_open_def split: sum.splits)
  have "bs' = bs" using m(2) o(2) os_okD(1) [OF assms(1) p(4)] by simp
  then have d: "desc' = desc" using assms(3) p(3) m(3) by force
  have "load_dir ?os (e_manifest_json env) f0 dir = Inr j" by (rule load_dir_frame [OF assms(4)]) (rule o)
  moreover have "get_hex ?os (e_blake3 env) store fm h = get_hex ?os (e_blake3 env) store fs1 h" for h
    by (simp add: get_hex_def store_get_def o(2) split: option.split sum.split)
  ultimately show ?thesis
    using publish_materialize_load [OF assms(1,2) _ assms(5-7) p(2) m(4) [unfolded d]] d o(1) by simp
qed

section \<open>Witnesses\<close>

lemma run_loop_limit_chain:
  "run_loop blake3 cfg st = RunDone (InstructionLimit, fin) \<Longrightarrow> rs_chain fin \<noteq> []"
proof (induction blake3 cfg st rule: run_loop.induct)
  case (1 blake3 cfg st)
  show ?case
  proof (cases "run_iter blake3 cfg st")
    case (Continue s)
    then show ?thesis using 1(1) [OF Continue] 1(2) run_loop.simps [of blake3 cfg st] by simp
  next
    case (Break e s)
    then have "run_iter blake3 cfg st = Break InstructionLimit fin" using 1(2) run_loop.simps [of blake3 cfg st] by simp
    then show ?thesis
      by (auto simp: run_iter_def run_dispatch_def Let_def split: if_splits prod.splits step_res.splits)
  next
    case Panicked
    then show ?thesis using 1(2) run_loop.simps [of blake3 cfg st] by simp
  qed
qed

lemma limit_run_chain:
  assumes "run blake3 m entry input cfg = RunDone (out, rs)" and "mem_ok m" and "status out = InstructionLimit"
  shows "chunk_hashes out \<noteq> []"
proof -
  obtain m0 e where l: "run_loop blake3 cfg (run_start (cpu_new entry STACK_TOP) m0) = RunDone (e, rs)"
    and o: "out = finish_run e rs" using run_cases [OF assms(1,2)] .
  have "e = InstructionLimit" using assms(3) unfolding o by (auto simp: finish_run_def Let_def case_prod_unfold split: if_splits)
  then show ?thesis using run_loop_limit_chain l unfolding o by (auto simp: finish_run_def)
qed

lemma limit_runs:
  obtains out where "job_runs limit_wenv (limit_dir (job_dir limit_job)) (job_dir limit_job) limit_job out"
    and "chunk_hashes out \<noteq> []" and "status out = InstructionLimit"
proof -
  obtain m out rs where r: "load mem_new demo_image = (Inr (), m)"
    "run pad32 m (elf_entry demo_image) [] (judge_config 1 0) = RunDone (out, rs)" "status out = InstructionLimit"
    using demo_limit_run by metis
  have "mem_ok m" using load_segments_mem_ok [OF mem_ok_new, of "segments demo_image"] r(1) by (simp add: load_def)
  then have "chunk_hashes out \<noteq> []" using limit_run_chain [OF r(2) _ r(3)] by blast
  moreover have "job_elf limit_job = demo_elf" "job_input limit_job = []" "job_manifest limit_job = limit_manifest"
    by (simp_all add: limit_job_def)
  ultimately show ?thesis
    using r limit_load by (intro that [of out]) (simp_all add: job_runs_def limit_simps limit_manifest_simps demo_elf_parses)
qed

text \<open>An invertible encoding of results, and the worker of the witnesses as a spawned program.\<close>

definition result_key ::
    "worker_result \<Rightarrow> string \<times> string \<times> string \<times> u64 \<times> string \<times> string list \<times> string option \<times> string option \<times> string option \<times> string option" where
  "result_key r = (worker_id r, wr_job_id r, wr_status r, wr_instructions r, result_hash r, wr_chunk_hashes r, output_hex r,
     wr_trap r, pubkey_hex r, sig_hex r)"

definition demo_json :: "worker_result \<Rightarrow> bytes" where
  "demo_json r = replicate (to_nat (result_key r)) 0"

definition demo_parse_json :: "bytes \<Rightarrow> worker_result option" where
  "demo_parse_json bs =
     (case from_nat (length bs) of (w, j, s, n, h, c, v, t, p, g) \<Rightarrow>
        Some \<lparr>worker_id = w, wr_job_id = j, wr_status = s, wr_instructions = n, result_hash = h, wr_chunk_hashes = c,
              output_hex = v, wr_trap = t, pubkey_hex = p, sig_hex = g\<rparr>)"

lemma demo_json_parses: "demo_parse_json (demo_json r) = Some r"
  by (simp add: demo_parse_json_def demo_json_def result_key_def)

fun demo_program :: "(string \<rightharpoonup> bytes) program" where
  "demo_program worker (c # dir # a # outp # i # w # extra) fs =
     (let corrupt = (extra \<noteq> [] \<and> hd extra = ''--corrupt'');
          rest = (if corrupt then tl extra else extra);
          identity = (case rest of [_, p] \<Rightarrow> Some p | _ \<Rightarrow> None)
      in (case cmd_run limit_wenv demo_json (parsed_args dir outp w corrupt identity) fs of
            RanResult _ fs' \<Rightarrow> Some (True, fs')
          | _ \<Rightarrow> Some (False, fs)))"
| "demo_program worker _ fs = None"

lemma demo_fleet:
  assumes "e_sys env = demo_sys" and "e_blake3 env = pad32" and "e_manifest_json env = (\<lambda>_. Some limit_manifest)"
  shows "local_fleet env limit_wenv demo_json demo_parse_json demo_program ''worker''"
proof -
  have "demo_program ''worker'' (worker_args dir outp w (run_flags corrupt identity)) fs = Some (True, fs')"
    if "cmd_run limit_wenv demo_json (parsed_args dir outp w corrupt identity) fs = RanResult r fs'" for dir outp w corrupt identity fs r fs'
    using that by (cases identity) (auto simp: worker_args_def run_flags_def)
  then have "worker_program limit_wenv demo_json demo_program ''worker''" unfolding worker_program_def by blast
  moreover have "plain_arg (temp_dir demo_sys)" by (simp add: plain_arg_def demo_sys_simps)
  ultimately show ?thesis using assms by (simp add: local_fleet_def limit_simps disk_ok demo_json_parses)
qed

lemma demo_free:
  "writable disk W" "run_files demo_sys \<inter> job_files (job_dir limit_job) limit_job = {}"
  "{result_file demo_sys ''prover'', result_file demo_sys ''challenger''} \<inter> job_files (job_dir limit_job) limit_job = {}"
  "plain_arg (job_dir limit_job)"
  by (auto simp: writable_def disk_def run_files_def job_files_def result_file_def identity_file_def join_def limit_job_def
      demo_sys_simps spawned_ids limit_manifest_simps plain_arg_def simp del: One_nat_def)

definition demo_quorum :: "bool \<Rightarrow> quorum_args" where
  "demo_quorum idn = \<lparr>qa_job_dir = job_dir limit_job, qa_worker = ''worker'', qa_out = None, qa_corrupt = True, qa_ledger = None,
     qa_snapshots = False, qa_identities = idn\<rparr>"



theorem honest_prover_survives_challenge_witness:
  "\<exists>n. cmd_optimistic limit_env demo_program demo_parse_json
       \<lparr>oa_job_dir = job_dir limit_job, oa_worker = ''worker'', oa_challenge = True\<rparr> (limit_dir (job_dir limit_job)) =
     Ret (Disputed (debug_verdict (ClaimHonest n)))"
proof -
  let ?a = "\<lparr>oa_job_dir = job_dir limit_job, oa_worker = ''worker'', oa_challenge = True\<rparr>"
  obtain out where r: "job_runs limit_wenv (limit_dir (job_dir limit_job)) (job_dir limit_job) limit_job out"
    "chunk_hashes out \<noteq> []" using limit_runs .
  have f: "local_fleet limit_env limit_wenv demo_json demo_parse_json demo_program ''worker''"
    by (rule demo_fleet) (simp_all add: limit_env_simps)
  show ?thesis
    using honest_prover_survives_challenge [of limit_env limit_wenv demo_json demo_parse_json demo_program ?a
        "limit_dir (job_dir limit_job)" limit_job out] r f demo_free pad32_demo(4) by (auto simp: limit_simps)
qed

definition publish_env :: "(string \<rightharpoonup> bytes, unit, unit) env" where
  "publish_env = limit_env\<lparr>e_manifest_json := (\<lambda>_. Some demo_manifest),
     e_desc_to_json := (\<lambda>d. if d = demo_desc then Some [9] else None), e_desc_from_json := (\<lambda>_. Some demo_desc)\<rparr>"

lemma publish_env_simps:
  "sys_os (e_sys publish_env) = disk" "e_blake3 publish_env = pad32" "e_manifest_json publish_env = (\<lambda>_. Some demo_manifest)"
  "e_desc_to_json publish_env = (\<lambda>d. if d = demo_desc then Some [9] else None)"
  "e_desc_from_json publish_env = (\<lambda>_. Some demo_desc)"
  by (simp_all add: publish_env_def limit_env_simps demo_sys_simps)

lemma demo_cmds:
  obtains fs2 where "cmd_publish publish_env ''d'' ''s'' ''desc'' demo_fs = Some (demo_desc, pad32 [9], demo_store(''desc'' \<mapsto> [9]))"
    and "cmd_fetch publish_env ''desc'' ''s'' ''o'' (demo_store(''desc'' \<mapsto> [9])) = Some (demo_desc, fs2)"
proof -
  let ?fs = "demo_store(''desc'' \<mapsto> [9])"
  have o: "store_open disk fs r = Inr fs" for fs r by (simp add: store_open_def disk_def)
  have "blob_path ''s'' c \<noteq> ''desc''" for c by (simp add: blob_path_def blob_dir_def join_def)
  then have g: "get_hex disk pad32 ''s'' ?fs h = get_hex disk pad32 ''s'' demo_store h" for h
    by (simp add: get_hex_def store_get_def disk_def split: option.split sum.split)
  have w: "os_write disk fs p bs = Inr (fs(p \<mapsto> bs))" "os_read disk ?fs ''desc'' = Inr [9]" for fs p bs by (simp_all add: disk_def)
  have "\<exists>fs2. materialize disk pad32 (\<lambda>_. Some demo_manifest) ''s'' ?fs demo_desc ''o'' = Inr fs2"
    by (simp add: materialize_def demo_desc_def g demo_get demo_manifest_def demo_names) (simp add: disk_def)
  then obtain fs2 where m: "materialize disk pad32 (\<lambda>_. Some demo_manifest) ''s'' ?fs demo_desc ''o'' = Inr fs2" by blast
  show ?thesis
    by (rule that [of fs2])
      (simp_all add: cmd_publish_def cmd_fetch_def publish_env_simps o demo_publish w m descriptor_id_def from_data_def)
qed

theorem publish_then_fetch_witness:
  "\<exists>fs2. cmd_publish publish_env ''d'' ''s'' ''desc'' demo_fs = Some (demo_desc, pad32 [9], demo_store(''desc'' \<mapsto> [9])) \<and>
     cmd_fetch publish_env ''desc'' ''s'' ''o'' (demo_store(''desc'' \<mapsto> [9])) = Some (demo_desc, fs2) \<and>
     load_dir disk (\<lambda>_. Some demo_manifest) fs2 ''o'' =
       Inr \<lparr>job_manifest = demo_manifest, job_dir = ''o'', job_elf = [1], job_input = [2]\<rparr>"
proof -
  let ?fs = "demo_store(''desc'' \<mapsto> [9])"
  obtain fs2 where c: "cmd_publish publish_env ''d'' ''s'' ''desc'' demo_fs = Some (demo_desc, pad32 [9], ?fs)"
    "cmd_fetch publish_env ''desc'' ''s'' ''o'' ?fs = Some (demo_desc, fs2)" using demo_cmds .
  have "blob_path ''s'' c \<noteq> ''desc''" for c by (simp add: blob_path_def blob_dir_def join_def)
  then have g: "get_hex disk pad32 ''s'' ?fs h = get_hex disk pad32 ''s'' demo_store h" for h
    by (simp add: get_hex_def store_get_def disk_def split: option.split sum.split)
  have r: "os_read disk demo_fs (join ''d'' ''job.json'') = Inr [7]" by (simp add: disk_def demo_fs_def)
  have n: "\<not> (collision pad32 a b \<and> get_hex disk pad32 ''s'' ?fs (to_hex (pad32 a)) = Inr b \<and>
      (os_read disk demo_fs (join ''d'' ''job.json'') = Inr a \<or> a = [1] \<or> a = [2]))" for a b
    using demo_get [of a] by (auto simp: collision_def g r)
  have "jm_elf demo_manifest \<noteq> ''job.json''" "jm_input demo_manifest \<noteq> ''job.json''"
    "jm_elf demo_manifest \<noteq> jm_input demo_manifest" by (simp_all add: demo_manifest_def)
  then show ?thesis
    using publish_then_fetch [OF _ _ _ _ _ _ _ c, unfolded publish_env_simps, OF disk_ok _ _ demo_load] n c pad32_demo(4) by simp
qed

end
