(* ===== verification/Server.thy ===== *)
theory Server
  imports Netjob
begin

text \<open>
  The network coordinator as a whole (\<open>serve\<close> of \<open>crates/coordinator/src/net.rs\<close>): the dispatch of
  events, one round of the main loop, the session threads and the proving worker, and the states
  they can reach in any interleaving. Main results: in every reachable state the votes of the
  pending job come from distinct dispatched workers, each validly signed for that job, and every
  limit on claims and uploads holds; an acceptance is justified by a majority, a replay or a
  receipt; and, against the stated intent, one admitted connection can cast the vote of any
  dispatched worker.
\<close>

section \<open>Events and rounds\<close>

text \<open>\<open>None\<close> is a panic of the main thread. \<open>nonce\<close> is what \<open>rand_nonce\<close> draws.\<close>

definition handle_event ::
    "serve_config \<Rightarrow> ('fs, 'e, 'vk) env \<Rightarrow> nat \<Rightarrow> bytes \<Rightarrow> event \<Rightarrow> 'fs server \<Rightarrow> 'fs server option" where
  "handle_event cfg env now nonce ev s =
     (case ev of
        EvHello k pubkey wid port role \<Rightarrow>
          Some (s\<lparr>s_conns := handle_hello cfg nonce k pubkey wid port role (s_conns s)\<rparr>)
      | EvNonceSig k sig pow_counter \<Rightarrow> Some (handle_nonce_sig cfg env k sig pow_counter s)
      | EvBlobRequest k hex \<Rightarrow> handle_blob_request cfg env k hex s
      | EvResult k r \<Rightarrow> handle_result cfg env k r s
      | EvBlobUpload k id_hex bytes_hex \<Rightarrow> Some (handle_blob_upload cfg env k id_hex bytes_hex s)
      | EvJobSubmission k submitter desc pubkey sig require_zk \<Rightarrow>
          handle_job_submission cfg env now k desc pubkey sig require_zk s
      | EvReceiptClaim k wid job_id pubkey sig receipt_hex \<Rightarrow>
          handle_claim_event cfg env k wid job_id pubkey sig receipt_hex s
      | EvProved job d \<Rightarrow>
          (let s = finish_decided_job cfg env job d s
           in Some (s\<lparr>s_conns := broadcast_between_jobs (s_conns s)\<rparr>))
      | EvClosed k \<Rightarrow> Some (s\<lparr>s_conns := conn_remove k (s_conns s)\<rparr>))"

datatype ('fs, 'e) round_result =
    Next "'fs server"
  | Return "job_outcome list" conns
  | ServeError "'e scan_error"
  | ServePanic

definition of_step :: "'fs server option \<Rightarrow> ('fs, 'e) round_result" where
  "of_step r = (case r of None \<Rightarrow> ServePanic | Some s \<Rightarrow> Next s)"

definition serve_round ::
    "serve_config \<Rightarrow> ('fs, 'e, 'vk) env \<Rightarrow> nat \<Rightarrow> (nat \<Rightarrow> u64) \<Rightarrow> bytes \<Rightarrow> 'fs server \<Rightarrow> ('fs, 'e) round_result" where
  "serve_round cfg env now rng nonce s =
     (if (case cfg_max_jobs cfg of None \<Rightarrow> False | Some mx \<Rightarrow> s_jobs_done s \<ge> mx)
      then Return (s_outcomes s) (shutdown_all ''all queued jobs complete'' (s_conns s))
      else
        (case scan_step cfg env now s of
           Inl e \<Rightarrow> ServeError e
         | Inr s \<Rightarrow>
             (let s = dispatch_step cfg rng now s
              in (case complete_step cfg now s of
                    Escalated s \<Rightarrow> Next s
                  | Finished job \<Rightarrow> of_step (finish_pending cfg env job s)
                  | Unfinished \<Rightarrow>
                      (case s_events s of
                         [] \<Rightarrow> Next s
                       | ev # evs \<Rightarrow> of_step (handle_event cfg env now nonce ev (s\<lparr>s_events := evs\<rparr>)))))))"

section \<open>Sessions\<close>

definition session_event :: "nat \<Rightarrow> client_to_server \<Rightarrow> event" where
  "session_event k msg =
     (case msg of
        Hello pubkey wid port role \<Rightarrow> EvHello k pubkey wid port role
      | NonceSignature sig pow_counter \<Rightarrow> EvNonceSig k sig pow_counter
      | BlobRequest hex \<Rightarrow> EvBlobRequest k hex
      | JobResult r \<Rightarrow> EvResult k r
      | BlobUpload id_hex bytes_hex \<Rightarrow> EvBlobUpload k id_hex bytes_hex
      | JobSubmission submitter desc pubkey sig require_zk \<Rightarrow> EvJobSubmission k submitter desc pubkey sig require_zk
      | ReceiptClaim wid job_id pubkey sig receipt_hex \<Rightarrow> EvReceiptClaim k wid job_id pubkey sig receipt_hex)"

text \<open>
  One round of \<open>session_loop\<close> on what \<open>receive_polled\<close> returned. In an idle window the queued
  messages are sent until one fails (\<open>sent\<close> is how many succeed); a failure or a receive error
  closes the session.
\<close>

definition session_close :: "nat \<Rightarrow> 'fs server \<Rightarrow> 'fs server" where
  "session_close k s = s\<lparr>s_conns := conn_remove k (s_conns s), s_events := s_events s @ [EvClosed k]\<rparr>"

definition session_step ::
    "nat \<Rightarrow> 'e wire_error + client_to_server option \<Rightarrow> nat \<Rightarrow> 'fs server \<Rightarrow> 'fs server \<times> bool" where
  "session_step k received sent s =
     (case received of
        Inr (Some msg) \<Rightarrow> (s\<lparr>s_events := s_events s @ [session_event k msg]\<rparr>, True)
      | Inr None \<Rightarrow>
          (case map_of (s_conns s) k of
             None \<Rightarrow> (s, True)
           | Some c \<Rightarrow>
               if length (c_outbound c) \<le> sent
               then (s\<lparr>s_conns := conn_update k (\<lambda>c. c\<lparr>c_outbound := []\<rparr>) (s_conns s)\<rparr>, True)
               else (session_close k s, False))
      | Inl _ \<Rightarrow> (session_close k s, False))"

definition accept_conn :: "nat \<Rightarrow> string \<Rightarrow> 'fs server \<Rightarrow> 'fs server" where
  "accept_conn k peer_ip s = s\<lparr>s_conns := (k, new_conn k peer_ip) # conn_remove k (s_conns s)\<rparr>"

definition init_server :: "'fs \<Rightarrow> 'fs server" where
  "init_server fs =
     \<lparr>s_conns = [], s_pending = None, s_outcomes = [], s_jobs_done = 0, s_scan_errors = Map.empty,
      s_subs = Map.empty, s_events = [], s_queue = [], s_fs = fs, s_ctr = 0\<rparr>"

text \<open>
  The states the threads can reach together. Peers send what they like; the clock, the random
  numbers and the iteration order of the connection map are arbitrary; the file system may change
  between steps.
\<close>

inductive net_step ::
    "serve_config \<Rightarrow> ('fs, 'e, 'vk) env \<Rightarrow> 'fs server \<Rightarrow> 'fs server \<Rightarrow> bool"
  for cfg and env :: "('fs, 'e, 'vk) env" where
    accept: "k \<notin> fst ` set (s_conns s) \<Longrightarrow> net_step cfg env s (accept_conn k peer_ip s)"
  | session: "net_step cfg env s (fst (session_step k (received :: 'e wire_error + client_to_server option) sent s))"
  | reorder: "mset cs = mset (s_conns s) \<Longrightarrow> net_step cfg env s (s\<lparr>s_conns := cs\<rparr>)"
  | files: "net_step cfg env s (s\<lparr>s_fs := fs\<rparr>)"
  | prove: "cfg_zk_prover cfg = Some zk \<Longrightarrow> proving_step cfg env zk s = Some s' \<Longrightarrow> net_step cfg env s s'"
  | round: "serve_round cfg env now rng nonce s = Next s' \<Longrightarrow> net_step cfg env s s'"

inductive net_reach :: "serve_config \<Rightarrow> ('fs, 'e, 'vk) env \<Rightarrow> 'fs server \<Rightarrow> bool" for cfg env where
    start: "net_reach cfg env (init_server fs)"
  | step: "net_reach cfg env s \<Longrightarrow> net_step cfg env s s' \<Longrightarrow> net_reach cfg env s'"

inductive_cases net_stepE: "net_step cfg env s s'"

section \<open>Invariants of the server\<close>

text \<open>One round that goes on has run the phases up to an escalation, a finished job or an event.\<close>

lemma serve_round_Next:
  assumes "serve_round cfg env now rng nonce s = Next s'"
  obtains s1 where "scan_step cfg env now s = Inr s1"
    and "complete_step cfg now (dispatch_step cfg rng now s1) = Escalated s' \<or>
         (\<exists>job. complete_step cfg now (dispatch_step cfg rng now s1) = Finished job \<and>
            finish_pending cfg env job (dispatch_step cfg rng now s1) = Some s') \<or>
         s' = dispatch_step cfg rng now s1 \<or>
         (\<exists>ev evs. s_events (dispatch_step cfg rng now s1) = ev # evs \<and>
            handle_event cfg env now nonce ev (dispatch_step cfg rng now s1\<lparr>s_events := evs\<rparr>) = Some s')"
proof (cases "scan_step cfg env now s")
  case (Inr s1)
  show ?thesis
    by (rule that [OF Inr])
      (use assms Inr in \<open>auto simp: serve_round_def Let_def of_step_def split: if_splits completion.splits list.splits option.splits\<close>)
qed (use assms in \<open>auto simp: serve_round_def split: if_splits\<close>)

text \<open>
  What holds at the start and is kept by every thread, for the main loop by each phase of a round,
  holds in every reachable state.
\<close>

locale server_invariant =
  fixes cfg :: serve_config and env :: "('fs, 'e, 'vk) env" and I :: "'fs server \<Rightarrow> bool"
  assumes initial: "I (init_server fs)"
    and accepts: "I s \<Longrightarrow> k \<notin> fst ` set (s_conns s) \<Longrightarrow> I (accept_conn k peer_ip s)"
    and sessions: "I s \<Longrightarrow> I (fst (session_step k (received :: 'e wire_error + client_to_server option) sent s))"
    and reorders: "I s \<Longrightarrow> mset cs = mset (s_conns s) \<Longrightarrow> I (s\<lparr>s_conns := cs\<rparr>)"
    and frames: "I s \<Longrightarrow> I (s\<lparr>s_fs := fs\<rparr>)"
    and proves: "I s \<Longrightarrow> proving_step cfg env zk s = Some s' \<Longrightarrow> I s'"
    and scans: "I s \<Longrightarrow> scan_step cfg env now s = Inr s' \<Longrightarrow> I s'"
    and dispatches: "I s \<Longrightarrow> I (dispatch_step cfg rng now s)"
    and escalates: "I s \<Longrightarrow> complete_step cfg now s = Escalated s' \<Longrightarrow> I s'"
    and finishes: "I s \<Longrightarrow> complete_step cfg now s = Finished job \<Longrightarrow> finish_pending cfg env job s = Some s' \<Longrightarrow> I s'"
    and handles: "I s \<Longrightarrow> s_events s = ev # evs \<Longrightarrow>
      handle_event cfg env now nonce ev (s\<lparr>s_events := evs\<rparr>) = Some s' \<Longrightarrow> I s'"
begin

lemma round_keeps:
  assumes "I s" and "serve_round cfg env now rng nonce s = Next s'"
  shows "I s'"
  using assms(2)
proof (cases rule: serve_round_Next)
  case (1 s1)
  have "I (dispatch_step cfg rng now s1)" using assms(1) 1(1) by (blast intro: scans dispatches)
  then show ?thesis using 1(2) by (elim disjE exE conjE) (blast intro: escalates finishes handles)+
qed

lemma net_step_keeps: "net_step cfg env s s' \<Longrightarrow> I s \<Longrightarrow> I s'"
  by (erule net_stepE) (blast intro: accepts sessions reorders frames proves round_keeps)+

lemma reach_keeps: "net_reach cfg env s \<Longrightarrow> I s"
  by (induction rule: net_reach.induct) (auto intro: initial net_step_keeps)

end

lemma handle_event_pending_inv:
  assumes "handle_event cfg env now nonce ev s = Some s'" and "pending_inv cfg env s"
  shows "pending_inv cfg env s'"
proof (cases ev)
  case (EvHello k pubkey wid port role)
  then show ?thesis using assms by (auto simp: handle_event_def pending_inv_def handle_hello_inv)
next
  case (EvProved job d)
  then show ?thesis
    using assms finish_decided_job_inv [OF assms(2), of job d]
    by (auto simp: handle_event_def pending_inv_def broadcast_inv Let_def)
next
  case (EvClosed k)
  then show ?thesis using assms by (auto simp: handle_event_def pending_inv_def conns_inv_remove)
qed (use assms in \<open>auto simp: handle_event_def handle_nonce_sig_inv handle_blob_upload_inv
      intro: handle_blob_request_inv handle_result_inv handle_job_submission_inv handle_claim_event_inv\<close>)

lemma session_step_pending_inv: "pending_inv cfg env s \<Longrightarrow> pending_inv cfg env (fst (session_step k received sent s))"
  by (auto simp: session_step_def session_close_def pending_inv_def conn_inv_def
      split: sum.splits option.splits intro!: conns_inv_remove conns_inv_update)

lemma accept_conn_pending_inv: "pending_inv cfg env s \<Longrightarrow> pending_inv cfg env (accept_conn k peer_ip s)"
proof -
  assume i: "pending_inv cfg env s"
  have "k \<notin> fst ` set (conn_remove k (s_conns s))" by (auto simp: conn_remove_def)
  moreover have "conn_inv (new_conn k peer_ip)" by (simp add: conn_inv_def new_conn_def)
  ultimately show ?thesis
    using i conns_inv_remove [of "s_conns s" k] by (simp add: pending_inv_def accept_conn_def conns_inv_def)
qed

interpretation votes: server_invariant cfg env "pending_inv cfg env" for cfg env
proof (unfold_locales, goal_cases)
  case (1 fs)
  then show ?case by (simp add: pending_inv_def init_server_def conns_inv_def)
next
  case (2 s k peer_ip)
  then show ?case by (simp add: accept_conn_pending_inv)
next
  case (3 s k received sent)
  then show ?case by (rule session_step_pending_inv)
next
  case (4 s cs)
  then show ?case using conns_inv_perm [of cs "s_conns s"] by (simp add: pending_inv_def)
next
  case (5 s fs)
  then show ?case by (simp add: pending_inv_def)
next
  case (6 s zk s')
  then show ?case
    by (auto simp: proving_step_def pending_inv_def split: list.splits option.splits)
next
  case (7 s now s')
  then show ?case by (blast intro: scan_step_inv)
next
  case (8 s rng now)
  then show ?case by (rule dispatch_step_inv)
next
  case (9 s now s')
  then show ?case by (blast intro: complete_step_Escalated_inv)
next
  case (10 s now job s')
  then show ?case by (blast intro: finish_pending_inv)
next
  case (11 s ev evs now nonce s')
  have "pending_inv cfg env (s\<lparr>s_events := evs\<rparr>)" using 11(1) by (simp add: pending_inv_def)
  then show ?case using handle_event_pending_inv 11(3) by blast
qed

section \<open>The record of finished jobs\<close>

definition outcome_inv :: "('fs, 'e, 'vk) env \<Rightarrow> job_outcome \<Rightarrow> bool" where
  "outcome_inv env oc \<longleftrightarrow>
     signed_for env (jo_job_id oc) (jo_results oc) \<and> jo_bond_deltas oc = slashing (jo_decision oc) (jo_results oc)"

fun proved_results :: "event \<Rightarrow> worker_result list" where
  "proved_results (EvProved job d) = pj_results job"
| "proved_results _ = []"

definition record_inv :: "('fs, 'e, 'vk) env \<Rightarrow> 'fs server \<Rightarrow> bool" where
  "record_inv env s \<longleftrightarrow>
     s_jobs_done s = length (s_outcomes s) \<and> list_all (outcome_inv env) (s_outcomes s) \<and>
     list_all (\<lambda>job. pj_results job = []) (s_queue s) \<and> list_all (\<lambda>ev. proved_results ev = []) (s_events s)"

text \<open>The handlers leave the record and the channels alone, but for the queue of submissions.\<close>

definition same_record :: "'fs server \<Rightarrow> 'fs server \<Rightarrow> bool" where
  "same_record s s' \<longleftrightarrow>
     s_outcomes s' = s_outcomes s \<and> s_jobs_done s' = s_jobs_done s \<and> s_events s' = s_events s \<and> s_queue s' = s_queue s"

lemma same_record_inv: "same_record s s' \<Longrightarrow> record_inv env s' = record_inv env s"
  by (simp add: same_record_def record_inv_def)

lemma handlers_same_record:
  "same_record s (handle_nonce_sig cfg env k sig pow s)"
  "same_record s (handle_blob_upload cfg env k id_hex bytes_hex s)"
  "handle_blob_request cfg env k hex s = Some s' \<Longrightarrow> same_record s s'"
  "handle_result cfg env k r s = Some s' \<Longrightarrow> same_record s s'"
  "scan_step cfg env now s = Inr s' \<Longrightarrow> same_record s s'"
  "same_record s (dispatch_step cfg rng now s)"
  "complete_step cfg now s = Escalated s' \<Longrightarrow> same_record s s'"
  "same_record s (land_submission cfg env k desc json s)"
  by (auto simp: same_record_def handle_nonce_sig_def handle_blob_upload_def handle_blob_request_def handle_result_def
      scan_step_def dispatch_step_def complete_step_def land_submission_def Let_def
      split: option.splits sum.splits prod.splits if_splits)

lemma claim_same_record:
  "handle_claim_event cfg env k wid job_id pubkey sig receipt_hex s = Some s' \<Longrightarrow> same_record s s'"
  using handle_receipt_claim_cases [of cfg env wid job_id pubkey sig receipt_hex s s']
  by (auto simp: handle_claim_event_def same_record_def claim_changes_def split: option.splits if_splits)

lemma submission_record_inv:
  assumes "handle_job_submission cfg env now k desc pubkey sig require_zk s = Some s'" and "record_inv env s"
  shows "record_inv env s'"
proof (cases "\<exists>json. s' = land_submission cfg env k desc json s")
  case False
  then show ?thesis using assms
    by (auto simp: handle_job_submission_def record_inv_def proving_job_def simp del: check_blobs.simps
        split: option.splits blob_check.splits if_splits)
qed (use assms(2) same_record_inv [OF handlers_same_record(8)] in blast)

lemma finish_decided_job_record:
  assumes "record_inv env s" and "signed_for env (jd_job_id (pj_descriptor job)) (pj_results job)"
  shows "record_inv env (finish_decided_job cfg env job d s)"
  using assms by (simp add: record_inv_def finish_decided_job_def outcome_inv_def Let_def)

lemma handle_event_record_inv:
  assumes "handle_event cfg env now nonce ev s = Some s'" and "record_inv env s" and "proved_results ev = []"
  shows "record_inv env s'"
proof (cases ev)
  case (EvProved job d)
  have "signed_for env (jd_job_id (pj_descriptor job)) (pj_results job)"
    using assms(3) EvProved by (simp add: signed_for_def)
  then have "record_inv env (finish_decided_job cfg env job d s)"
    using finish_decided_job_record assms(2) by blast
  then show ?thesis using assms(1) EvProved by (auto simp: handle_event_def record_inv_def Let_def)
next
  case EvJobSubmission
  then show ?thesis using assms submission_record_inv by (auto simp: handle_event_def)
next
  case EvHello
  then show ?thesis using assms by (auto simp: handle_event_def record_inv_def)
next
  case EvClosed
  then show ?thesis using assms by (auto simp: handle_event_def record_inv_def)
qed (use assms in \<open>auto simp: handle_event_def same_record_inv [OF handlers_same_record(1)]
      same_record_inv [OF handlers_same_record(2)] same_record_inv [OF handlers_same_record(3)]
      same_record_inv [OF handlers_same_record(4)] same_record_inv [OF claim_same_record]\<close>)

lemma finish_pending_record:
  assumes "complete_step cfg now s = Finished job" and "finish_pending cfg env job s = Some s'"
    and "pending_inv cfg env s" and "record_inv env s"
  shows "record_inv env s'"
proof -
  obtain d fs where d: "final_decision cfg env job (s_fs s) = Some (d, fs)"
    using assms(2) by (auto simp: finish_pending_def split: option.splits)
  have "job_inv cfg env job"
    using complete_step_Finished [OF assms(1)] assms(3) finished_job_inv by (auto simp: pending_inv_def)
  then have "record_inv env (finish_decided_job cfg env job d (s\<lparr>s_fs := fs\<rparr>))"
    using assms(4) by (intro finish_decided_job_record) (auto simp: job_inv_def record_inv_def)
  then show ?thesis using assms(2) d by (auto simp: finish_pending_def record_inv_def Let_def)
qed

lemma session_step_record: "record_inv env s \<Longrightarrow> record_inv env (fst (session_step k received sent s))"
  by (auto simp: session_step_def session_close_def session_event_def record_inv_def
      split: sum.splits option.splits client_to_server.splits)

interpretation records: server_invariant cfg env "\<lambda>s. pending_inv cfg env s \<and> record_inv env s" for cfg env
proof (unfold_locales, goal_cases)
  case (1 fs)
  then show ?case using votes.initial [of cfg env fs] by (simp add: record_inv_def init_server_def)
next
  case (2 s k peer_ip)
  then show ?case by (simp add: accept_conn_pending_inv) (simp add: record_inv_def accept_conn_def)
next
  case (3 s k received sent)
  then show ?case by (simp add: session_step_pending_inv session_step_record)
next
  case (4 s cs)
  then show ?case using votes.reorders [of cfg env s cs] by (simp add: record_inv_def)
next
  case (5 s fs)
  then show ?case by (simp add: pending_inv_def record_inv_def)
next
  case (6 s zk s')
  then show ?case
    using votes.proves [of cfg env s zk s']
    by (auto simp: proving_step_def record_inv_def split: list.splits option.splits)
next
  case (7 s now s')
  then show ?case using same_record_inv [OF handlers_same_record(5)] scan_step_inv by blast
next
  case (8 s rng now)
  then show ?case using same_record_inv [OF handlers_same_record(6)] dispatch_step_inv by blast
next
  case (9 s now s')
  then show ?case using same_record_inv [OF handlers_same_record(7)] complete_step_Escalated_inv by blast
next
  case (10 s now job s')
  then show ?case using finish_pending_record finish_pending_inv by blast
next
  case (11 s ev evs now nonce s')
  have "record_inv env (s\<lparr>s_events := evs\<rparr>)" "proved_results ev = []"
    using 11(1,2) by (simp_all add: record_inv_def)
  then show ?case using handle_event_record_inv [OF 11(3)] votes.handles 11 by blast
qed

section \<open>Properties\<close>

text \<open>
  C4: in every state the coordinator can reach, whatever its peers send and however the threads
  interleave, the votes recorded for the pending job come from pairwise different workers the job
  was dispatched to, each with a valid signature over a result for this very job; each dispatched
  worker has made at most one receipt claim; a job decided by a receipt was decided by one the
  verifier attested for this job's content ids; no connection has more than 8 uploads; and the
  record of finished jobs agrees with the count of jobs, with deltas as slashing gives them.
\<close>

theorem reachable_votes_sound:
  assumes "net_reach cfg env s"
  shows "(\<forall>job. s_pending s = Some job \<longrightarrow>
            distinct (map worker_id (pj_results job)) \<and>
            (\<forall>r \<in> set (pj_results job).
               worker_id r \<in> set (pj_dispatched_ids job) \<and> wr_job_id r = jd_job_id (pj_descriptor job) \<and>
               verify_signature (e_vk_from_bytes env) (e_vk_verify env) r = Inr ()) \<and>
            distinct (pj_receipt_claimed job) \<and> set (pj_receipt_claimed job) \<subseteq> set (pj_dispatched_ids job) \<and>
            (\<forall>d. pj_zk_accept job = Some d \<longrightarrow> receipt_backed cfg env job d)) \<and>
         (\<forall>(k, c) \<in> set (s_conns s). c_uploads c \<le> 8) \<and>
         s_jobs_done s = length (s_outcomes s) \<and>
         (\<forall>oc \<in> set (s_outcomes s). jo_bond_deltas oc = slashing (jo_decision oc) (jo_results oc))"
proof -
  have p: "pending_inv cfg env s" and r: "record_inv env s" using records.reach_keeps [OF assms] by simp_all
  have "worker_id r \<in> set (pj_dispatched_ids job) \<and> wr_job_id r = jd_job_id (pj_descriptor job) \<and>
      verify_signature (e_vk_from_bytes env) (e_vk_verify env) r = Inr ()"
    if "s_pending s = Some job" and "r \<in> set (pj_results job)" for job r
    using p that by (auto simp: pending_inv_def job_inv_def signed_for_def list_all_iff)
  moreover have "\<forall>job. s_pending s = Some job \<longrightarrow>
      distinct (map worker_id (pj_results job)) \<and> distinct (pj_receipt_claimed job) \<and>
      set (pj_receipt_claimed job) \<subseteq> set (pj_dispatched_ids job) \<and>
      (\<forall>d. pj_zk_accept job = Some d \<longrightarrow> receipt_backed cfg env job d)"
    using p by (simp add: pending_inv_def job_inv_def signed_for_def)
  moreover have "\<forall>(k, c) \<in> set (s_conns s). c_uploads c \<le> 8"
    using p by (auto simp: pending_inv_def conns_inv_def conn_inv_def MAX_UPLOADS_PER_CONN_def list_all_iff)
  ultimately show ?thesis using r by (simp add: record_inv_def outcome_inv_def list_all_iff)
qed


section \<open>One connection, every vote\<close>

fun run_events ::
    "serve_config \<Rightarrow> ('fs, 'e, 'vk) env \<Rightarrow> nat \<Rightarrow> bytes \<Rightarrow> event list \<Rightarrow> 'fs server \<Rightarrow> 'fs server option" where
  "run_events cfg env now nonce [] s = Some s"
| "run_events cfg env now nonce (ev # evs) s =
     Option.bind (handle_event cfg env now nonce ev s) (run_events cfg env now nonce evs)"

lemma run_events_append:
  "run_events cfg env now nonce (xs @ ys) s = Option.bind (run_events cfg env now nonce xs s) (run_events cfg env now nonce ys)"
proof (induction xs arbitrary: s)
  case (Cons ev xs)
  then show ?case by (cases "handle_event cfg env now nonce ev s") simp_all
qed simp

text \<open>A connection that greets again under another worker's id, with its own key, and votes.\<close>

definition hijack :: "nat \<Rightarrow> string \<Rightarrow> worker_result \<Rightarrow> event list" where
  "hijack k pk r = [EvHello k pk (worker_id r) None ''worker'', EvResult k r]"

definition authed_at :: "'fs server \<Rightarrow> nat \<Rightarrow> bool" where
  "authed_at s k \<longleftrightarrow> (case map_of (s_conns s) k of None \<Rightarrow> False | Some c \<Rightarrow> c_authed c)"

definition own_vote :: "('fs, 'e, 'vk) env \<Rightarrow> string \<Rightarrow> string \<Rightarrow> worker_result \<Rightarrow> bool" where
  "own_vote env pk job_id r \<longleftrightarrow>
     worker_id r \<noteq> [] \<and> wr_job_id r = job_id \<and> pubkey_hex r = Some pk \<and> prefix_ok (result_hash r) 12 \<and>
     verify_signature (e_vk_from_bytes env) (e_vk_verify env) r = Inr ()"

lemma hijack_counts:
  assumes "authed_at s k" and "s_pending s = Some job" and "own_vote env pk (jd_job_id (pj_descriptor job)) r"
    and "worker_id r \<in> set (pj_dispatched_ids job)" and "worker_id r \<notin> worker_id ` set (pj_results job)" and "pk \<noteq> []"
  obtains s' where "run_events cfg env now nonce (hijack k pk r) s = Some s'"
    and "s_pending s' = Some (job\<lparr>pj_results := pj_results job @ [r]\<rparr>)" and "authed_at s' k"
proof -
  obtain c where c: "map_of (s_conns s) k = Some c" "c_authed c"
    using assms(1) by (auto simp: authed_at_def split: option.splits)
  let ?s1 = "s\<lparr>s_conns := handle_hello cfg nonce k pk (worker_id r) None ''worker'' (s_conns s)\<rparr>"
  have m: "\<exists>c. map_of (s_conns ?s1) k = Some c \<and> c_authed c \<and> c_worker_id c = worker_id r \<and> c_pubkey c = Some pk"
    using c assms(3,6) by (simp add: handle_hello_def map_of_conn_update own_vote_def)
  then have a: "result_allowed cfg env (s_conns ?s1) k r"
    using assms(3) by (auto simp: result_allowed_def own_vote_def)
  let ?s2 = "?s1\<lparr>s_pending := Some (job\<lparr>pj_results := pj_results job @ [r]\<rparr>)\<rparr>"
  have "handle_result cfg env k r ?s1 = Some ?s2"
    using a assms(2-5) by (simp add: handle_result_def own_vote_def)
  then have "run_events cfg env now nonce (hijack k pk r) s = Some ?s2"
    by (simp add: hijack_def handle_event_def)
  then show ?thesis by (rule that) (use m in \<open>auto simp: authed_at_def\<close>)
qed

lemma hijacks_count:
  assumes "authed_at s k" and "s_pending s = Some job"
    and "\<forall>r \<in> set rs. own_vote env pk (jd_job_id (pj_descriptor job)) r \<and> worker_id r \<in> set (pj_dispatched_ids job)"
    and "distinct (map worker_id (pj_results job @ rs))" and "pk \<noteq> []"
  obtains s' where "run_events cfg env now nonce (concat (map (hijack k pk) rs)) s = Some s'"
    and "s_pending s' = Some (job\<lparr>pj_results := pj_results job @ rs\<rparr>)"
  using assms
proof (induction rs arbitrary: s job thesis)
  case (Cons r rs)
  have "worker_id r \<notin> worker_id ` set (pj_results job)" using Cons.prems(5) by auto
  then obtain s1 where 1: "run_events cfg env now nonce (hijack k pk r) s = Some s1"
    "s_pending s1 = Some (job\<lparr>pj_results := pj_results job @ [r]\<rparr>)" "authed_at s1 k"
    using hijack_counts [OF Cons.prems(2,3), of env pk r cfg now nonce] Cons.prems(4,6) by auto
  obtain s' where "run_events cfg env now nonce (concat (map (hijack k pk) rs)) s1 = Some s'"
    "s_pending s' = Some (job\<lparr>pj_results := pj_results job @ r # rs\<rparr>)"
    using Cons.IH [OF _ 1(3,2)] Cons.prems(4,5,6) by auto
  then show ?case using Cons.prems(1) 1(1) by (simp add: run_events_append)
qed simp

text \<open>
  C11: against the rule of one vote per identity, a single admitted connection decides a job alone.
  From any state with a dispatched job and no votes yet, an authenticated connection that greets
  again under the id of each dispatched worker in turn, always with its own key, and submits a
  result it signed itself, has all these results counted as those workers' votes; when they agree
  on one hash the job is accepted with it, and the honest workers' own results are duplicates.
\<close>

theorem one_connection_decides:
  assumes "authed_at s k" and "s_pending s = Some job" and "pj_results job = []"
    and "pj_dispatched_ids job \<noteq> []" and "distinct (pj_dispatched_ids job)"
    and "map worker_id rs = pj_dispatched_ids job" and "pk \<noteq> []"
    and "\<forall>r \<in> set rs. own_vote env pk (jd_job_id (pj_descriptor job)) r \<and> wr_status r = ''halted'' \<and>
           result_hash r = h \<and> wr_chunk_hashes r = chain"
  shows "\<exists>s' out agreed. run_events cfg env now nonce (concat (map (hijack k pk) rs)) s = Some s' \<and>
           s_pending s' = Some (job\<lparr>pj_results := rs\<rparr>) \<and>
           decide rs (length (pj_dispatched_ids job)) = Accept h out agreed False \<and>
           set agreed = set (pj_dispatched_ids job)"
proof -
  have ids: "worker_id r \<in> set (pj_dispatched_ids job)" if "r \<in> set rs" for r
    using that assms(6) by (metis image_eqI set_map)
  have len: "length rs = length (pj_dispatched_ids job)" using assms(6) by (metis length_map)
  obtain s' where "run_events cfg env now nonce (concat (map (hijack k pk) rs)) s = Some s'"
    "s_pending s' = Some (job\<lparr>pj_results := rs\<rparr>)"
    using hijacks_count [OF assms(1,2), of rs env pk cfg now nonce] assms(3,5-8) ids by auto
  moreover have "\<exists>out agreed. decide rs (length (pj_dispatched_ids job)) = Accept h out agreed False \<and>
      set agreed = worker_id ` {r \<in> set rs. wr_status r = ''halted'' \<and> result_hash r = h}"
  proof (rule majority_accepted)
    show "distinct (map worker_id rs)" using assms(5,6) by simp
    show "length rs \<le> length (pj_dispatched_ids job)" using len by simp
    have "filter (\<lambda>r. wr_status r = ''halted'' \<and> result_hash r = h) rs = rs"
      using assms(8) by (simp add: filter_id_conv)
    then show "length (pj_dispatched_ids job) < 2 * length (filter (\<lambda>r. wr_status r = ''halted'' \<and> result_hash r = h) rs)"
      using len assms(4) by simp
    show "\<forall>r \<in> set rs. wr_status r = ''halted'' \<and> result_hash r = h \<longrightarrow> wr_chunk_hashes r = chain"
      using assms(8) by blast
  qed
  moreover have "{r \<in> set rs. wr_status r = ''halted'' \<and> result_hash r = h} = set rs"
    using assms(8) by blast
  moreover have "worker_id ` set rs = set (pj_dispatched_ids job)" using assms(6) by (metis set_map)
  ultimately show ?thesis by metis
qed

section \<open>Witnesses\<close>

text \<open>A coordinator with one descriptor in its jobs directory and a pool of any size.\<close>

definition demo_cfg_net :: serve_config where
  "demo_cfg_net =
     \<lparr>cfg_jobs_dir = ''jobs'', cfg_store_dir = ''s'', cfg_deadline = 1000, cfg_ledger = None,
      cfg_require_identity = True, cfg_zk = None, cfg_zk_judge = None, cfg_zk_prover = None,
      cfg_accept_submissions = False, cfg_results_dir = None, cfg_pow_bits = 0, cfg_pool = None,
      cfg_max_jobs = None, cfg_round1_size = None, cfg_round1_ids = None\<rparr>"

definition demo_env :: "(string \<rightharpoonup> bytes, unit, unit) env" where
  "demo_env =
     \<lparr>e_sys = demo_sys\<lparr>sys_os := disk\<lparr>os_list := (\<lambda>fs d. Inr (if fs (join d ''a.desc.json'') = None then [] else [''a.desc.json'']))\<rparr>\<rparr>,
      e_blake3 = pad32, e_sha256 = pad32, e_vk_from_bytes = (\<lambda>bs. Some ()), e_vk_verify = (\<lambda>vk msg sig. True),
      e_manifest_json = (\<lambda>bs. Some demo_manifest), e_desc_from_json = (\<lambda>bs. Some demo_desc),
      e_desc_to_json = (\<lambda>d. Some []), e_receipt_json = (\<lambda>bs. None), e_judge_json = (\<lambda>bs. None),
      e_ledger_from_json = (\<lambda>bs. None), e_ledger_to_json = (\<lambda>l. []), e_not_found = (\<lambda>e. True),
      e_outcome_json = (\<lambda>j d rs ds. []), e_meta_json = (\<lambda>k j v. []), e_error_text = (\<lambda>e. []),
      e_upload_text = (\<lambda>e. [])\<rparr>"

lemma demo_env_simps:
  "e_vk_from_bytes demo_env = (\<lambda>bs. Some ())" "e_vk_verify demo_env = (\<lambda>vk msg sig. True)"
  "e_desc_from_json demo_env = (\<lambda>bs. Some demo_desc)"
  "os_read (sys_os (e_sys demo_env)) = os_read disk"
  "os_list (sys_os (e_sys demo_env)) = (\<lambda>fs d. Inr (if fs (join d ''a.desc.json'') = None then [] else [''a.desc.json'']))"
  "rename (e_sys demo_env) = rename demo_sys"
  by (simp_all add: demo_env_def)

definition demo_pk :: string where
  "demo_pk = replicate 64 CHR ''0''"

definition demo_vote :: "string \<Rightarrow> worker_result" where
  "demo_vote w = (vote w ''hhhhhhhhhhhh'' ''1'')\<lparr>wr_job_id := jd_job_id demo_desc,
     pubkey_hex := Some demo_pk, sig_hex := Some (replicate 128 CHR ''0'')\<rparr>"

lemma from_hex_zeros: "from_hex (replicate (2 * n) CHR ''0'') n = Inr (replicate n 0)"
proof -
  have "hex_digit (char_byte (CHR ''0'')) = Inr 0" by (simp add: hex_digit_def char_byte_def)
  from hex_pairs_replicate [OF this, of n] show ?thesis by (simp add: from_hex_def mult.commute)
qed

lemma demo_vote_signed:
  "verify_signature (e_vk_from_bytes demo_env) (e_vk_verify demo_env) (demo_vote w) = Inr ()"
  using from_hex_zeros [of 32] from_hex_zeros [of 64]
  by (simp add: verify_signature_def demo_vote_def demo_env_simps demo_pk_def)

lemma demo_own_vote: "w \<noteq> [] \<Longrightarrow> own_vote demo_env demo_pk (jd_job_id demo_desc) (demo_vote w)"
  using demo_vote_signed [of w]
  by (simp add: own_vote_def) (simp add: demo_vote_def prefix_ok_def is_char_boundary_def vote_def)

definition demo_conn :: conn where
  "demo_conn = (new_conn 1 [])\<lparr>c_worker_id := ''m'', c_authed := True, c_nonce := Some []\<rparr>"

definition demo_job :: pending_job where
  "demo_job = (queued 0 (demo_desc, None, ''p'') [])\<lparr>pj_dispatched := True, pj_dispatched_ids := [''a'', ''b'']\<rparr>"

theorem one_connection_decides_witness:
  "\<exists>s' out agreed. run_events demo_cfg_net demo_env 0 [] (concat (map (hijack 1 demo_pk) [demo_vote ''a'', demo_vote ''b'']))
       (init_server Map.empty\<lparr>s_conns := [(1, demo_conn)], s_pending := Some demo_job\<rparr>) = Some s' \<and>
     s_pending s' = Some (demo_job\<lparr>pj_results := [demo_vote ''a'', demo_vote ''b'']\<rparr>) \<and>
     decide [demo_vote ''a'', demo_vote ''b''] 2 = Accept ''hhhhhhhhhhhh'' out agreed False \<and> set agreed = {''a'', ''b''}"
proof -
  let ?s = "init_server Map.empty\<lparr>s_conns := [(1, demo_conn)], s_pending := Some demo_job\<rparr>"
  let ?rs = "[demo_vote ''a'', demo_vote ''b'']"
  have j: "jd_job_id (pj_descriptor demo_job) = jd_job_id demo_desc" "pj_dispatched_ids demo_job = [''a'', ''b'']"
    "pj_results demo_job = []" by (simp_all add: demo_job_def queued_def)
  have "\<exists>s' out agreed. run_events demo_cfg_net demo_env 0 [] (concat (map (hijack 1 demo_pk) ?rs)) ?s = Some s' \<and>
      s_pending s' = Some (demo_job\<lparr>pj_results := ?rs\<rparr>) \<and>
      decide ?rs (length (pj_dispatched_ids demo_job)) = Accept ''hhhhhhhhhhhh'' out agreed False \<and>
      set agreed = set (pj_dispatched_ids demo_job)"
  proof (rule one_connection_decides)
    show "authed_at ?s 1" by (simp add: authed_at_def demo_conn_def)
    show "s_pending ?s = Some demo_job" by simp
    show "demo_pk \<noteq> []" by (simp add: demo_pk_def)
    show "map worker_id ?rs = pj_dispatched_ids demo_job" by (simp add: j demo_vote_def)
    show "\<forall>r \<in> set ?rs. own_vote demo_env demo_pk (jd_job_id (pj_descriptor demo_job)) r \<and> wr_status r = ''halted'' \<and>
        result_hash r = ''hhhhhhhhhhhh'' \<and> wr_chunk_hashes r = [''hhhhhhhhhhhh'']"
      using demo_own_vote [of "''a''"] demo_own_vote [of "''b''"] j(1) by (simp add: demo_vote_def)
  qed (simp_all add: j)
  then show ?thesis by (simp add: j numeral_2_eq_2)
qed

text \<open>A run from the start: one worker connects, is admitted, gets the job and votes.\<close>

definition demo_state :: "conn \<Rightarrow> pending_job option \<Rightarrow> event list \<Rightarrow> (string \<rightharpoonup> bytes) \<Rightarrow> (string \<rightharpoonup> bytes) server" where
  "demo_state c p evs fs =
     \<lparr>s_conns = [(1, c)], s_pending = p, s_outcomes = [], s_jobs_done = 0, s_scan_errors = Map.empty,
      s_subs = Map.empty, s_events = evs, s_queue = [], s_fs = fs, s_ctr = 0\<rparr>"

definition demo_jobs :: "string \<rightharpoonup> bytes" where
  "demo_jobs = [join ''jobs'' ''a.desc.json'' \<mapsto> []]"

definition demo_fs_net :: "string \<rightharpoonup> bytes" where
  "demo_fs_net = [join ''jobs'' ''a.desc.json.dispatching'' \<mapsto> []]"

definition demo_queued :: pending_job where
  "demo_queued = queued 0 (demo_desc, None, join ''jobs'' ''a.desc.json.dispatching'') []"

definition demo_greeted :: conn where
  "demo_greeted = \<lparr>c_outbound = [Nonce [] 0], c_pubkey = Some demo_pk, c_nonce = Some [], c_worker_id = ''a'',
     c_authed = False, c_peer_addr = None, c_peer_ip = [], c_role = ''worker'', c_uploads = 0\<rparr>"

definition demo_admitted :: conn where
  "demo_admitted = demo_greeted\<lparr>c_outbound := [Nonce [] 0, AuthOk ''a''], c_authed := True\<rparr>"

definition demo_assigned :: conn where
  "demo_assigned = demo_admitted\<lparr>c_outbound := [Nonce [] 0, AuthOk ''a'', JobAssignment demo_desc []]\<rparr>"

definition demo_dispatched :: pending_job where
  "demo_dispatched = demo_queued\<lparr>pj_dispatched := True, pj_dispatched_ids := [''a'']\<rparr>"

lemma demo_scan:
  "scan_jobs_dir demo_cfg_net demo_env 0 Map.empty demo_jobs =
     Inr (Some (demo_desc, None, join ''jobs'' ''a.desc.json.dispatching''), Map.empty, demo_fs_net)"
proof -
  have t: "parse_targets ''a.desc.json'' = None" by (simp add: parse_targets_def desc_suffix_def ends_with_def eval_nat_numeral)
  have e: "ends_with ''a.desc.json'' desc_suffix" by (simp add: desc_suffix_def ends_with_def)
  have l: "load_descriptor demo_env demo_jobs (join ''jobs'' ''a.desc.json'') ''a.desc.json'' = Inr demo_desc"
    by (simp add: load_descriptor_def demo_env_simps disk_def demo_jobs_def)
  have "rename (e_sys demo_env) demo_jobs (join ''jobs'' ''a.desc.json'') (join ''jobs'' ''a.desc.json'' @ ''.dispatching'') = Inr demo_fs_net"
    by (simp add: demo_env_simps demo_sys_def demo_jobs_def demo_fs_net_def join_def fun_eq_iff)
  then show ?thesis
    by (simp add: scan_jobs_dir_def demo_env_simps demo_cfg_net_def e l t Let_def) (simp add: demo_jobs_def join_def)
qed

lemma demo_round1:
  "serve_round demo_cfg_net demo_env 0 rng []
     (demo_state (new_conn 1 []) None [EvHello 1 demo_pk ''a'' None ''worker''] demo_jobs) =
   Next (demo_state demo_greeted (Some demo_queued) [] demo_fs_net)"
proof -
  have "scan_step demo_cfg_net demo_env 0 (demo_state (new_conn 1 []) None [EvHello 1 demo_pk ''a'' None ''worker''] demo_jobs) =
      Inr (demo_state (new_conn 1 []) (Some demo_queued) [EvHello 1 demo_pk ''a'' None ''worker''] demo_fs_net)"
    by (simp add: scan_step_def demo_state_def demo_scan Let_def demo_queued_def)
  then show ?thesis
    by (simp add: serve_round_def demo_cfg_net_def demo_state_def dispatch_step_def complete_step_def demo_queued_def
        queued_def targets_ready_def is_worker_def new_conn_def Let_def handle_event_def of_step_def handle_hello_def
        conn_update_def conn_send_def demo_greeted_def demo_pk_def to_hex_def)
qed

lemma demo_round2:
  "serve_round demo_cfg_net demo_env 0 rng []
     (demo_state demo_greeted (Some demo_queued) [EvNonceSig 1 (Some (replicate 128 CHR ''0'')) 0] demo_fs_net) =
   Next (demo_state demo_admitted (Some demo_queued) [] demo_fs_net)"
proof -
  have a: "auth_ok demo_cfg_net demo_env demo_greeted (Some (replicate 128 CHR ''0'')) 0"
    using from_hex_zeros [of 32] from_hex_zeros [of 64]
    by (simp add: auth_ok_def demo_greeted_def verify_pow_def demo_cfg_net_def verify_nonce_def verify_msg_def
        demo_env_simps demo_pk_def)
  show ?thesis
    using a
    by (simp add: serve_round_def demo_state_def scan_step_def dispatch_step_def complete_step_def demo_queued_def
        queued_def targets_ready_def is_worker_def Let_def handle_event_def of_step_def handle_nonce_sig_def
        join_reserves_def conn_update_def conn_send_def)
      (simp add: demo_cfg_net_def demo_greeted_def demo_admitted_def)
qed

lemma demo_round3:
  "serve_round demo_cfg_net demo_env 0 rng [] (demo_state demo_admitted (Some demo_queued) [] demo_fs_net) =
   Next (demo_state demo_assigned (Some demo_dispatched) [] demo_fs_net)"
  by (simp add: serve_round_def demo_cfg_net_def demo_state_def scan_step_def dispatch_step_def complete_step_def demo_queued_def
      queued_def targets_ready_def is_worker_def Let_def all_in_def candidates_def select_round1_def reserve_ids_def
      peer_hints_def conn_send_def demo_greeted_def demo_admitted_def demo_assigned_def demo_dispatched_def)

lemma demo_round4:
  "serve_round demo_cfg_net demo_env 0 rng [] (demo_state demo_assigned (Some demo_dispatched) [EvResult 1 (demo_vote ''a'')] demo_fs_net) =
   Next (demo_state demo_assigned (Some (demo_dispatched\<lparr>pj_results := [demo_vote ''a'']\<rparr>)) [] demo_fs_net)"
proof -
  have p: "prefix_ok (result_hash (demo_vote ''a'')) 12" "wr_job_id (demo_vote ''a'') = jd_job_id demo_desc"
    "worker_id (demo_vote ''a'') = ''a''" "pubkey_hex (demo_vote ''a'') = Some demo_pk"
    using demo_own_vote [of "''a''"] by (simp_all add: own_vote_def demo_vote_def)
  then have a: "result_allowed demo_cfg_net demo_env [(1, demo_assigned)] 1 (demo_vote ''a'')"
    using demo_vote_signed [of "''a''"]
    by (simp add: result_allowed_def demo_assigned_def demo_admitted_def demo_greeted_def)
  show ?thesis
    using a p
    by (simp add: serve_round_def demo_state_def scan_step_def dispatch_step_def complete_step_def all_in_def Let_def
        handle_event_def of_step_def handle_result_def demo_dispatched_def demo_queued_def queued_def)
      (simp add: demo_cfg_net_def)
qed

text \<open>The session of connection 1 receives a message and the main loop handles it.\<close>

lemma demo_hears:
  assumes "net_reach demo_cfg_net demo_env (demo_state c p [] fs)"
    and "serve_round demo_cfg_net demo_env now rng nonce (demo_state c p [session_event 1 msg] fs) = Next s'"
  shows "net_reach demo_cfg_net demo_env s'"
proof -
  have "net_step demo_cfg_net demo_env (demo_state c p [] fs) (demo_state c p [session_event 1 msg] fs)"
    using net_step.session [of demo_cfg_net demo_env "demo_state c p [] fs" 1 "Inr (Some msg)" 0]
    by (simp add: session_step_def demo_state_def)
  from net_reach.step [OF net_reach.step [OF assms(1) this] net_step.round [OF assms(2)]] show ?thesis .
qed

lemma demo_reach:
  "net_reach demo_cfg_net demo_env
     (demo_state demo_assigned (Some (demo_dispatched\<lparr>pj_results := [demo_vote ''a'']\<rparr>)) [] demo_fs_net)"
proof -
  have 0: "net_reach demo_cfg_net demo_env (demo_state (new_conn 1 []) None [] demo_jobs)"
    using net_reach.step [OF net_reach.start [of demo_cfg_net demo_env demo_jobs]
        net_step.accept [of 1 _ demo_cfg_net demo_env "[]"]]
    by (simp add: init_server_def accept_conn_def conn_remove_def demo_state_def)
  have 1: "net_reach demo_cfg_net demo_env (demo_state demo_greeted (Some demo_queued) [] demo_fs_net)"
    by (rule demo_hears [OF 0, of 0 _ "[]" "Hello demo_pk ''a'' None ''worker''"])
      (simp only: session_event_def client_to_server.case demo_round1)
  have 2: "net_reach demo_cfg_net demo_env (demo_state demo_admitted (Some demo_queued) [] demo_fs_net)"
    by (rule demo_hears [OF 1, of 0 _ "[]" "NonceSignature (Some (replicate 128 CHR ''0'')) 0"])
      (simp only: session_event_def client_to_server.case demo_round2)
  have 3: "net_reach demo_cfg_net demo_env (demo_state demo_assigned (Some demo_dispatched) [] demo_fs_net)"
    using net_reach.step [OF 2 net_step.round [OF demo_round3]] .
  show ?thesis
    by (rule demo_hears [OF 3, of 0 _ "[]" "JobResult (demo_vote ''a'')"])
      (simp only: session_event_def client_to_server.case demo_round4)
qed

theorem reachable_votes_sound_witness:
  "\<exists>s job. net_reach demo_cfg_net demo_env s \<and> s_pending s = Some job \<and> pj_results job = [demo_vote ''a''] \<and>
     (\<forall>r \<in> set (pj_results job). worker_id r \<in> set (pj_dispatched_ids job) \<and>
        verify_signature (e_vk_from_bytes demo_env) (e_vk_verify demo_env) r = Inr ())"
proof -
  let ?s = "demo_state demo_assigned (Some (demo_dispatched\<lparr>pj_results := [demo_vote ''a'']\<rparr>)) [] demo_fs_net"
  have p: "s_pending ?s = Some (demo_dispatched\<lparr>pj_results := [demo_vote ''a'']\<rparr>)" by (simp add: demo_state_def)
  then have "\<forall>r \<in> set (pj_results (demo_dispatched\<lparr>pj_results := [demo_vote ''a'']\<rparr>)).
      worker_id r \<in> set (pj_dispatched_ids (demo_dispatched\<lparr>pj_results := [demo_vote ''a'']\<rparr>)) \<and>
      verify_signature (e_vk_from_bytes demo_env) (e_vk_verify demo_env) r = Inr ()"
    using reachable_votes_sound [OF demo_reach] by blast
  then show ?thesis using demo_reach p by (intro exI [of _ ?s] exI) auto
qed

lemma demo_decided: "decide [demo_vote ''a''] 1 = Accept ''hhhhhhhhhhhh'' (Some ''1'') [''a''] False"
  by (simp add: decide_def decide_halted_def threshold_def group_by_def demo_vote_def Let_def)


end
