(* ===== verification/Jobkit.thy ===== *)
theory Jobkit
  imports Commands Server
begin

text \<open>
  The job owner's tool (\<open>crates/jobkit/src/main.rs\<close>): building a job for the sandbox or for the
  zkVM, submitting it to a coordinator over the wire, assembling the evidence of a finished job and
  verifying its receipt offline. Cargo, Docker and the receipt verifier are spawned programs and so
  parameters; the link to the coordinator is the one of the worker's model. Main results: the
  conversation of an honest submission is the one the coordinator has with it, and the job lands in
  the coordinator's queue; a receipt accepted offline is the coordinator's and proves the
  descriptor's job; and a built job passes the loader.
\<close>

section \<open>Operations\<close>

text \<open>
  How a command ends: with a value, by \<open>exit(1)\<close>, by a panic, or not at all when no counter
  satisfies the proof of work.
\<close>

datatype 'a tool = Done 'a | Exits | Crashes | Mining

text \<open>\<open>std::fs::copy\<close>: the number of bytes and the file system after it.\<close>

definition copy_over :: "('fs, 'e) os \<Rightarrow> 'fs \<Rightarrow> string \<Rightarrow> string \<Rightarrow> (nat \<times> 'fs) option" where
  "copy_over os fs src dst =
     (case os_read os fs src of
        Inl _ \<Rightarrow> None
      | Inr bs \<Rightarrow> (case os_write os fs dst bs of Inl _ \<Rightarrow> None | Inr fs \<Rightarrow> Some (length bs, fs)))"

subsection \<open>Building\<close>

text \<open>
  What the build uses of the system: \<open>kit_run\<close> runs a program (working directory and environment
  variables if set, name, arguments) to its exit status, \<open>None\<close> if it cannot be started;
  \<open>kit_stat\<close> is the size of a regular file; then \<open>canonicalize\<close>, the environment, and the
  directory of the crate's manifest at compile time.
\<close>

record 'fs kit =
  kit_run :: "string option \<Rightarrow> (string \<times> string) list \<Rightarrow> string \<Rightarrow> string list \<Rightarrow> 'fs \<Rightarrow> (bool \<times> 'fs) option"
  kit_stat :: "'fs \<Rightarrow> string \<Rightarrow> nat option"
  kit_canonical :: "'fs \<Rightarrow> string \<Rightarrow> string option"
  kit_var :: "string \<Rightarrow> string option"
  kit_manifest_dir :: string

definition TOOLCHAIN_IMAGE :: string where
  "TOOLCHAIN_IMAGE = ''provework/sp1-toolchain:v2''"

definition docker_path :: "string \<Rightarrow> string" where
  "docker_path s =
     (let p = [CHR 0x5C, CHR 0x5C, CHR ''?'', CHR 0x5C]
      in if take 4 s = p then drop 4 s else s)"

text \<open>\<open>status().is_ok_and(|s| s.success())\<close>.\<close>

definition succeeds :: "'fs kit \<Rightarrow> string \<Rightarrow> string list \<Rightarrow> 'fs \<Rightarrow> bool \<times> 'fs" where
  "succeeds kit prog args fs = (case kit_run kit None [] prog args fs of None \<Rightarrow> (False, fs) | Some r \<Rightarrow> r)"

definition docker_available :: "'fs kit \<Rightarrow> 'fs \<Rightarrow> bool \<times> 'fs" where
  "docker_available kit fs = succeeds kit ''docker'' [''info''] fs"

definition ensure_toolchain_image :: "'fs kit \<Rightarrow> 'fs \<Rightarrow> 'fs tool" where
  "ensure_toolchain_image kit fs =
     (case succeeds kit ''docker'' [''image'', ''inspect'', TOOLCHAIN_IMAGE] fs of
        (True, fs) \<Rightarrow> Done fs
      | (False, fs) \<Rightarrow>
          (let root = join (kit_manifest_dir kit) ''../..'';
               dockerfile = join root ''docker/sp1-toolchain.Dockerfile''
           in (case kit_run kit None [] ''docker''
                      [''build'', ''-f'', dockerfile, ''-t'', TOOLCHAIN_IMAGE, root] fs of
                 None \<Rightarrow> Crashes
               | Some (ok, fs) \<Rightarrow> if ok then Done fs else Exits)))"

definition cargo_cache_dir :: "'fs kit \<Rightarrow> string" where
  "cargo_cache_dir kit =
     join (case kit_var kit ''USER_HOME'' of
             Some home \<Rightarrow> home
           | None \<Rightarrow> (case kit_var kit ''HOME'' of Some home \<Rightarrow> home | None \<Rightarrow> ''.''))
       ''.cache/jobkit/cargo''"

text \<open>\<open>Path::extension\<close> of a file name: what follows the last dot, unless that dot comes first.\<close>

definition extension :: "string \<Rightarrow> string option" where
  "extension name =
     (let ext = rev (takeWhile (\<lambda>c. c \<noteq> CHR ''.'') (rev name))
      in if length name \<le> Suc (length ext) then None else Some ext)"

text \<open>The first entry without extension that is a file of more than four bytes.\<close>

definition find_built :: "('fs, 'e) os \<Rightarrow> 'fs kit \<Rightarrow> 'fs \<Rightarrow> string \<Rightarrow> string tool" where
  "find_built os kit fs elf_dir =
     (case os_list os fs elf_dir of
        Inl _ \<Rightarrow> Crashes
      | Inr names \<Rightarrow>
          (case find (\<lambda>n. (case extension n of None \<Rightarrow> True | Some x \<Rightarrow> x = []) \<and>
                       (case kit_stat kit fs (join elf_dir n) of None \<Rightarrow> False | Some len \<Rightarrow> len > 4)) names of
             None \<Rightarrow> Exits
           | Some n \<Rightarrow> Done (join elf_dir n)))"

text \<open>The compilation of a V2 guest: with the local toolchain or in the container.\<close>

definition v2_compile ::
    "'fs kit \<Rightarrow> string \<Rightarrow> string \<Rightarrow> string \<Rightarrow> string \<Rightarrow> string \<Rightarrow> 'fs \<Rightarrow> 'fs tool" where
  "v2_compile kit guest target guest_s target_s cache_s fs =
     (let finish = (\<lambda>r. case r of None \<Rightarrow> Crashes | Some (ok, fs) \<Rightarrow> if ok then Done fs else Exits)
      in (case succeeds kit ''cargo'' [''prove'', ''--version''] fs of
            (True, fs) \<Rightarrow>
              finish (kit_run kit (Some guest) [(''CARGO_TARGET_DIR'', target)] ''cargo'' [''prove'', ''build''] fs)
          | (False, fs) \<Rightarrow>
              (case docker_available kit fs of
                 (False, _) \<Rightarrow> Exits
               | (True, fs) \<Rightarrow>
                   (case ensure_toolchain_image kit fs of
                      Done fs \<Rightarrow>
                        finish (kit_run kit None [] ''docker''
                          [''run'', ''--rm'', ''-v'', guest_s @ '':/build/job'', ''-v'', cache_s @ '':/build/cargo-home'',
                           ''-v'', target_s @ '':/build/target'', ''-e'', ''CARGO_HOME=/build/cargo-home'',
                           ''-e'', ''CARGO_TARGET_DIR=/build/target'', ''-w'', ''/build/job'', TOOLCHAIN_IMAGE,
                           ''cargo'', ''prove'', ''build''] fs)
                    | r \<Rightarrow> r))))"

text \<open>Installing the program the compiler left: the bytes installed pass \<open>accept\<close>.\<close>

definition install_built ::
    "('fs, 'e) os \<Rightarrow> 'fs kit \<Rightarrow> (bytes \<Rightarrow> unit tool) \<Rightarrow> string \<Rightarrow> string \<Rightarrow> 'fs \<Rightarrow> 'fs tool" where
  "install_built os kit accept dir elf_dir fs =
     (case find_built os kit fs elf_dir of
        Done built \<Rightarrow>
          (case os_read os fs built of
             Inl _ \<Rightarrow> Crashes
           | Inr bs \<Rightarrow>
               (case accept bs of
                  Done _ \<Rightarrow>
                    (case copy_over os fs built (join dir ''program.elf'') of
                       None \<Rightarrow> Crashes
                     | Some (_, fs) \<Rightarrow> Done fs)
                | Exits \<Rightarrow> Exits | Crashes \<Rightarrow> Crashes | Mining \<Rightarrow> Mining))
      | Exits \<Rightarrow> Exits | Crashes \<Rightarrow> Crashes | Mining \<Rightarrow> Mining)"

definition build_v2 :: "('fs, 'e) os \<Rightarrow> 'fs kit \<Rightarrow> string \<Rightarrow> 'fs \<Rightarrow> 'fs tool" where
  "build_v2 os kit dir fs =
     (let guest = join dir ''guest''; target = join guest ''target''; cache = cargo_cache_dir kit
      in if \<not> os_exists os fs (join guest ''Cargo.toml'') then Exits
         else
           (case os_mkdir os fs target of Inl _ \<Rightarrow> Crashes | Inr fs \<Rightarrow>
           (case os_mkdir os fs cache of Inl _ \<Rightarrow> Crashes | Inr fs \<Rightarrow>
           (case (kit_canonical kit fs guest, kit_canonical kit fs target, kit_canonical kit fs cache) of
              (Some g, Some t, Some c) \<Rightarrow>
                (case v2_compile kit guest target (docker_path g) (docker_path t) (docker_path c) fs of
                   Done fs \<Rightarrow>
                     install_built os kit (\<lambda>_. Done ()) dir
                       (join target ''elf-compilation/riscv64im-succinct-zkvm-elf/release'') fs
                 | r \<Rightarrow> r)
            | _ \<Rightarrow> Crashes))))"

text \<open>The loader's check of a legacy build.\<close>

definition loader_accepts :: "bytes \<Rightarrow> unit tool" where
  "loader_accepts bs = (case parse bs of None \<Rightarrow> Crashes | Some (Inl _) \<Rightarrow> Exits | Some (Inr _) \<Rightarrow> Done ())"

definition build_job ::
    "('fs, 'e) os \<Rightarrow> (bytes \<Rightarrow> job_manifest option) \<Rightarrow> 'fs kit \<Rightarrow> string \<Rightarrow> 'fs \<Rightarrow> 'fs tool" where
  "build_job os from_json kit dir fs =
     (if (case os_read os fs (join dir ''job.json'') of
            Inl _ \<Rightarrow> False
          | Inr bs \<Rightarrow> (case from_json bs of None \<Rightarrow> False | Some m \<Rightarrow> is_sp1_v2 m))
      then build_v2 os kit dir fs
      else
        (case kit_run kit (Some dir) [] ''cargo'' [''build'', ''--release''] fs of
           None \<Rightarrow> Crashes
         | Some (ok, fs) \<Rightarrow>
             if \<not> ok then Exits
             else install_built os kit loader_accepts dir
                    (join dir ''target/riscv64imac-unknown-none-elf/release'') fs))"

subsection \<open>Submitting\<close>

text \<open>The first 32 bytes of the identity file are the seed; \<open>None\<close> is a panic (a short file, a failed write).\<close>

definition owner_identity ::
    "('fs, 'e, 'sk, 'x, 'k, 'p) wenv \<Rightarrow> string \<Rightarrow> 'fs \<Rightarrow> ('sk \<times> 'fs) option" where
  "owner_identity env path fs =
     (case os_read (sys_os (we_sys env)) fs path of
        Inr seed \<Rightarrow> if length seed < 32 then None else Some (we_key env (take 32 seed), fs)
      | Inl _ \<Rightarrow>
          (case os_write (sys_os (we_sys env)) fs path (we_seed env) of
             Inl _ \<Rightarrow> None
           | Inr fs \<Rightarrow> Some (we_key env (we_seed env), fs)))"

text \<open>Everything before the connection: the job's files, the identity, the published descriptor and its id.\<close>

definition submit_prepare ::
    "('fs, 'e, 'sk, 'x, 'k, 'p) wenv \<Rightarrow> (job_descriptor \<Rightarrow> bytes option) \<Rightarrow> string \<Rightarrow> string \<Rightarrow> string \<Rightarrow> 'fs \<Rightarrow>
     ('sk \<times> job_descriptor \<times> digest \<times> 'fs) option" where
  "submit_prepare env to_json dir store identity fs =
     (let os = sys_os (we_sys env)
      in (case os_read os fs (join dir ''job.json'') of Inl _ \<Rightarrow> None | Inr mb \<Rightarrow>
         (case we_manifest_json env mb of None \<Rightarrow> None | Some m \<Rightarrow>
         (case (os_read os fs (join dir (jm_elf m)), os_read os fs (join dir (jm_input m))) of
            (Inr _, Inr _) \<Rightarrow>
              (case owner_identity env identity fs of None \<Rightarrow> None | Some (k, fs) \<Rightarrow>
              (case store_open os fs store of Inl _ \<Rightarrow> None | Inr fs \<Rightarrow>
              (case publish os (we_blake3 env) (we_manifest_json env) store fs dir of Inl _ \<Rightarrow> None | Inr (desc, fs) \<Rightarrow>
              (case descriptor_id (we_blake3 env) to_json desc of
                 None \<Rightarrow> None
               | Some cid \<Rightarrow> Some (k, desc, cid, fs)))))
          | _ \<Rightarrow> None))))"

definition submitter_hello :: "('fs, 'e, 'sk, 'x, 'k, 'p) wenv \<Rightarrow> 'sk \<Rightarrow> client_to_server" where
  "submitter_hello env k =
     (let pk = to_hex (we_public env k) in Hello pk (''submitter-'' @ take 8 pk) None ''submitter'')"

definition submitter_greet :: "('fs, 'e, 'sk, 'x, 'k, 'p) wenv \<Rightarrow> 'sk \<Rightarrow> 'e link \<Rightarrow> 'e link tool" where
  "submitter_greet env k l =
     (case link_send (submitter_hello env k) l of (Inl _, _) \<Rightarrow> Crashes | (Inr _, l) \<Rightarrow>
     (case link_receive l of
        (Inr (Nonce hex bits), l) \<Rightarrow>
          (case hex_decode hex of None \<Rightarrow> Crashes | Some nonce \<Rightarrow>
          (case mine_pow (we_blake3 env) nonce bits of None \<Rightarrow> Mining | Some counter \<Rightarrow>
          (case link_send (NonceSignature (Some (to_hex (we_sign env k nonce))) counter) l of
             (Inl _, _) \<Rightarrow> Crashes
           | (Inr _, l) \<Rightarrow>
               (case link_receive l of
                  (Inr (AuthOk _), l) \<Rightarrow> Done l
                | (Inr (AuthFailed _), _) \<Rightarrow> Exits
                | _ \<Rightarrow> Crashes))))
      | (Inr (AuthFailed _), _) \<Rightarrow> Exits
      | _ \<Rightarrow> Crashes))"

definition UPLOAD_LIMIT :: nat where
  "UPLOAD_LIMIT = 16 * 1024 * 1024"

definition upload_blob ::
    "('fs, 'e, 'sk, 'x, 'k, 'p) wenv \<Rightarrow> string \<Rightarrow> 'fs \<Rightarrow> string \<Rightarrow> 'e link \<Rightarrow> 'e link tool" where
  "upload_blob env store fs id_hex l =
     (case content_id_from_hex id_hex of
        Some (Inr cid) \<Rightarrow>
          (case store_get (sys_os (we_sys env)) (we_blake3 env) store fs cid of Inl _ \<Rightarrow> Crashes | Inr bs \<Rightarrow>
             if length bs > UPLOAD_LIMIT then Exits
             else
               (case link_send (BlobUpload id_hex (to_hex bs)) l of (Inl _, _) \<Rightarrow> Crashes | (Inr _, l) \<Rightarrow>
               (case link_receive l of
                  (Inr (BlobAck _ accepted _), l) \<Rightarrow> if accepted then Done l else Exits
                | _ \<Rightarrow> Crashes)))
      | _ \<Rightarrow> Crashes)"

fun upload_blobs ::
    "('fs, 'e, 'sk, 'x, 'k, 'p) wenv \<Rightarrow> string \<Rightarrow> 'fs \<Rightarrow> string list \<Rightarrow> 'e link \<Rightarrow> 'e link tool" where
  "upload_blobs env store fs [] l = Done l"
| "upload_blobs env store fs (id_hex # ids) l =
     (case upload_blob env store fs id_hex l of Done l \<Rightarrow> upload_blobs env store fs ids l | r \<Rightarrow> r)"

definition submission_of ::
    "('fs, 'e, 'sk, 'x, 'k, 'p) wenv \<Rightarrow> 'sk \<Rightarrow> job_descriptor \<Rightarrow> digest \<Rightarrow> bool \<Rightarrow> client_to_server" where
  "submission_of env k desc cid require_zk =
     JobSubmission (jd_job_id desc) desc (to_hex (we_public env k))
       (to_hex (we_sign env k (submission_message (jd_job_id desc) cid))) require_zk"

text \<open>Waiting for the outcome, on what successive receives return; the last error is the closed connection.\<close>

fun await_outcome :: "('e wire_error + server_to_client) list \<Rightarrow> server_to_client tool" where
  "await_outcome [] = Exits"
| "await_outcome (Inl e # rs) = Exits"
| "await_outcome (Inr msg # rs) =
     (case msg of
        SubmissionAck _ accepted _ _ \<Rightarrow> if accepted then await_outcome rs else Exits
      | JobOutcomeMsg _ _ _ _ _ _ \<Rightarrow> Done msg
      | ShutDown reason \<Rightarrow> Done msg
      | _ \<Rightarrow> await_outcome rs)"

text \<open>The session: the final message and everything that was sent.\<close>

definition submit_session ::
    "('fs, 'e, 'sk, 'x, 'k, 'p) wenv \<Rightarrow> 'sk \<Rightarrow> job_descriptor \<Rightarrow> digest \<Rightarrow> bool \<Rightarrow> string \<Rightarrow> 'fs \<Rightarrow> 'e link \<Rightarrow>
     (server_to_client \<times> client_to_server list) tool" where
  "submit_session env k desc cid require_zk store fs l =
     (case submitter_greet env k l of
        Done l \<Rightarrow>
          (case upload_blobs env store fs [jd_manifest desc, jd_elf desc, jd_input desc] l of
             Done l \<Rightarrow>
               (case link_send (submission_of env k desc cid require_zk) l of
                  (Inl _, _) \<Rightarrow> Crashes
                | (Inr _, l) \<Rightarrow>
                    (case await_outcome (l_in l) of
                       Done msg \<Rightarrow> Done (msg, l_out l)
                     | Exits \<Rightarrow> Exits | Crashes \<Rightarrow> Crashes | Mining \<Rightarrow> Mining))
           | Exits \<Rightarrow> Exits | Crashes \<Rightarrow> Crashes | Mining \<Rightarrow> Mining)
      | Exits \<Rightarrow> Exits | Crashes \<Rightarrow> Crashes | Mining \<Rightarrow> Mining)"

text \<open>
  \<open>connect\<close> is the connection to the coordinator, over TLS and pinned to the certificate if one is
  given; \<open>None\<close> if it fails.
\<close>

definition submit ::
    "('fs, 'e, 'sk, 'x, 'k, 'p) wenv \<Rightarrow> (job_descriptor \<Rightarrow> bytes option) \<Rightarrow> string \<Rightarrow> string \<Rightarrow> string \<Rightarrow> bool \<Rightarrow>
     string option \<Rightarrow> (bytes option \<Rightarrow> 'e link option) \<Rightarrow> 'fs \<Rightarrow>
     (server_to_client \<times> client_to_server list \<times> 'fs) tool" where
  "submit env to_json dir store identity require_zk server_cert connect fs =
     (case submit_prepare env to_json dir store identity fs of None \<Rightarrow> Crashes | Some (k, desc, cid, fs) \<Rightarrow>
     (case (case server_cert of
              None \<Rightarrow> connect None
            | Some path \<Rightarrow>
                (case os_read (sys_os (we_sys env)) fs path of Inl _ \<Rightarrow> None | Inr cert \<Rightarrow> connect (Some cert))) of
        None \<Rightarrow> Crashes
      | Some l \<Rightarrow>
          (case submit_session env k desc cid require_zk store fs l of
             Done (msg, sent) \<Rightarrow> Done (msg, sent, fs)
           | Exits \<Rightarrow> Exits | Crashes \<Rightarrow> Crashes | Mining \<Rightarrow> Mining)))"

subsection \<open>Evidence and offline verification\<close>

text \<open>The bundle: the outcome record and, if there is one, the receipt; the value says which.\<close>

definition evidence :: "('fs, 'e) os \<Rightarrow> string \<Rightarrow> string \<Rightarrow> string \<Rightarrow> 'fs \<Rightarrow> (bool \<times> 'fs) tool" where
  "evidence os results job_id out fs =
     (case os_mkdir os fs out of Inl _ \<Rightarrow> Crashes | Inr fs \<Rightarrow>
     (case copy_over os fs (join results (job_id @ ''.json'')) (join out ''outcome.json'') of
        None \<Rightarrow> Crashes
      | Some (_, fs) \<Rightarrow>
          (let receipt = join results (job_id @ ''.receipt.bin'')
           in if os_exists os fs receipt
              then (case copy_over os fs receipt (join out ''receipt.bin'') of
                      None \<Rightarrow> Crashes
                    | Some (_, fs) \<Rightarrow> Done (True, fs))
              else Done (False, fs))))"

definition verifier_args :: "string \<Rightarrow> string \<Rightarrow> bool \<Rightarrow> job_descriptor option \<Rightarrow> string list" where
  "verifier_args guest_elf receipt v2 desc =
     [guest_elf, receipt] @ (if v2 then [''--v2''] else []) @
     (case desc of None \<Rightarrow> [] | Some d \<Rightarrow> [jd_manifest d, jd_elf d, jd_input d])"

text \<open>
  \<open>sp\<close> runs the verifier to its standard output, \<open>None\<close> if it cannot be started; \<open>json_ok\<close> reads
  the \<open>ok\<close> member of a JSON value, \<open>None\<close> if the text is not JSON. The value is the output reported.
\<close>

definition verify_bundle ::
    "('fs, 'e) os \<Rightarrow> (bytes \<Rightarrow> job_descriptor option) \<Rightarrow> (bytes \<Rightarrow> bool option) \<Rightarrow>
     (string \<Rightarrow> string list \<Rightarrow> 'fs \<Rightarrow> bytes option) \<Rightarrow> string \<Rightarrow> string \<Rightarrow> string \<Rightarrow> string option \<Rightarrow> bool \<Rightarrow>
     'fs \<Rightarrow> bytes tool" where
  "verify_bundle os desc_from_json json_ok sp bundle zk_verify guest_elf desc v2 fs =
     (let receipt = join bundle ''receipt.bin''
      in if \<not> os_exists os fs receipt then Exits
         else
           (case (case desc of
                    None \<Rightarrow> Some None
                  | Some path \<Rightarrow>
                      (case os_read os fs path of Inl _ \<Rightarrow> None | Inr bs \<Rightarrow> map_option Some (desc_from_json bs))) of
              None \<Rightarrow> Crashes
            | Some d \<Rightarrow>
                (case sp zk_verify (verifier_args guest_elf receipt v2 d) fs of
                   None \<Rightarrow> Crashes
                 | Some out \<Rightarrow>
                     (case json_ok out of
                        None \<Rightarrow> Crashes
                      | Some ok \<Rightarrow> if ok then Done out else Exits))))"

section \<open>An honest submission\<close>

text \<open>The coordinator's handling of what one connection sends, in order.\<close>

fun serve_messages ::
    "serve_config \<Rightarrow> ('fs, 'e, 'vk) env \<Rightarrow> nat \<Rightarrow> bytes \<Rightarrow> nat \<Rightarrow> client_to_server list \<Rightarrow> 'fs server \<Rightarrow>
     'fs server option" where
  "serve_messages cfg env now nonce i [] s = Some s"
| "serve_messages cfg env now nonce i (msg # msgs) s =
     Option.bind (handle_event cfg env now nonce (session_event i msg) s) (serve_messages cfg env now nonce i msgs)"

text \<open>What the coordinator answers to the messages of a submission.\<close>

definition submission_replies :: "serve_config \<Rightarrow> bytes \<Rightarrow> string \<Rightarrow> job_descriptor \<Rightarrow> bool \<Rightarrow> server_to_client list" where
  "submission_replies cfg nonce sid desc require_zk =
     [Nonce (to_hex nonce) (cfg_pow_bits cfg), AuthOk sid, BlobAck (jd_manifest desc) True None,
      BlobAck (jd_elf desc) True None, BlobAck (jd_input desc) True None,
      SubmissionAck (jd_job_id desc) True None require_zk]"

text \<open>
  The coordinator's disk takes the three blobs and then the descriptor, or the coordinator runs a
  prover when a proof is required.
\<close>

definition coordinator_takes ::
    "serve_config \<Rightarrow> ('fs, 'e, 'vk) env \<Rightarrow> job_descriptor \<Rightarrow> bytes \<Rightarrow> bool \<Rightarrow> bytes \<Rightarrow> bytes \<Rightarrow> bytes \<Rightarrow> 'fs \<Rightarrow> 'fs \<Rightarrow> bool" where
  "coordinator_takes cfg env desc json require_zk mb eb ib fs fs' \<longleftrightarrow>
     (let put = store_put (sys_os (e_sys env)) (e_blake3 env) (cfg_store_dir cfg); path = submitted_path cfg desc
      in \<exists>c1 c2 c3 f1 f2 f3. put fs mb = Inr (c1, f1) \<and> put f1 eb = Inr (c2, f2) \<and> put f2 ib = Inr (c3, f3) \<and>
           (if require_zk then cfg_zk_prover cfg \<noteq> None \<and> fs' = f3
            else \<exists>f4. create_new (e_sys env) f3 path = Inr f4 \<and> write_all (e_sys env) f4 path json = (None, fs')))"

text \<open>A blob that is present in the coordinator's store can be read.\<close>

definition store_readable :: "('fs, 'e) os \<Rightarrow> string \<Rightarrow> bool" where
  "store_readable os root \<longleftrightarrow>
     (\<forall>fs cid. store_has os root fs cid \<longrightarrow> (\<exists>bs. os_read os fs (blob_path root cid) = Inr bs))"

lemma link_send_free:
  "link_send m \<lparr>l_in = ins, l_sends = [], l_out = outs\<rparr> = (Inr (), \<lparr>l_in = ins, l_sends = [], l_out = outs @ [m]\<rparr>)"
  by (simp add: link_send_def)

lemma link_receive_next:
  "link_receive \<lparr>l_in = r # ins, l_sends = ss, l_out = outs\<rparr> = (r, \<lparr>l_in = ins, l_sends = ss, l_out = outs\<rparr>)"
  by (simp add: link_receive_def)

lemma hex_decode_to_hex: "hex_decode (to_hex bs) = Some bs"
  using from_hex_to_hex [of bs] by (simp add: hex_decode_def)

lemma upload_blob_ok:
  assumes "get_hex (sys_os (we_sys env)) (we_blake3 env) store fs id_hex = Inr bs" and "length bs \<le> UPLOAD_LIMIT"
  shows "upload_blob env store fs id_hex \<lparr>l_in = Inr (BlobAck x True r) # ins, l_sends = [], l_out = outs\<rparr> =
     Done \<lparr>l_in = ins, l_sends = [], l_out = outs @ [BlobUpload id_hex (to_hex bs)]\<rparr>"
  using assms
  by (auto simp: upload_blob_def get_hex_def link_send_free link_receive_next split: option.splits sum.splits)

text \<open>The tool's side of the conversation.\<close>

lemma submit_session_sends:
  fixes env :: "('fs, 'e, 'sk, 'x, 'k, 'p) wenv"
  assumes "mine_pow (we_blake3 env) nonce (cfg_pow_bits cfg) = Some counter"
    and "get_hex (sys_os (we_sys env)) (we_blake3 env) store fs (jd_manifest desc) = Inr mb"
    and "get_hex (sys_os (we_sys env)) (we_blake3 env) store fs (jd_elf desc) = Inr eb"
    and "get_hex (sys_os (we_sys env)) (we_blake3 env) store fs (jd_input desc) = Inr ib"
    and "length mb \<le> UPLOAD_LIMIT" "length eb \<le> UPLOAD_LIMIT" "length ib \<le> UPLOAD_LIMIT"
    and "await_outcome [Inr final :: 'e wire_error + server_to_client] = Done final"
  shows "submit_session env k desc cid require_zk store fs
       \<lparr>l_in = map Inr (submission_replies cfg nonce sid desc require_zk @ [final]), l_sends = [], l_out = []\<rparr> =
     Done (final, [submitter_hello env k, NonceSignature (Some (to_hex (we_sign env k nonce))) counter,
       BlobUpload (jd_manifest desc) (to_hex mb), BlobUpload (jd_elf desc) (to_hex eb),
       BlobUpload (jd_input desc) (to_hex ib), submission_of env k desc cid require_zk])"
  using assms(8)
  by (simp add: submit_session_def submission_replies_def submitter_greet_def link_send_free link_receive_next
      hex_decode_to_hex assms(1) upload_blob_ok [OF assms(2,5)] upload_blob_ok [OF assms(3,6)] upload_blob_ok [OF assms(4,7)])

text \<open>The coordinator's side, message by message.\<close>

lemma upload_accepted:
  assumes "map_of (s_conns s) i = Some c" and "c_authed c" and "c_uploads c < MAX_UPLOADS_PER_CONN"
    and "length bs \<le> UPLOAD_LIMIT" and "length (e_blake3 env bs) = 32"
    and "store_put (sys_os (e_sys env)) (e_blake3 env) (cfg_store_dir cfg) (s_fs s) bs = Inr (cid, fs')"
  shows "\<exists>s'. handle_blob_upload cfg env i (to_hex (e_blake3 env bs)) (to_hex bs) s = s' \<and> s_fs s' = fs' \<and>
     map_of (s_conns s') i = Some (conn_send (BlobAck (to_hex (e_blake3 env bs)) True None) (c\<lparr>c_uploads := c_uploads c + 1\<rparr>))"
  using assms from_hex_to_hex [of bs] from_hex_to_hex [of "e_blake3 env bs"]
  by (simp add: handle_blob_upload_def store_upload_def MAX_BLOB_BYTES_def UPLOAD_LIMIT_def map_of_conn_update)

lemma store_readable_put:
  assumes "os_ok os" and "store_put os blake3 root fs bs = Inr (cid, fs')" and "store_readable os root"
  shows "\<exists>data. os_read os fs' (blob_path root (blake3 bs)) = Inr data"
proof (cases "os_exists os fs (blob_path root cid)")
  case True
  then have "fs' = fs" "cid = blake3 bs" using assms(2) store_put_id [OF assms(2)]
    by (simp_all add: store_put_def from_data_def Let_def)
  then show ?thesis using True assms(3) by (simp add: store_readable_def store_has_def)
next
  case False
  then show ?thesis using store_put_read [OF assms(1,2)] store_put_id [OF assms(2)] by blast
qed

text \<open>All three blobs are present after they were stored one after the other.\<close>

lemma stored_blobs_present:
  assumes ok: "os_ok (sys_os (e_sys env))" and rd: "store_readable (sys_os (e_sys env)) (cfg_store_dir cfg)"
    and p1: "store_put (sys_os (e_sys env)) (e_blake3 env) (cfg_store_dir cfg) fs mb = Inr (c1, f1)"
    and p2: "store_put (sys_os (e_sys env)) (e_blake3 env) (cfg_store_dir cfg) f1 eb = Inr (c2, f2)"
    and p3: "store_put (sys_os (e_sys env)) (e_blake3 env) (cfg_store_dir cfg) f2 ib = Inr (c3, f3)"
    and len: "\<And>bs. length (e_blake3 env bs) = 32"
  shows "check_blobs cfg env f3 [(a, to_hex (e_blake3 env mb)), (b, to_hex (e_blake3 env eb)), (c, to_hex (e_blake3 env ib))]
     = BlobsPresent"
proof -
  obtain d1 d2 d3 where "os_read (sys_os (e_sys env)) f3 (blob_path (cfg_store_dir cfg) (e_blake3 env mb)) = Inr d1"
    "os_read (sys_os (e_sys env)) f3 (blob_path (cfg_store_dir cfg) (e_blake3 env eb)) = Inr d2"
    "os_read (sys_os (e_sys env)) f3 (blob_path (cfg_store_dir cfg) (e_blake3 env ib)) = Inr d3"
    using store_readable_put [OF ok p1 rd] store_readable_put [OF ok p2 rd] store_readable_put [OF ok p3 rd]
      store_put_mono [OF ok p2] store_put_mono [OF ok p3] by metis
  then show ?thesis
    using os_okD(4) [OF ok] by (simp add: content_id_round_trip [OF len] store_has_def)
qed

lemma submission_admitted:
  assumes "ed25519_ok wenv (e_vk_from_bytes env) (e_vk_verify env)" and "we_blake3 wenv = e_blake3 env"
    and "map_of (s_conns s) i = Some c" and "mine_pow (we_blake3 wenv) nonce (cfg_pow_bits cfg) = Some counter"
    and "msgs = [submitter_hello wenv k, NonceSignature (Some (to_hex (we_sign wenv k nonce))) counter]"
  shows "\<exists>s' c'. serve_messages cfg env now nonce i msgs s = Some s' \<and> map_of (s_conns s') i = Some c' \<and> s_fs s' = s_fs s \<and>
     c_authed c' \<and> c_uploads c' = c_uploads c \<and> c_pubkey c' = Some (to_hex (we_public wenv k)) \<and> c_role c' = ''submitter'' \<and>
     c_outbound c' = c_outbound c @
       [Nonce (to_hex nonce) (cfg_pow_bits cfg), AuthOk (''submitter-'' @ take 8 (to_hex (we_public wenv k)))]"
proof -
  have m: "verify_pow (e_blake3 env) nonce counter (cfg_pow_bits cfg)"
    using mine_from_valid assms(2,4) by (simp add: mine_pow_def)
  from assms(1) obtain vk where v: "from_hex (to_hex (we_public wenv k)) 32 = Inr (we_public wenv k)"
    "e_vk_from_bytes env (we_public wenv k) = Some vk" "from_hex (to_hex (we_sign wenv k nonce)) 64 = Inr (we_sign wenv k nonce)"
    "e_vk_verify env vk nonce (we_sign wenv k nonce)"
    by (rule ed25519_okD [where k = k]) blast
  have ne: "to_hex (we_public wenv k) \<noteq> []"
    using from_hex_length [OF v(1)] by (cases "we_public wenv k") (simp_all add: to_hex_def)
  show ?thesis
    using assms(3) m v ne
    by (simp add: assms(5) submitter_hello_def Let_def session_event_def handle_event_def handle_hello_def handle_nonce_sig_def
        map_of_conn_update conn_send_def auth_ok_def verify_nonce_def verify_msg_def)
qed

lemma uploads_accepted:
  assumes c: "map_of (s_conns s) i = Some c" "c_authed c" "c_uploads c + 3 \<le> MAX_UPLOADS_PER_CONN"
    and b: "length mb \<le> UPLOAD_LIMIT" "length eb \<le> UPLOAD_LIMIT" "length ib \<le> UPLOAD_LIMIT"
    and len: "\<And>bs. length (e_blake3 env bs) = 32"
    and p: "store_put (sys_os (e_sys env)) (e_blake3 env) (cfg_store_dir cfg) (s_fs s) mb = Inr (c1, f1)"
      "store_put (sys_os (e_sys env)) (e_blake3 env) (cfg_store_dir cfg) f1 eb = Inr (c2, f2)"
      "store_put (sys_os (e_sys env)) (e_blake3 env) (cfg_store_dir cfg) f2 ib = Inr (c3, f3)"
  shows "\<exists>s' c'. serve_messages cfg env now nonce i (map (\<lambda>bs. BlobUpload (to_hex (e_blake3 env bs)) (to_hex bs)) [mb, eb, ib]) s
       = Some s' \<and> map_of (s_conns s') i = Some c' \<and> s_fs s' = f3 \<and> c_authed c' \<and> c_pubkey c' = c_pubkey c \<and> c_role c' = c_role c \<and>
     c_outbound c' = c_outbound c @ map (\<lambda>bs. BlobAck (to_hex (e_blake3 env bs)) True None) [mb, eb, ib]"
proof -
  let ?ack = "\<lambda>bs c. conn_send (BlobAck (to_hex (e_blake3 env bs)) True None) (c\<lparr>c_uploads := c_uploads c + 1\<rparr>)"
  obtain s1 where s1: "handle_blob_upload cfg env i (to_hex (e_blake3 env mb)) (to_hex mb) s = s1" "s_fs s1 = f1"
    "map_of (s_conns s1) i = Some (?ack mb c)"
    using upload_accepted [OF c(1,2) _ b(1) len p(1)] c(3) by auto
  obtain s2 where s2: "handle_blob_upload cfg env i (to_hex (e_blake3 env eb)) (to_hex eb) s1 = s2" "s_fs s2 = f2"
    "map_of (s_conns s2) i = Some (?ack eb (?ack mb c))"
    using upload_accepted [OF s1(3) _ _ b(2) len p(2) [folded s1(2)]] c(2,3) by auto
  obtain s3 where s3: "handle_blob_upload cfg env i (to_hex (e_blake3 env ib)) (to_hex ib) s2 = s3" "s_fs s3 = f3"
    "map_of (s_conns s3) i = Some (?ack ib (?ack eb (?ack mb c)))"
    using upload_accepted [OF s2(3) _ _ b(3) len p(3) [folded s2(2)]] c(2,3) by auto
  show ?thesis
    using c s3(2,3) by (simp add: session_event_def handle_event_def s1(1) s2(1) s3(1) conn_send_def)
qed

text \<open>The last step: the signed descriptor lands in the job directory, or the job is queued for proving.\<close>

definition submission_taken ::
    "serve_config \<Rightarrow> ('fs, 'e, 'vk) env \<Rightarrow> nat \<Rightarrow> nat \<Rightarrow> job_descriptor \<Rightarrow> bytes \<Rightarrow> bool \<Rightarrow> 'fs server \<Rightarrow> bool" where
  "submission_taken cfg env now i desc json require_zk s \<longleftrightarrow>
     (if require_zk then \<exists>jobs. s_queue s = jobs @ [proving_job cfg now i desc]
      else os_read (sys_os (e_sys env)) (s_fs s) (submitted_path cfg desc) = Inr json \<and>
           (\<exists>ks. s_subs s (jd_job_id desc) = Some (ks @ [i])))"

lemma submission_lands:
  assumes ed: "ed25519_ok wenv (e_vk_from_bytes env) (e_vk_verify env)" and ok: "sys_ok (e_sys env)"
    and acc: "cfg_accept_submissions cfg" and nm: "confined_name (jd_job_id desc) = Inr ()"
    and js: "e_desc_to_json env desc = Some json" "cid = e_blake3 env json"
    and c: "map_of (s_conns s) i = Some c" "c_authed c" "c_pubkey c = Some (to_hex (we_public wenv k))"
    and bl: "check_blobs cfg env (s_fs s) [(''manifest'', jd_manifest desc), (''elf'', jd_elf desc), (''input'', jd_input desc)]
       = BlobsPresent"
    and fs: "if require_zk then cfg_zk_prover cfg \<noteq> None \<and> fs' = s_fs s
       else \<exists>f4. create_new (e_sys env) (s_fs s) (submitted_path cfg desc) = Inr f4 \<and>
              write_all (e_sys env) f4 (submitted_path cfg desc) json = (None, fs')"
  shows "\<exists>s' c'. serve_messages cfg env now nonce i [submission_of wenv k desc cid require_zk] s = Some s' \<and>
     map_of (s_conns s') i = Some c' \<and> submission_taken cfg env now i desc json require_zk s' \<and> s_fs s' = fs' \<and> c_role c' = c_role c \<and>
     c_outbound c' = c_outbound c @ [SubmissionAck (jd_job_id desc) True None require_zk]"
proof -
  obtain vk where v: "from_hex (to_hex (we_public wenv k)) 32 = Inr (we_public wenv k)"
    "e_vk_from_bytes env (we_public wenv k) = Some vk"
    "\<And>m. from_hex (to_hex (we_sign wenv k m)) 64 = Inr (we_sign wenv k m)" "\<And>m. e_vk_verify env vk m (we_sign wenv k m)"
    using ed25519_okD [OF ed, of k] by metis
  let ?sig = "to_hex (we_sign wenv k (submission_message (jd_job_id desc) cid))"
  have a: "submission_allowed cfg env (s_conns s) i desc (to_hex (we_public wenv k)) ?sig = Some json"
    using acc c v nm by (simp add: submission_allowed_def js verify_msg_def)
  note s = session_event_def handle_event_def submission_of_def
    handle_job_submission_def [of cfg env now i desc "to_hex (we_public wenv k)" ?sig _ s, unfolded a option.case bl blob_check.case]
  show ?thesis
  proof (cases require_zk)
    case True
    then obtain zk where "cfg_zk_prover cfg = Some zk" "fs' = s_fs s" using fs by auto
    then show ?thesis using c True
      by (auto simp: s submission_taken_def ack_submission_def map_of_conn_update conn_send_def)
  next
    case False
    then obtain f4 where f: "create_new (e_sys env) (s_fs s) (submitted_path cfg desc) = Inr f4"
      "write_all (e_sys env) f4 (submitted_path cfg desc) json = (None, fs')" using fs by auto
    then have "os_read (sys_os (e_sys env)) fs' (submitted_path cfg desc) = Inr json" using ok by (auto simp: sys_ok_def)
    then show ?thesis using c f False
      by (auto simp: s land_submission_def submission_taken_def ack_submission_def map_of_conn_update conn_send_def Let_def)
  qed
qed

lemma serve_messages_append:
  "serve_messages cfg env now nonce i (a @ b) s =
     Option.bind (serve_messages cfg env now nonce i a s) (serve_messages cfg env now nonce i b)"
proof (induction a arbitrary: s)
  case (Cons m a)
  then show ?case by (cases "handle_event cfg env now nonce (session_event i m) s") simp_all
qed simp

lemma submit_prepareD:
  assumes "submit_prepare env to_json dir store identity fs = Some (k, desc, cid, fs1)"
  shows "\<exists>a b c json. jd_manifest desc = to_hex (we_blake3 env a) \<and> jd_elf desc = to_hex (we_blake3 env b) \<and>
    jd_input desc = to_hex (we_blake3 env c) \<and> to_json desc = Some json \<and> cid = we_blake3 env json"
proof -
  obtain f2 where p: "publish (sys_os (we_sys env)) (we_blake3 env) (we_manifest_json env) store f2 dir = Inr (desc, fs1)"
    and d: "descriptor_id (we_blake3 env) to_json desc = Some cid"
    using assms by (auto simp: submit_prepare_def Let_def split: sum.splits option.splits)
  obtain json where "to_json desc = Some json" "cid = we_blake3 env json"
    using d by (auto simp: descriptor_id_def from_data_def)
  moreover from p have "\<exists>a b c. jd_manifest desc = to_hex (we_blake3 env a) \<and> jd_elf desc = to_hex (we_blake3 env b) \<and>
      jd_input desc = to_hex (we_blake3 env c)"
    by (rule publishD) auto
  ultimately show ?thesis by blast
qed

text \<open>The three published blobs can be read back from the owner's store and are within the limit.\<close>

definition uploadable ::
    "('fs, 'e, 'sk, 'x, 'k, 'p) wenv \<Rightarrow> string \<Rightarrow> 'fs \<Rightarrow> job_descriptor \<Rightarrow> bytes \<Rightarrow> bytes \<Rightarrow> bytes \<Rightarrow> bool" where
  "uploadable env store fs desc mb eb ib \<longleftrightarrow>
     (let get = get_hex (sys_os (we_sys env)) (we_blake3 env) store fs
      in get (jd_manifest desc) = Inr mb \<and> get (jd_elf desc) = Inr eb \<and> get (jd_input desc) = Inr ib \<and>
         length mb \<le> UPLOAD_LIMIT \<and> length eb \<le> UPLOAD_LIMIT \<and> length ib \<le> UPLOAD_LIMIT)"

lemma uploadable_ids:
  assumes "submit_prepare env to_json dir store identity fs = Some (k, desc, cid, fs1)"
    and "uploadable env store fs1 desc mb eb ib" and len: "\<And>bs. length (we_blake3 env bs) = 32"
  shows "jd_manifest desc = to_hex (we_blake3 env mb) \<and> jd_elf desc = to_hex (we_blake3 env eb) \<and>
    jd_input desc = to_hex (we_blake3 env ib)"
proof -
  obtain a b c where i: "jd_manifest desc = to_hex (we_blake3 env a)" "jd_elf desc = to_hex (we_blake3 env b)"
    "jd_input desc = to_hex (we_blake3 env c)" using submit_prepareD [OF assms(1)] by blast
  have g: "get_hex (sys_os (we_sys env)) (we_blake3 env) store fs1 (to_hex (we_blake3 env a)) = Inr mb"
    "get_hex (sys_os (we_sys env)) (we_blake3 env) store fs1 (to_hex (we_blake3 env b)) = Inr eb"
    "get_hex (sys_os (we_sys env)) (we_blake3 env) store fs1 (to_hex (we_blake3 env c)) = Inr ib"
    using assms(2) by (simp_all add: uploadable_def Let_def i)
  show ?thesis
    by (simp add: i get_hex_of_id [OF len g(1)] get_hex_of_id [OF len g(2)] get_hex_of_id [OF len g(3)])
qed

text \<open>The coordinator's side of the whole conversation.\<close>

lemma submission_conversation:
  assumes ed: "ed25519_ok wenv (e_vk_from_bytes env) (e_vk_verify env)" and js: "e_desc_to_json env desc = Some json"
    and b3: "we_blake3 wenv = e_blake3 env" "\<And>bs. length (e_blake3 env bs) = 32"
    and sys: "sys_ok (e_sys env)" "store_readable (sys_os (e_sys env)) (cfg_store_dir cfg)"
    and cfg: "cfg_accept_submissions cfg" "confined_name (jd_job_id desc) = Inr ()"
    and c: "map_of (s_conns s) i = Some c" "c_uploads c + 3 \<le> MAX_UPLOADS_PER_CONN"
    and mined: "mine_pow (we_blake3 wenv) nonce (cfg_pow_bits cfg) = Some counter"
    and takes: "coordinator_takes cfg env desc json require_zk mb eb ib (s_fs s) fs'"
    and lim: "length mb \<le> UPLOAD_LIMIT" "length eb \<le> UPLOAD_LIMIT" "length ib \<le> UPLOAD_LIMIT"
    and ids: "jd_manifest desc = to_hex (e_blake3 env mb)" "jd_elf desc = to_hex (e_blake3 env eb)"
      "jd_input desc = to_hex (e_blake3 env ib)" and sid: "sid = ''submitter-'' @ take 8 (to_hex (we_public wenv k))"
  shows "\<exists>s' c'. serve_messages cfg env now nonce i
       ([submitter_hello wenv k, NonceSignature (Some (to_hex (we_sign wenv k nonce))) counter] @
        map (\<lambda>bs. BlobUpload (to_hex (e_blake3 env bs)) (to_hex bs)) [mb, eb, ib] @
        [submission_of wenv k desc (e_blake3 env json) require_zk]) s = Some s' \<and>
     map_of (s_conns s') i = Some c' \<and> c_role c' = ''submitter'' \<and>
     c_outbound c' = c_outbound c @ submission_replies cfg nonce sid desc require_zk \<and>
     submission_taken cfg env now i desc json require_zk s'"
proof -
  obtain c1 c2 c3 f1 f2 f3 where p:
    "store_put (sys_os (e_sys env)) (e_blake3 env) (cfg_store_dir cfg) (s_fs s) mb = Inr (c1, f1)"
    "store_put (sys_os (e_sys env)) (e_blake3 env) (cfg_store_dir cfg) f1 eb = Inr (c2, f2)"
    "store_put (sys_os (e_sys env)) (e_blake3 env) (cfg_store_dir cfg) f2 ib = Inr (c3, f3)"
    and l: "if require_zk then cfg_zk_prover cfg \<noteq> None \<and> fs' = f3
       else \<exists>f4. create_new (e_sys env) f3 (submitted_path cfg desc) = Inr f4 \<and>
              write_all (e_sys env) f4 (submitted_path cfg desc) json = (None, fs')"
    using takes unfolding coordinator_takes_def Let_def by blast
  obtain s1 d1 where s1: "serve_messages cfg env now nonce i
      [submitter_hello wenv k, NonceSignature (Some (to_hex (we_sign wenv k nonce))) counter] s = Some s1"
    "map_of (s_conns s1) i = Some d1" "s_fs s1 = s_fs s" "c_authed d1" "c_uploads d1 = c_uploads c"
    "c_pubkey d1 = Some (to_hex (we_public wenv k))" "c_role d1 = ''submitter''"
    "c_outbound d1 = c_outbound c @ [Nonce (to_hex nonce) (cfg_pow_bits cfg), AuthOk sid]"
    using submission_admitted [OF ed b3(1) c(1) mined refl, of now] unfolding sid by blast
  obtain s2 d2 where s2: "serve_messages cfg env now nonce i
      (map (\<lambda>bs. BlobUpload (to_hex (e_blake3 env bs)) (to_hex bs)) [mb, eb, ib]) s1 = Some s2"
    "map_of (s_conns s2) i = Some d2" "s_fs s2 = f3" "c_authed d2" "c_pubkey d2 = c_pubkey d1" "c_role d2 = c_role d1"
    "c_outbound d2 = c_outbound d1 @ map (\<lambda>bs. BlobAck (to_hex (e_blake3 env bs)) True None) [mb, eb, ib]"
    using uploads_accepted [OF s1(2,4) c(2) [folded s1(5)] lim b3(2) p(1) [folded s1(3)] p(2,3)] by blast
  have bl: "check_blobs cfg env (s_fs s2) [(''manifest'', jd_manifest desc), (''elf'', jd_elf desc), (''input'', jd_input desc)]
      = BlobsPresent"
    unfolding s2(3) ids using stored_blobs_present [OF _ sys(2) p b3(2)] sys(1) unfolding sys_ok_def by blast
  obtain s3 d3 where s3: "serve_messages cfg env now nonce i [submission_of wenv k desc (e_blake3 env json) require_zk] s2 = Some s3"
    "map_of (s_conns s3) i = Some d3" "submission_taken cfg env now i desc json require_zk s3" "c_role d3 = c_role d2"
    "c_outbound d3 = c_outbound d2 @ [SubmissionAck (jd_job_id desc) True None require_zk]"
    using submission_lands [OF ed sys(1) cfg js refl s2(2,4) s2(5) [unfolded s1(6)] bl l [folded s2(3)]] by blast
  show ?thesis
    unfolding serve_messages_append s1(1) s2(1) s3(1) bind.bind_lunit
    by (simp add: s3(2-5) s2(6,7) s1(7,8) submission_replies_def ids)
qed

text \<open>
  C14: An honest submission goes through. When the tool has published the job and talks to a
  coordinator that takes submissions and can store them, the tool's messages make the coordinator
  answer exactly what the tool waits for: it is admitted as a submitter, every blob is acknowledged,
  the submission is accepted, and the signed descriptor lies in the watched directory (or the job is
  queued for proving) with the connection subscribed to its outcome.
\<close>

theorem honest_submission_served:
  fixes wenv :: "('fs, 'e, 'sk, 'x, 'k, 'p) wenv" and env :: "('fs2, 'e2, 'vk) env"
  assumes prep: "submit_prepare wenv (e_desc_to_json env) dir store identity fs = Some (k, desc, cid, fs1)"
    and up: "uploadable wenv store fs1 desc mb eb ib" and js: "e_desc_to_json env desc = Some json"
    and ed: "ed25519_ok wenv (e_vk_from_bytes env) (e_vk_verify env)"
    and b3: "we_blake3 wenv = e_blake3 env" "\<And>bs. length (e_blake3 env bs) = 32"
    and sys: "sys_ok (e_sys env)" "store_readable (sys_os (e_sys env)) (cfg_store_dir cfg)"
    and cfg: "cfg_accept_submissions cfg" "confined_name (jd_job_id desc) = Inr ()"
    and c: "map_of (s_conns s) i = Some c" "c_uploads c + 3 \<le> MAX_UPLOADS_PER_CONN"
    and mined: "mine_pow (we_blake3 wenv) nonce (cfg_pow_bits cfg) = Some counter"
    and takes: "coordinator_takes cfg env desc json require_zk mb eb ib (s_fs s) fs'"
    and final: "await_outcome [Inr final :: 'e wire_error + server_to_client] = Done final"
    and sid: "sid = ''submitter-'' @ take 8 (to_hex (we_public wenv k))"
    and link: "connect None =
      Some \<lparr>l_in = map Inr (submission_replies cfg nonce sid desc require_zk @ [final]), l_sends = [], l_out = []\<rparr>"
  shows "\<exists>msgs s' c'. submit wenv (e_desc_to_json env) dir store identity require_zk None connect fs = Done (final, msgs, fs1) \<and>
     serve_messages cfg env now nonce i msgs s = Some s' \<and> map_of (s_conns s') i = Some c' \<and> c_role c' = ''submitter'' \<and>
     c_outbound c' = c_outbound c @ submission_replies cfg nonce sid desc require_zk \<and>
     submission_taken cfg env now i desc json require_zk s'"
proof -
  have ids: "jd_manifest desc = to_hex (e_blake3 env mb)" "jd_elf desc = to_hex (e_blake3 env eb)"
    "jd_input desc = to_hex (e_blake3 env ib)"
    using uploadable_ids [OF prep up] b3 by simp_all
  have cid: "cid = e_blake3 env json" using submit_prepareD [OF prep] js b3(1) by auto
  have lim: "length mb \<le> UPLOAD_LIMIT" "length eb \<le> UPLOAD_LIMIT" "length ib \<le> UPLOAD_LIMIT"
    and get: "get_hex (sys_os (we_sys wenv)) (we_blake3 wenv) store fs1 (jd_manifest desc) = Inr mb"
      "get_hex (sys_os (we_sys wenv)) (we_blake3 wenv) store fs1 (jd_elf desc) = Inr eb"
      "get_hex (sys_os (we_sys wenv)) (we_blake3 wenv) store fs1 (jd_input desc) = Inr ib"
    using up by (simp_all add: uploadable_def Let_def)
  have "submit wenv (e_desc_to_json env) dir store identity require_zk None connect fs = Done (final,
      [submitter_hello wenv k, NonceSignature (Some (to_hex (we_sign wenv k nonce))) counter] @
      map (\<lambda>bs. BlobUpload (to_hex (e_blake3 env bs)) (to_hex bs)) [mb, eb, ib] @
      [submission_of wenv k desc (e_blake3 env json) require_zk], fs1)"
    using submit_session_sends [OF mined get lim final, of k cid require_zk sid]
    by (simp add: submit_def prep link ids cid)
  then show ?thesis
    using submission_conversation [OF ed js b3 sys cfg c mined takes lim ids sid, of now] by blast
qed

section \<open>Evidence\<close>

lemma copy_overD:
  assumes "os_ok os" and "copy_over os fs src dst = Some (n, fs')"
  shows "\<exists>bs. os_read os fs src = Inr bs \<and> os_read os fs' dst = Inr bs \<and> n = length bs \<and>
     (\<forall>p. p \<noteq> dst \<longrightarrow> os_read os fs' p = os_read os fs p)"
  using assms(2) os_okD(1,2) [OF assms(1)] by (auto simp: copy_over_def split: sum.splits)

lemma receipt_not_outcome: "join results (job_id @ ''.receipt.bin'') \<noteq> join out ''outcome.json''"
proof
  assume "join results (job_id @ ''.receipt.bin'') = join out ''outcome.json''"
  then have "take 2 (rev (join results (job_id @ ''.receipt.bin''))) = take 2 (rev (join out ''outcome.json''))" by simp
  then show False by (simp add: join_def)
qed

text \<open>The receipt of the bundle is the one the coordinator wrote.\<close>

lemma evidence_receipt:
  assumes ok: "os_ok os" and ev: "evidence os results job_id out fs = Done (True, fs1)"
  shows "\<exists>receipt. os_read os fs (join results (job_id @ ''.receipt.bin'')) = Inr receipt \<and>
     os_read os fs1 (join out ''receipt.bin'') = Inr receipt"
proof -
  obtain f2 n f3 m where f: "os_mkdir os fs out = Inr f2"
    "copy_over os f2 (join results (job_id @ ''.json'')) (join out ''outcome.json'') = Some (n, f3)"
    "copy_over os f3 (join results (job_id @ ''.receipt.bin'')) (join out ''receipt.bin'') = Some (m, fs1)"
    using ev by (auto simp: evidence_def Let_def split: sum.splits option.splits if_splits)
  then show ?thesis
    using copy_overD [OF ok f(2)] copy_overD [OF ok f(3)] receipt_not_outcome os_okD(3) [OF ok f(1)] by metis
qed

text \<open>The program the tool runs is the verifier: it reports success only when its run succeeded.\<close>

definition verifier_program ::
    "('fs, 'e) os \<Rightarrow> ('x, 'k, 'p) sdk \<Rightarrow> (bytes \<Rightarrow> bool option) \<Rightarrow>
     (string \<Rightarrow> string list \<Rightarrow> 'fs \<Rightarrow> bytes option) \<Rightarrow> string \<Rightarrow> bool" where
  "verifier_program os sdk json_ok sp cmd \<longleftrightarrow>
     (\<forall>args fs txt. sp cmd args fs = Some txt \<longrightarrow> json_ok txt = Some True \<longrightarrow>
        (\<exists>v. zk_verify_main os sdk args fs = Some (Inr v)))"

lemma verify_bundleD:
  assumes "verify_bundle os desc_from_json json_ok sp bundle cmd guest (Some path) v2 fs = Done txt"
    and "verifier_program os sdk json_ok sp cmd" and "os_read os fs path = Inr bs" and "desc_from_json bs = Some desc"
  shows "\<exists>v. zk_verify_main os sdk (verifier_args guest (join bundle ''receipt.bin'') v2 (Some desc)) fs = Some (Inr v)"
  using assms by (auto simp: verify_bundle_def verifier_program_def Let_def split: if_splits option.splits)

lemma join_no_flag: "join dir ''receipt.bin'' \<noteq> ''--v2''"
  by (cases dir rule: rev_cases) (auto simp: join_def append_eq_Cons_conv Cons_eq_append_conv)

text \<open>The arguments of the tool pin the verifier to the descriptor.\<close>

lemma verifier_args_pin:
  assumes "zk_verify_main os sdk (verifier_args guest receipt v2 (Some d)) fs = Some (Inr v)"
    and "guest \<noteq> ''--v2''" "receipt \<noteq> ''--v2''" "jd_manifest d \<noteq> ''--v2''"
  shows "\<exists>expected. descriptor_binding d = Inr expected \<and> zk_verify_run os sdk fs guest receipt (Some expected) v2 = Some (Inr v)"
proof -
  have "jd_elf d \<noteq> ''--v2'' \<and> jd_input d \<noteq> ''--v2''"
    using assms by (auto simp: zk_verify_main_def verifier_args_def Let_def split: if_splits)
  then show ?thesis
    using assms
    by (auto simp: zk_verify_main_def verifier_args_def Let_def decode_binding_def descriptor_binding_def decode_hex32_def
        split: if_splits sum.splits)
qed


text \<open>
  The ids of the descriptor are passed unchecked: when all three are the flag itself, no id is left
  and the receipt of any job is accepted.
\<close>

lemma flag_descriptor_skips_binding:
  assumes "guest \<noteq> ''--v2''" "receipt \<noteq> ''--v2''" "jd_manifest d = ''--v2''" "jd_elf d = ''--v2''" "jd_input d = ''--v2''"
  shows "zk_verify_main os sdk (verifier_args guest receipt v2 (Some d)) fs = zk_verify_run os sdk fs guest receipt None True"
  using assms by (simp add: zk_verify_main_def verifier_args_def)

section \<open>Building\<close>

lemma find_builtD:
  "find_built os kit fs dir = Done built \<Longrightarrow>
     \<exists>names n len. os_list os fs dir = Inr names \<and> n \<in> set names \<and> built = join dir n \<and>
       (extension n = None \<or> extension n = Some []) \<and> kit_stat kit fs built = Some len \<and> 4 < len"
  unfolding find_built_def
  by (cases "os_list os fs dir")
    (auto simp: find_Some_iff split: option.splits, (metis nth_mem option.exhaust)+)

lemma install_builtD:
  assumes "os_ok os" and "install_built os kit accept dir elf_dir fs = Done fs'"
  shows "\<exists>built bs. find_built os kit fs elf_dir = Done built \<and> os_read os fs built = Inr bs \<and> accept bs = Done () \<and>
     os_read os fs' (join dir ''program.elf'') = Inr bs \<and>
     (\<forall>p. p \<noteq> join dir ''program.elf'' \<longrightarrow> os_read os fs' p = os_read os fs p)"
  using assms(2) copy_overD [OF assms(1)]
  by (fastforce simp: install_built_def split: tool.splits sum.splits option.splits)

text \<open>
  C31: A legacy job that was built is one the sandbox loads. When \<open>jobkit build\<close> succeeds, cargo
  succeeded, the program installed is a file of more than four bytes without extension that cargo
  left in its release directory, the emulator's loader accepts it, and the tool changed no other file.
\<close>

theorem build_installs_loadable:
  assumes "os_ok os" and "build_job os from_json kit dir fs = Done fs'"
    and "\<And>bs m. os_read os fs (join dir ''job.json'') = Inr bs \<Longrightarrow> from_json bs = Some m \<Longrightarrow> \<not> is_sp1_v2 m"
  shows "\<exists>fs1 names n len bs img.
     kit_run kit (Some dir) [] ''cargo'' [''build'', ''--release''] fs = Some (True, fs1) \<and>
     os_list os fs1 (join dir ''target/riscv64imac-unknown-none-elf/release'') = Inr names \<and> n \<in> set names \<and>
     (extension n = None \<or> extension n = Some []) \<and>
     kit_stat kit fs1 (join (join dir ''target/riscv64imac-unknown-none-elf/release'') n) = Some len \<and> 4 < len \<and>
     os_read os fs1 (join (join dir ''target/riscv64imac-unknown-none-elf/release'') n) = Inr bs \<and>
     parse bs = Some (Inr img) \<and> os_read os fs' (join dir ''program.elf'') = Inr bs \<and>
     (\<forall>p. p \<noteq> join dir ''program.elf'' \<longrightarrow> os_read os fs' p = os_read os fs1 p)"
proof -
  obtain fs1 where k: "kit_run kit (Some dir) [] ''cargo'' [''build'', ''--release''] fs = Some (True, fs1)"
    and i: "install_built os kit loader_accepts dir (join dir ''target/riscv64imac-unknown-none-elf/release'') fs1 = Done fs'"
    using assms(2,3) by (auto simp: build_job_def split: if_splits option.splits sum.splits)
  obtain built bs where b: "find_built os kit fs1 (join dir ''target/riscv64imac-unknown-none-elf/release'') = Done built"
    "os_read os fs1 built = Inr bs" "loader_accepts bs = Done ()" "os_read os fs' (join dir ''program.elf'') = Inr bs"
    "\<forall>p. p \<noteq> join dir ''program.elf'' \<longrightarrow> os_read os fs' p = os_read os fs1 p"
    using install_builtD [OF assms(1) i] by blast
  obtain img where "parse bs = Some (Inr img)" using b(3) by (auto simp: loader_accepts_def split: option.splits sum.splits)
  then show ?thesis using k b find_builtD [OF b(1)] by auto
qed

section \<open>Concrete runs\<close>

definition open_scfg :: serve_config where
  "open_scfg = limit_scfg\<lparr>cfg_accept_submissions := True\<rparr>"

definition idle_server :: "(string \<rightharpoonup> bytes) server" where
  "idle_server = (init_server limit_store)\<lparr>s_conns := [(1, new_conn 1 ''ip'')]\<rparr>"

definition owner_link :: "unit link" where
  "owner_link =
     \<lparr>l_in = map Inr (submission_replies open_scfg [5] ''submitter-00000000'' limit_desc False @ [ShutDown ''done'']),
      l_sends = [], l_out = []\<rparr>"

lemma limit_store_blobs:
  "limit_store (blob_path ''s'' (pad32 [1])) = Some [1]" "limit_store (blob_path ''s'' (pad32 demo_elf)) = Some demo_elf"
  "limit_store (blob_path ''s'' (pad32 [])) = Some []" "limit_store ''key'' = Some (replicate 32 0)"
  using limit_ids limit_ids [symmetric] limit_key limit_key [symmetric] by (simp_all add: limit_store_def blob_path_inject)

lemma limit_dir_blobs:
  "limit_dir ''d'' (blob_path ''s'' c) = limit_store (blob_path ''s'' c)" "limit_dir ''d'' ''key'' = limit_store ''key''"
  by (simp_all add: limit_dir_def blob_path_def blob_dir_def join_def)

lemma limit_puts:
  "fs (blob_path ''s'' (pad32 bs)) \<noteq> None \<Longrightarrow> store_put disk pad32 ''s'' fs bs = Inr (pad32 bs, fs)"
  by (simp add: store_put_def from_data_def disk_def)

lemma limit_publish:
  "publish disk pad32 (\<lambda>_. Some limit_manifest) ''s'' (limit_dir ''d'') ''d'' = Inr (limit_desc, limit_dir ''d'')"
proof -
  have "jm_id limit_manifest = ''j1''" by (simp add: limit_manifest_def demo_manifest_def)
  then show ?thesis
    by (simp add: publish_def limit_dir_read limit_manifest_simps limit_puts limit_dir_blobs limit_store_blobs)
      (simp add: limit_desc_def)
qed

lemma owner_prepares:
  "submit_prepare limit_wenv (e_desc_to_json limit_env) ''d'' ''s'' ''key'' (limit_dir ''d'') =
     Some ((), limit_desc, pad32 [], limit_dir ''d'')"
proof -
  have "owner_identity limit_wenv ''key'' (limit_dir ''d'') = Some ((), limit_dir ''d'')"
    by (simp add: owner_identity_def limit_simps) (simp add: disk_def limit_dir_blobs limit_store_blobs)
  moreover have "store_open disk (limit_dir ''d'') ''s'' = Inr (limit_dir ''d'')"
    by (simp add: store_open_def disk_def)
  moreover have "descriptor_id pad32 (e_desc_to_json limit_env) limit_desc = Some (pad32 [])"
    by (simp add: descriptor_id_def limit_env_def from_data_def)
  ultimately show ?thesis
    by (simp add: submit_prepare_def limit_simps limit_dir_read limit_manifest_simps limit_publish)
qed

lemma owner_uploadable: "uploadable limit_wenv ''s'' (limit_dir ''d'') limit_desc [1] demo_elf []"
proof -
  have "get_hex disk pad32 ''s'' (limit_dir ''d'') h = get_hex disk pad32 ''s'' limit_store h" for h
  proof -
    have "store_get disk pad32 ''s'' (limit_dir ''d'') c = store_get disk pad32 ''s'' limit_store c" for c
      by (simp add: store_get_def disk_def limit_dir_blobs)
    then show ?thesis by (simp add: get_hex_def split: option.split sum.split)
  qed
  then show ?thesis
    by (simp add: uploadable_def limit_simps limit_get UPLOAD_LIMIT_def demo_elf_length)
qed

lemma open_takes:
  "coordinator_takes open_scfg limit_env limit_desc [] False [1] demo_elf [] limit_store
     (limit_store(submitted_path open_scfg limit_desc \<mapsto> []))"
proof -
  have "limit_store (submitted_path open_scfg limit_desc) = None"
    by (simp add: limit_store_def submitted_path_def open_scfg_def limit_scfg_def join_def blob_path_def blob_dir_def)
  moreover have "cfg_store_dir open_scfg = ''s''" by (simp add: open_scfg_def limit_env_simps)
  ultimately show ?thesis
    by (simp add: coordinator_takes_def limit_env_simps limit_simps limit_puts limit_store_blobs) (simp add: demo_sys_def)
qed

theorem honest_submission_served_witness:
  "\<exists>msgs s' c'. submit limit_wenv (e_desc_to_json limit_env) ''d'' ''s'' ''key'' False None (\<lambda>_. Some owner_link) (limit_dir ''d'')
       = Done (ShutDown ''done'', msgs, limit_dir ''d'') \<and>
     serve_messages open_scfg limit_env 0 [5] 1 msgs idle_server = Some s' \<and> map_of (s_conns s') 1 = Some c' \<and>
     c_outbound c' = submission_replies open_scfg [5] ''submitter-00000000'' limit_desc False \<and>
     os_read disk (s_fs s') (submitted_path open_scfg limit_desc) = Inr []"
proof -
  have b: "we_blake3 limit_wenv = e_blake3 limit_env" "\<And>bs. length (e_blake3 limit_env bs) = 32"
    by (simp_all add: limit_simps limit_env_simps pad32_demo(4))
  have sys: "sys_ok (e_sys limit_env)" "store_readable (sys_os (e_sys limit_env)) (cfg_store_dir open_scfg)"
    using demo_sys_ok
    by (auto simp: limit_env_simps limit_simps store_readable_def store_has_def) (auto simp: disk_def)
  have cfg: "cfg_accept_submissions open_scfg" "confined_name (jd_job_id limit_desc) = Inr ()" "e_desc_to_json limit_env limit_desc = Some []"
    by (simp_all add: open_scfg_def limit_simps limit_names limit_env_def)
  have c: "map_of (s_conns idle_server) 1 = Some (new_conn 1 ''ip'')" "c_uploads (new_conn 1 ''ip'') + 3 \<le> MAX_UPLOADS_PER_CONN"
    "s_fs idle_server = limit_store" "c_outbound (new_conn 1 ''ip'') = []"
    by (simp_all add: idle_server_def new_conn_def MAX_UPLOADS_PER_CONN_def init_server_def)
  have p: "mine_pow (we_blake3 limit_wenv) [5] (cfg_pow_bits open_scfg) = Some 0"
    by (subst mine_pow_def, subst mine_from.simps) (simp add: verify_pow_def open_scfg_def limit_env_simps)
  have f: "await_outcome [Inr (ShutDown ''done'') :: unit wire_error + server_to_client] = Done (ShutDown ''done'')" by simp
  have "to_hex (replicate 4 0 @ replicate 28 0) = ''00000000'' @ to_hex (replicate 28 0)"
    by (simp add: to_hex_def hex_char_digits eval_nat_numeral(2,3) del: replicate_add)
  then have sid: "''submitter-00000000'' = ''submitter-'' @ take 8 (to_hex (we_public limit_wenv ()))"
    by (simp add: limit_wenv_def flip: replicate_add)
  show ?thesis
    using honest_submission_served [OF owner_prepares owner_uploadable cfg(3) limit_ed25519 b sys cfg(1,2) c(1,2) p
        open_takes [folded c(3)] f sid, of "\<lambda>_. Some owner_link" 0] c(4)
    by (auto simp: owner_link_def submission_taken_def limit_env_simps limit_simps)
qed

definition owner_files :: "string \<rightharpoonup> bytes" where
  "owner_files = [join ''r'' ''j1.json'' \<mapsto> [], join ''r'' ''j1.receipt.bin'' \<mapsto> [3], ''guest'' \<mapsto> [4], ''desc'' \<mapsto> [9]]"

definition owner_bundle :: "string \<rightharpoonup> bytes" where
  "owner_bundle = owner_files(join ''b'' ''outcome.json'' \<mapsto> [], join ''b'' ''receipt.bin'' \<mapsto> [3])"

definition owner_verifier :: "(unit, unit, unit) sdk \<Rightarrow> string \<Rightarrow> string list \<Rightarrow> (string \<rightharpoonup> bytes) \<Rightarrow> bytes option" where
  "owner_verifier sdk cmd args fs = Some (case zk_verify_main disk sdk args fs of Some (Inr _) \<Rightarrow> [1] | _ \<Rightarrow> [])"

lemma owner_evidence: "evidence disk ''r'' ''j1'' ''b'' owner_files = Done (True, owner_bundle)"
  by (simp add: evidence_def copy_over_def disk_def owner_files_def owner_bundle_def join_def)

lemma limit_binding: "descriptor_binding limit_desc = Inr (job_binding pad32 [1] demo_elf [])"
proof -
  have "from_hex (to_hex (pad32 x)) 32 = Inr (pad32 x)" for x using from_hex_to_hex [of "pad32 x"] by (simp add: pad32_demo(4))
  then show ?thesis by (simp add: descriptor_binding_def decode_hex32_def limit_desc_def job_binding_def)
qed

lemma to_hex_no_flag: "length bs = 32 \<Longrightarrow> to_hex bs \<noteq> ''--v2''"
  by (rule notI, drule arg_cong [of _ _ length]) simp

lemma owner_verifies:
  assumes "cm_binding c = job_binding pad32 [1] demo_elf []"
  shows "verify_bundle disk (\<lambda>_. Some limit_desc) (\<lambda>t. Some (t = [1])) (owner_verifier (demo_sdk c)) ''b'' ''zk-verify'' ''guest''
     (Some ''desc'') False owner_bundle = Done [1]"
proof -
  have f: "os_read disk owner_bundle ''guest'' = Inr [4]" "os_read disk owner_bundle (join ''b'' ''receipt.bin'') = Inr [3]"
    "os_read disk owner_bundle ''desc'' = Inr [9]" "os_exists disk owner_bundle (join ''b'' ''receipt.bin'')"
    by (simp_all add: disk_def owner_bundle_def owner_files_def join_def)
  have ids: "jd_manifest limit_desc \<noteq> ''--v2''" "jd_elf limit_desc \<noteq> ''--v2''" "jd_input limit_desc \<noteq> ''--v2''"
    by (simp_all add: limit_desc_def to_hex_no_flag pad32_demo(4))
  have b: "decode_binding (jd_manifest limit_desc) (jd_elf limit_desc) (jd_input limit_desc) =
      (Inr (job_binding pad32 [1] demo_elf []) :: (unit, unit) sp1_error + binding)"
    using limit_binding by (auto simp: descriptor_binding_def decode_hex32_def decode_binding_def split: sum.splits)
  have s: "sdk_setup (demo_sdk c) e = Inr ()" "sdk_verify (demo_sdk c) p k = Inr ()" "sdk_load (demo_sdk c) bs = Some ()"
    "rd_binding (demo_sdk c) pv = Some (job_binding pad32 [1] demo_elf [], pv)" for e k p bs pv
    by (simp_all add: demo_sdk_def assms)
  have "\<exists>v. zk_verify_main disk (demo_sdk c) (verifier_args ''guest'' (join ''b'' ''receipt.bin'') False (Some limit_desc))
      owner_bundle = Some (Inr v)"
    using ids ids [symmetric] join_no_flag join_no_flag [symmetric]
    by (simp add: zk_verify_main_def verifier_args_def Let_def b zk_verify_run_def f s receipt_values_def demo_sdk_committed)
  then show ?thesis by (auto simp: verify_bundle_def f owner_verifier_def)
qed


definition release_dir :: string where
  "release_dir = join ''d'' ''target/riscv64imac-unknown-none-elf/release''"

definition owner_disk :: "(string \<rightharpoonup> bytes, unit) os" where
  "owner_disk = disk\<lparr>os_list := (\<lambda>fs p. Inr [''job.d'', ''job''])\<rparr>"

text \<open>A compiler that leaves the demo program beside a dependency file.\<close>

definition owner_kit :: "(string \<rightharpoonup> bytes) kit" where
  "owner_kit =
     \<lparr>kit_run = (\<lambda>cwd vars prog args fs. Some (True, fs(join release_dir ''job'' \<mapsto> demo_elf, join release_dir ''job.d'' \<mapsto> [1,2,3,4,5]))),
      kit_stat = (\<lambda>fs p. map_option length (fs p)), kit_canonical = (\<lambda>fs p. Some p), kit_var = (\<lambda>v. None),
      kit_manifest_dir = ''m''\<rparr>"

lemma owner_disk_simps:
  "os_read owner_disk = os_read disk" "os_write owner_disk = os_write disk" "os_list owner_disk fs p = Inr [''job.d'', ''job'']"
  "os_ok owner_disk"
  using disk_ok by (simp_all add: owner_disk_def os_ok_def)

lemma owner_builds:
  "build_job owner_disk (\<lambda>_. None) owner_kit ''d'' Map.empty =
     Done [join release_dir ''job'' \<mapsto> demo_elf, join release_dir ''job.d'' \<mapsto> [1,2,3,4,5], join ''d'' ''program.elf'' \<mapsto> demo_elf]"
proof -
  let ?fs = "[join release_dir ''job'' \<mapsto> demo_elf, join release_dir ''job.d'' \<mapsto> [1,2,3,4,5]]"
  have k: "kit_run owner_kit (Some ''d'') [] ''cargo'' [''build'', ''--release''] Map.empty = Some (True, ?fs)"
    by (simp add: owner_kit_def)
  have e: "extension ''job.d'' = Some ''d''" "extension ''job'' = None" by (simp_all add: extension_def)
  have f: "find_built owner_disk owner_kit ?fs release_dir = Done (join release_dir ''job'')"
    by (simp add: find_built_def owner_disk_simps e) (simp add: owner_kit_def demo_elf_length)
  have r: "os_read disk ?fs (join release_dir ''job'') = Inr demo_elf" by (simp add: disk_def)
  have "install_built owner_disk owner_kit loader_accepts ''d'' release_dir ?fs = Done (?fs(join ''d'' ''program.elf'' \<mapsto> demo_elf))"
    by (simp add: install_built_def f owner_disk_simps r loader_accepts_def demo_elf_parses copy_over_def) (simp add: disk_def)
  then show ?thesis
    by (simp add: build_job_def k owner_disk_simps release_dir_def [symmetric]) (simp add: disk_def)
qed

theorem build_installs_loadable_witness:
  "\<exists>bs img. build_job owner_disk (\<lambda>_. None) owner_kit ''d'' Map.empty =
       Done [join release_dir ''job'' \<mapsto> demo_elf, join release_dir ''job.d'' \<mapsto> [1,2,3,4,5], join ''d'' ''program.elf'' \<mapsto> demo_elf] \<and>
     os_read owner_disk [join release_dir ''job'' \<mapsto> demo_elf, join release_dir ''job.d'' \<mapsto> [1,2,3,4,5],
       join ''d'' ''program.elf'' \<mapsto> demo_elf] (join ''d'' ''program.elf'') = Inr bs \<and> parse bs = Some (Inr img)"
  using build_installs_loadable [OF owner_disk_simps(4) owner_builds] owner_builds by auto

end
