(* ===== verification/Spec2Isabelle.thy ===== *)
theory Spec2Isabelle
  imports Isa Jobkit
begin

text \<open>
  Verification of provework: verifiable execution of RISC-V jobs by untrusted workers.

  \<^bold>\<open>The program.\<close> A job owner publishes a job (manifest, ELF program, input) and submits it to a
  coordinator. Workers fetch the three blobs by content id, run the program in a deterministic
  RV64IMC emulator and report a signed result: a digest of the instruction count and the output,
  and a chain of state hashes, one per chunk of instructions. The coordinator decides by quorum,
  by replay, by judging the first divergent chunk of two chains, or by a zero-knowledge receipt
  that a guest running the same emulator has produced, and keeps bonds in a ledger.

  \<^bold>\<open>The emulator\<close> (\<open>crates/rvcore\<close>). \<^theory_text>\<open>Prelude\<close>: machine integers as words, little-endian codecs,
  slices and association lists. \<^theory_text>\<open>Memory\<close> (\<open>mem.rs\<close>): the record \<open>mem\<close> with its slot vector,
  directory and lookaside cache; \<open>paged_memory\<close> is the interface the interpreter relies on,
  interpreted on the model's operations, and the operations refine a flat partial memory.
  \<^theory_text>\<open>Machine\<close> (\<open>cpu.rs\<close>, \<open>hash.rs\<close>, \<open>crates/abi\<close>): registers, CSRs and the state hash, which binds
  the whole state up to a named collision. \<^theory_text>\<open>Interp\<close> (\<open>interp.rs\<close>, \<open>step_mode\<close>): one instruction,
  every arm, with traps and panics as values; the result depends on the architectural state only.
  \<^theory_text>\<open>Isa\<close>: the immediates and the M extension against the RISC-V manual. \<^theory_text>\<open>Snapshot\<close>
  (\<open>snapshot.rs\<close>): capture and restore, a round trip, and exactly which byte strings are accepted.
  \<^theory_text>\<open>Run\<close> (\<open>interp.rs\<close>, \<open>run\<close> and \<open>execute_chunk_from\<close>): the chunked run, its chain and snapshots; a
  judged chunk reproduces the run. \<^theory_text>\<open>Elf\<close> (\<open>elf.rs\<close>): parsing and loading.

  \<^bold>\<open>Jobs, storage and transport.\<close> \<^theory_text>\<open>Os\<close>: the file system as a record of operations with the law
  \<open>os_ok\<close>. \<^theory_text>\<open>Jobfmt\<close> (\<open>crates/jobfmt\<close>): manifests, path confinement, results, the signed
  messages and the hex codec. \<^theory_text>\<open>Contentstore\<close> (\<open>crates/contentstore\<close>): put, get, publish,
  materialize. \<^theory_text>\<open>Wire\<close> (\<open>crates/wire/src/lib.rs\<close>): frames over a stream cut into arbitrary
  pieces, the message types, and the admission proof of work.

  \<^bold>\<open>The coordinator\<close> (\<open>crates/coordinator/src\<close>). \<^theory_text>\<open>Quorum\<close> (\<open>lib.rs\<close>), \<^theory_text>\<open>Ledger\<close> (\<open>ledger.rs\<close>),
  \<^theory_text>\<open>Dispute\<close> (\<open>dispute.rs\<close>), \<^theory_text>\<open>Optimistic\<close> (\<open>optimistic.rs\<close>) and \<^theory_text>\<open>Zk\<close> (\<open>receipt.rs\<close>,
  \<open>zk_judge.rs\<close>) are its deciding parts. \<^theory_text>\<open>Netconn\<close> and \<^theory_text>\<open>Netjob\<close> (\<open>net.rs\<close>) hold the handlers of
  connections and of jobs over the record \<open>server\<close>; \<^theory_text>\<open>Server\<close> composes them into \<open>serve_round\<close> and
  into \<open>net_step\<close>, the interleaving of the accept, session, proving and main threads, and proves
  invariants of every reachable state through the locale \<open>server_invariant\<close>. \<^theory_text>\<open>Commands\<close>
  (\<open>main.rs\<close>) has the command line: publish, fetch, verify, the local quorum run over spawned
  workers, dispute, optimistic acceptance, and the configuration of the server.

  \<^bold>\<open>Workers and zk programs.\<close> \<^theory_text>\<open>Sp1\<close> (\<open>sp1-guest/src/bin/sp1-guest-emu.rs\<close>, \<open>sp1-host/src/bin\<close>):
  the guest, \<open>zk-judge\<close>, \<open>zk-verify\<close> and the validation driver over a record \<open>sdk\<close> of the SP1
  operations. \<^theory_text>\<open>Worker\<close> (\<open>crates/worker\<close>): the daemon with its sessions, fetching, execution,
  signing and reconnecting, and the run command. \<^theory_text>\<open>WorkerProps\<close>: its properties, those of the
  messages of a session through the locale \<open>sent_messages\<close>. \<^theory_text>\<open>Jobkit\<close> (\<open>crates/jobkit/src/main.rs\<close>):
  building, submitting, evidence and offline verification.

  \<^bold>\<open>What is shown.\<close> Runs are deterministic and a chunk judged from a snapshot is the chunk of the
  run, so the side that committed the real chain wins a dispute at every divergence inside it.
  The decisions are sound: a quorum acceptance has an honest majority behind it, an acceptance of
  the server is justified by a majority, a replay or a receipt, and votes come from distinct
  dispatched workers with valid signatures. The zk judge, the zkVM build of the worker, the native
  worker and the replay agree. An honest worker is admitted, its submissions verify and the replay
  judge vindicates it; an honest submission is served, and a receipt accepted offline is for the
  owner's job. Codecs and stores round-trip, every loop that should end ends, and every refusal is
  a value. Some theorems state where the code departs from its intent: the W-form divisions, a
  routed trap on a chunk boundary, a padded chain on the snapshot path, one connection voting for
  several workers, and the signature of the run command.

  \<^bold>\<open>Conventions.\<close> Code outside the repository is a parameter: BLAKE3 and SHA-256, Ed25519, serde,
  the file system, clocks and random numbers, child processes, the SP1 SDK. What is assumed of it
  is a named hypothesis (\<open>os_ok\<close>, \<open>sys_ok\<close>, \<open>ed25519_ok\<close>, \<open>worker_program\<close>,
  \<open>verifier_program\<close>, \<open>store_readable\<close>, \<open>coordinator_takes\<close>), instantiated in the witnesses. Hash
  functions are never assumed injective: a conclusion names the two byte strings that would
  collide. A Rust \<open>Result\<close> is a sum; a panic is \<open>None\<close> or a constructor of its own, in \<open>Jobkit\<close>
  \<open>Crashes\<close>. A string is the list of its UTF-8 bytes as characters.

  \<^bold>\<open>Bounds and loops.\<close> No function runs on fuel. \<open>run_loop\<close> ends because the instruction counter
  grows to \<open>max_instructions\<close>; stream loops end because the stream or the missing bytes shrink; the
  session loop because messages are consumed. \<open>chunk_loop\<close> (chunk size 0) and \<open>mine_from\<close> (no valid
  counter) may not end and are partial functions into \<open>option\<close>: \<open>resolve_returns\<close> states that the
  judge does return. The reconnect loop and the rounds of the server go on for ever in the code;
  they are a recursion over the connections obtained and a step relation. Polling loops take what
  successive polls return as a function of the tick, up to the code's own time limit.

  \<^bold>\<open>Not modelled.\<close> Sockets, TLS (\<open>crates/wire/src/tls.rs\<close>, glue around rustls and rcgen), thread
  start, argument parsing and printing; \<open>jobkit new\<close> and \<open>scaffold.rs\<close>, which write fixed template
  files; the daemon subcommand of the worker, which fills a configuration; the SP1 demonstration
  host; job programs under \<open>jobs/\<close> and \<open>sp1-guest-scaffold\<close>, which are inputs of the emulator or of
  the zkVM; the differential and conformance drivers, fuzz targets, tests and the stress example,
  which exercise the modelled code and compare printed results.
\<close>

end
